(* ===== verification/Prelude.thy ===== *)
theory Prelude
  imports Main "HOL-Library.Word" "HOL-Library.Monad_Syntax"
begin

text \<open>
  Shared vocabulary of the development: names for the machine types that are
  modelled as naturals, byte strings, the parts of the Rust standard library
  that several components use (checked indexing, powers of two, saturating
  arithmetic), and the generic list and option facts the component theories
  rely on.

  A Rust panic (a failed \<open>assert!\<close>, \<open>expect\<close>, or an index out of range) is
  the value \<^term>\<open>None\<close> of the option monad.  Functions that return a Rust
  \<open>Result\<close> use a sum type with their own error type on the left.
\<close>

named_theorems rust_std \<open>facts on the modelled parts of the Rust standard library\<close>

type_synonym byte = "8 word"
type_synonym b256 = "byte list"
type_synonym usize = nat
type_synonym u64 = nat

subsection \<open>Checked operations\<close>

text \<open>\<open>assert!\<close>: panics when the condition is false.\<close>

definition assert_that :: "bool \<Rightarrow> unit option" where
  "assert_that b = (if b then Some () else None)"

text \<open>\<open>slice.get(i)\<close>; as the value of \<open>slice[i]\<close> the result \<^term>\<open>None\<close> is the panic.\<close>

definition get :: "'a list \<Rightarrow> usize \<Rightarrow> 'a option" where
  "get xs i = (if i < length xs then Some (xs ! i) else None)"

text \<open>\<open>Option::expect\<close> and \<open>Option::unwrap\<close> on every element of a vector.\<close>

fun unwrap_all :: "'a option list \<Rightarrow> 'a list option" where
  "unwrap_all [] = Some []"
| "unwrap_all (None # xs) = None"
| "unwrap_all (Some x # xs) = map_option (Cons x) (unwrap_all xs)"

lemma assert_that_simps [simp]:
  "assert_that True = Some ()" "assert_that False = None"
  by (simp_all add: assert_that_def)

lemma assert_that_eq_Some [simp]: "assert_that b = Some u \<longleftrightarrow> b"
  by (simp add: assert_that_def)

lemma get_Some [simp]: "i < length xs \<Longrightarrow> get xs i = Some (xs ! i)"
  by (simp add: get_def)

lemma get_None [simp]: "length xs \<le> i \<Longrightarrow> get xs i = None"
  by (simp add: get_def)

lemma get_eq_Some_iff: "get xs i = Some x \<longleftrightarrow> i < length xs \<and> xs ! i = x"
  by (simp add: get_def)

lemma unwrap_all_map_Some [simp]: "unwrap_all (map (\<lambda>x. Some (f x)) xs) = Some (map f xs)"
  by (induction xs) simp_all

subsection \<open>Results that may also panic\<close>

text \<open>
  The value of a call that returns \<open>Result\<close> and may panic: \<^term>\<open>None\<close> is the panic,
  \<^term>\<open>Some (Inl e)\<close> the error and \<^term>\<open>Some (Inr x)\<close> the value.  \<open>and_then\<close> is the
  \<open>?\<close> operator, \<open>ensure\<close> is \<open>anyhow::ensure!\<close> and \<open>map_err\<close> is \<open>with_context\<close>.
\<close>

type_synonym ('e, 'a) fallible = "('e + 'a) option"

abbreviation returns :: "'a \<Rightarrow> ('e, 'a) fallible" where
  "returns x \<equiv> Some (Inr x)"

abbreviation fails :: "'e \<Rightarrow> ('e, 'a) fallible" where
  "fails e \<equiv> Some (Inl e)"

definition and_then :: "('e, 'a) fallible \<Rightarrow> ('a \<Rightarrow> ('e, 'b) fallible) \<Rightarrow> ('e, 'b) fallible" where
  "and_then m f = (case m of None \<Rightarrow> None | Some (Inl e) \<Rightarrow> fails e | Some (Inr x) \<Rightarrow> f x)"

definition ensure :: "bool \<Rightarrow> 'e \<Rightarrow> ('e, 'a) fallible \<Rightarrow> ('e, 'a) fallible" where
  "ensure b e m = (if b then m else fails e)"

definition map_err :: "('e \<Rightarrow> 'f) \<Rightarrow> ('e, 'a) fallible \<Rightarrow> ('f, 'a) fallible" where
  "map_err f m = map_option (map_sum f (\<lambda>x. x)) m"

lemma and_then_simps [simp]:
  "and_then (returns x) f = f x" "and_then (fails e) f = fails e" "and_then None f = None"
  by (simp_all add: and_then_def)

lemma and_then_returns_iff: "and_then m f = returns y \<longleftrightarrow> (\<exists>x. m = returns x \<and> f x = returns y)"
  by (auto simp: and_then_def split: option.splits sum.splits)

lemma and_then_None_iff: "and_then m f = None \<longleftrightarrow> m = None \<or> (\<exists>x. m = returns x \<and> f x = None)"
  by (auto simp: and_then_def split: option.splits sum.splits)

lemma ensure_True [simp]: "ensure True e m = m"
  by (simp add: ensure_def)

lemma ensure_False [simp]: "ensure False e m = fails e"
  by (simp add: ensure_def)

lemma ensure_returns_iff: "ensure b e m = returns y \<longleftrightarrow> b \<and> m = returns y"
  by (simp add: ensure_def)

lemma ensure_None_iff: "ensure b e m = None \<longleftrightarrow> b \<and> m = None"
  by (simp add: ensure_def)

lemma map_err_returns_iff [simp]: "map_err f m = returns y \<longleftrightarrow> m = returns y"
  by (cases m; cases "the m") (auto simp: map_err_def)

lemma map_err_simps [simp]: "map_err f (returns x) = returns x" "map_err f (fails e) = fails (f e)"
  by (simp_all add: map_err_def)

lemma map_err_None_iff [simp]: "map_err f m = None \<longleftrightarrow> m = None"
  by (simp add: map_err_def)

lemmas fallible_iffs = and_then_returns_iff ensure_returns_iff

subsection \<open>Powers of two\<close>

text \<open>\<open>usize::next_power_of_two\<close>: the smallest power of two that is at least \<open>n\<close>.\<close>

fun next_power_of_two :: "usize \<Rightarrow> usize" where
  "next_power_of_two n = (if n \<le> 1 then 1 else 2 * next_power_of_two ((n + 1) div 2))"

declare next_power_of_two.simps [simp del]

text \<open>\<open>usize::trailing_zeros\<close>: 64 for zero.\<close>

fun trailing_zeros :: "usize \<Rightarrow> nat" where
  "trailing_zeros n = (if n = 0 then 64 else if odd n then 0 else Suc (trailing_zeros (n div 2)))"

declare trailing_zeros.simps [simp del]

definition is_power_of_two :: "usize \<Rightarrow> bool" where
  "is_power_of_two n = (0 < n \<and> n = 2 ^ trailing_zeros n)"

lemma trailing_zeros_power [simp]: "trailing_zeros (2 ^ d) = d"
  by (induction d) (simp_all add: trailing_zeros.simps)

lemma trailing_zeros_1 [simp]: "trailing_zeros (Suc 0) = 0"
  by (simp add: trailing_zeros.simps)

lemma is_power_of_two_power [simp]: "is_power_of_two (2 ^ d)"
  by (simp add: is_power_of_two_def)

lemma is_power_of_two_iff: "is_power_of_two n \<longleftrightarrow> (\<exists>d. n = 2 ^ d)"
  by (auto simp: is_power_of_two_def)

lemma next_power_of_two_ge: "n \<le> next_power_of_two n"
proof (induction n rule: next_power_of_two.induct)
  case (1 n)
  then show ?case by (cases "n \<le> 1") (simp_all add: next_power_of_two.simps [of n])
qed

lemma next_power_of_two_power: "\<exists>d. next_power_of_two n = 2 ^ d"
proof (induction n rule: next_power_of_two.induct)
  case (1 n)
  show ?case
  proof (cases "n \<le> 1")
    case True
    then have "next_power_of_two n = 2 ^ 0" by (simp add: next_power_of_two.simps [of n])
    then show ?thesis ..
  next
    case False
    with 1 obtain d where "next_power_of_two ((n + 1) div 2) = 2 ^ d" by auto
    with False have "next_power_of_two n = 2 ^ Suc d" by (simp add: next_power_of_two.simps [of n])
    then show ?thesis ..
  qed
qed

lemma next_power_of_two_least:
  assumes "n \<le> 2 ^ d"
  shows "next_power_of_two n \<le> 2 ^ d"
  using assms
proof (induction n arbitrary: d rule: next_power_of_two.induct)
  case (1 n)
  show ?case
  proof (cases "n \<le> 1")
    case True
    then show ?thesis by (simp add: next_power_of_two.simps [of n])
  next
    case False
    with 1(2) obtain d' where d: "d = Suc d'" by (cases d) auto
    with 1(2) have "(n + 1) div 2 \<le> 2 ^ d'" by simp
    with 1(1) [OF False] have "next_power_of_two ((n + 1) div 2) \<le> 2 ^ d'" .
    with False d show ?thesis by (simp add: next_power_of_two.simps [of n])
  qed
qed

lemma next_power_of_two_exact [simp]: "next_power_of_two (2 ^ d) = 2 ^ d"
  by (rule antisym [OF next_power_of_two_least next_power_of_two_ge]) simp

subsection \<open>Halving\<close>

lemma half_up_even: "even (n::nat) \<Longrightarrow> (n + 1) div 2 = n div 2"
  by (elim evenE) simp

lemma half_up_odd: "odd (n::nat) \<Longrightarrow> (n + 1) div 2 = n div 2 + 1"
  by (elim oddE) simp

lemma div_power_Suc: "(n::nat) div 2 ^ Suc l = n div 2 ^ l div 2"
  by (simp only: power_Suc2 div_mult2_eq)

subsection \<open>Overflow\<close>

text \<open>Whether a sum is a \<open>u64\<close>; the source panics otherwise.  Evaluation compares binary numbers.\<close>

definition fits_u64 :: "nat \<Rightarrow> bool" where
  "fits_u64 n \<longleftrightarrow> n < 2 ^ 64"

lemma fits_u64_code [code]: "fits_u64 n \<longleftrightarrow> int n < 18446744073709551616"
  by (simp add: fits_u64_def)

end
