(* ===== verification/MiniMerkle.thy ===== *)
theory MiniMerkle
  imports Prelude
begin

unbundle bit_operations_syntax

text \<open>
  The in-memory Merkle tree of \<open>lib/mini_merkle_tree/src/lib.rs\<close>: a bounded-depth
  tree whose left part can be trimmed into a cache that holds the left subset of
  the path to the first untrimmed leaf.  The operations are proved against a
  reference that hashes the complete, padded list of leaves.

  The hash function is the record \<open>hasher\<close>, of which nothing is assumed; the
  concrete \<open>KeccakHasher\<close> is an instance over the external byte hash.
\<close>

subsection \<open>Hashers\<close>

record 'h hasher =
  hash_bytes :: "byte list \<Rightarrow> 'h"
  compress :: "'h \<Rightarrow> 'h \<Rightarrow> 'h"
  hs_empty_leaf_hash :: 'h

text \<open>\<open>KeccakHasher\<close> for leaves of \<open>n\<close> bytes (88 or 96 in the code), over the
  external function \<open>keccak256\<close>.\<close>

definition KeccakHasher :: "nat \<Rightarrow> (byte list \<Rightarrow> b256) \<Rightarrow> b256 hasher" where
  "KeccakHasher n keccak256 =
     \<lparr> hash_bytes = keccak256,
       compress = (\<lambda>lhs rhs. keccak256 (lhs @ rhs)),
       hs_empty_leaf_hash = keccak256 (replicate n 0) \<rparr>"

definition MAX_TREE_DEPTH :: nat where
  "MAX_TREE_DEPTH = 32"

text \<open>\<open>compute_empty_tree_hashes\<close>: entry \<open>d\<close> is the hash of an empty subtree of
  depth \<open>d\<close>.  The code always uses the compression of \<open>KeccakHasher\<close> here; \<open>kc\<close>
  is that compression.\<close>

primrec successors :: "nat \<Rightarrow> ('a \<Rightarrow> 'a) \<Rightarrow> 'a \<Rightarrow> 'a list" where
  "successors 0 f x = []"
| "successors (Suc n) f x = x # successors n f (f x)"

definition compute_empty_tree_hashes :: "('h \<Rightarrow> 'h \<Rightarrow> 'h) \<Rightarrow> 'h \<Rightarrow> 'h list" where
  "compute_empty_tree_hashes kc e = successors (MAX_TREE_DEPTH + 1) (\<lambda>h. kc h h) e"

definition tree_depth_by_size :: "usize \<Rightarrow> usize" where
  "tree_depth_by_size tree_size = trailing_zeros tree_size"

definition empty_subtree_hash :: "('h \<Rightarrow> 'h \<Rightarrow> 'h) \<Rightarrow> 'h hasher \<Rightarrow> usize \<Rightarrow> 'h option" where
  "empty_subtree_hash kc H depth = get (compute_empty_tree_hashes kc (hs_empty_leaf_hash H)) depth"

datatype side = Left | Right

subsection \<open>The tree\<close>

record 'h mini_merkle_tree =
  mm_hasher :: "'h hasher"
  mm_hashes :: "'h list"
  mm_binary_tree_size :: usize
  mm_start_index :: usize
  mm_cache :: "'h option list"
  mm_empty_leaf_hash :: "'h option"

definition from_hashes :: "'h hasher \<Rightarrow> 'h list \<Rightarrow> usize option \<Rightarrow> 'h mini_merkle_tree option" where
  "from_hashes H hs min_tree_size = do {
     binary_tree_size \<leftarrow>
       (case min_tree_size of
          None \<Rightarrow> Some (next_power_of_two (length hs))
        | Some m \<Rightarrow> do {
            assert_that (is_power_of_two m);
            Some (max m (next_power_of_two (length hs))) });
     let depth = tree_depth_by_size binary_tree_size;
     assert_that (depth \<le> MAX_TREE_DEPTH);
     Some \<lparr> mm_hasher = H, mm_hashes = hs, mm_binary_tree_size = binary_tree_size,
            mm_start_index = 0, mm_cache = replicate depth None, mm_empty_leaf_hash = None \<rparr> }"

definition with_hasher ::
    "'h hasher \<Rightarrow> byte list list \<Rightarrow> usize option \<Rightarrow> 'h mini_merkle_tree option" where
  "with_hasher H leaves min_tree_size = from_hashes H (map (hash_bytes H) leaves) min_tree_size"

definition new_tree ::
    "nat \<Rightarrow> (byte list \<Rightarrow> b256) \<Rightarrow> byte list list \<Rightarrow> usize option \<Rightarrow> b256 mini_merkle_tree option" where
  "new_tree n keccak256 leaves min_tree_size = with_hasher (KeccakHasher n keccak256) leaves min_tree_size"

definition new_with_empty_leaf_hash ::
    "nat \<Rightarrow> (byte list \<Rightarrow> b256) \<Rightarrow> byte list list \<Rightarrow> usize option \<Rightarrow> b256
       \<Rightarrow> b256 mini_merkle_tree option" where
  "new_with_empty_leaf_hash n keccak256 leaves min_tree_size e = do {
     tree \<leftarrow> with_hasher (KeccakHasher n keccak256) leaves min_tree_size;
     Some (tree \<lparr> mm_empty_leaf_hash := Some e \<rparr>) }"

text \<open>The loop of \<open>init_cached\<close> over the truncated cache: an entry is present
  exactly at the levels where the index is odd.\<close>

fun cache_consistent :: "usize \<Rightarrow> 'h option list \<Rightarrow> bool" where
  "cache_consistent curr_index [] = True"
| "cache_consistent curr_index (item # items) =
     ((if odd curr_index then item \<noteq> None else item = None) \<and>
      cache_consistent (curr_index div 2) items)"

definition init_cached ::
    "'h hasher \<Rightarrow> usize \<Rightarrow> 'h option list \<Rightarrow> 'h mini_merkle_tree option" where
  "init_cached H start_index cache = do {
     let binary_tree_size = next_power_of_two start_index;
     let depth = tree_depth_by_size binary_tree_size;
     assert_that (depth \<le> MAX_TREE_DEPTH);
     let expected_min_cache_len = (if start_index < binary_tree_size then depth else depth + 1);
     assert_that (expected_min_cache_len \<le> length cache);
     let cache = take expected_min_cache_len cache;
     assert_that (cache_consistent start_index cache);
     Some \<lparr> mm_hasher = H, mm_hashes = [], mm_binary_tree_size = binary_tree_size,
            mm_start_index = start_index, mm_cache = cache, mm_empty_leaf_hash = None \<rparr> }"

definition is_empty :: "'h mini_merkle_tree \<Rightarrow> bool" where
  "is_empty t = (mm_start_index t = 0 \<and> mm_hashes t = [])"

definition tree_length :: "'h mini_merkle_tree \<Rightarrow> usize" where
  "tree_length t = mm_start_index t + length (mm_hashes t)"

definition push_hash :: "'h \<Rightarrow> 'h mini_merkle_tree \<Rightarrow> 'h mini_merkle_tree" where
  "push_hash leaf_hash t =
     (let t = t \<lparr> mm_hashes := mm_hashes t @ [leaf_hash] \<rparr> in
      if mm_start_index t + length (mm_hashes t) > mm_binary_tree_size t then
        (let t = t \<lparr> mm_binary_tree_size := mm_binary_tree_size t * 2 \<rparr> in
         if length (mm_cache t) < tree_depth_by_size (mm_binary_tree_size t)
         then t \<lparr> mm_cache := mm_cache t @ [None] \<rparr>
         else t)
      else t)"

definition push :: "byte list \<Rightarrow> 'h mini_merkle_tree \<Rightarrow> 'h mini_merkle_tree" where
  "push leaf t = push_hash (hash_bytes (mm_hasher t) leaf) t"

text \<open>\<open>VecDeque::range\<close> panics on a range outside of the deque.\<close>

definition hashes_range :: "'h mini_merkle_tree \<Rightarrow> usize \<Rightarrow> usize \<Rightarrow> 'h list option" where
  "hashes_range t range_start range_end = do {
     assert_that (range_start \<le> range_end \<and> range_end \<le> length (mm_hashes t));
     Some (take (range_end - range_start) (drop range_start (mm_hashes t))) }"

subsection \<open>Roots and paths\<close>

text \<open>The inner loop of a level: pairs are compressed in place, then the deque is
  truncated.\<close>

definition compress_level :: "('h \<Rightarrow> 'h \<Rightarrow> 'h) \<Rightarrow> 'h list \<Rightarrow> 'h list" where
  "compress_level c hs =
     (let level_len = length hs div 2 in
      take level_len
        (fold (\<lambda>i hs. hs [i := c (hs ! (2 * i)) (hs ! (2 * i + 1))]) [0..<level_len] hs))"

text \<open>The empty leaf the tree pads with.\<close>

definition effective_empty_leaf :: "'h mini_merkle_tree \<Rightarrow> 'h" where
  "effective_empty_leaf t = (case mm_empty_leaf_hash t of None \<Rightarrow> hs_empty_leaf_hash (mm_hasher t) | Some e \<Rightarrow> e)"

definition path_item :: "side option \<Rightarrow> usize \<Rightarrow> 'h list \<Rightarrow> 'h option" where
  "path_item side index hs =
     (case side of
        Some Left \<Rightarrow> (if even index then None else get hs (index XOR 1))
      | Some Right \<Rightarrow> (if odd index then None else get hs (index XOR 1))
      | None \<Rightarrow> get hs (index XOR 1))"

text \<open>One iteration of the loop over the levels of \<open>compute_merkle_root_and_path\<close>:
  the new deque, the new index, the new start index and the path extended by one
  item.\<close>

definition path_level ::
    "('h \<Rightarrow> 'h \<Rightarrow> 'h) \<Rightarrow> 'h mini_merkle_tree \<Rightarrow> side option \<Rightarrow> usize \<Rightarrow>
     'h list \<times> usize \<times> usize \<times> 'h option list option \<Rightarrow>
     ('h list \<times> usize \<times> usize \<times> 'h option list option) option" where
  "path_level kc t side level = (\<lambda>(hs, index, absolute_start_index, path). do {
     (hs, index) \<leftarrow>
       (if odd absolute_start_index
        then do { left \<leftarrow> get (mm_cache t) level; left \<leftarrow> left; Some (left # hs, index + 1) }
        else Some (hs, index));
     hs \<leftarrow>
       (if odd (length hs)
        then do { e \<leftarrow> get (compute_empty_tree_hashes kc (effective_empty_leaf t)) level; Some (hs @ [e]) }
        else Some hs);
     let path = map_option (\<lambda>p. p @ [path_item side index hs]) path;
     Some (compress_level (compress (mm_hasher t)) hs, index div 2, absolute_start_index div 2, path) })"

fun path_levels ::
    "('h \<Rightarrow> 'h \<Rightarrow> 'h) \<Rightarrow> 'h mini_merkle_tree \<Rightarrow> side option \<Rightarrow> usize list \<Rightarrow>
     'h list \<times> usize \<times> usize \<times> 'h option list option \<Rightarrow>
     ('h list \<times> usize \<times> usize \<times> 'h option list option) option" where
  "path_levels kc t side [] st = Some st"
| "path_levels kc t side (level # levels) st =
     Option.bind (path_level kc t side level st) (path_levels kc t side levels)"

definition compute_merkle_root_and_path ::
    "('h \<Rightarrow> 'h \<Rightarrow> 'h) \<Rightarrow> 'h mini_merkle_tree \<Rightarrow> usize \<Rightarrow> 'h option list option \<Rightarrow> side option \<Rightarrow>
     ('h \<times> 'h option list option) option" where
  "compute_merkle_root_and_path kc t index path side = do {
     let depth = tree_depth_by_size (mm_binary_tree_size t);
     (hs, index, absolute_start_index, path) \<leftarrow>
       path_levels kc t side [0..<depth] (mm_hashes t, index, mm_start_index t, path);
     root \<leftarrow> get hs 0;
     Some (root, path) }"

definition merkle_root :: "('h \<Rightarrow> 'h \<Rightarrow> 'h) \<Rightarrow> 'h mini_merkle_tree \<Rightarrow> 'h option" where
  "merkle_root kc t =
     (let depth = tree_depth_by_size (mm_binary_tree_size t) in
      if mm_hashes t = [] \<and> mm_start_index t = 0
      then empty_subtree_hash kc (mm_hasher t) depth
      else if mm_hashes t = [] \<and> mm_start_index t = mm_binary_tree_size t
      then Option.bind (get (mm_cache t) depth) id
      else map_option fst (compute_merkle_root_and_path kc t 0 None None))"

definition merkle_root_and_path ::
    "('h \<Rightarrow> 'h \<Rightarrow> 'h) \<Rightarrow> 'h mini_merkle_tree \<Rightarrow> usize \<Rightarrow> ('h \<times> 'h list) option" where
  "merkle_root_and_path kc t index = do {
     assert_that (index < length (mm_hashes t));
     (root_hash, end_path) \<leftarrow> compute_merkle_root_and_path kc t index (Some []) None;
     end_path \<leftarrow> end_path;
     end_path \<leftarrow> unwrap_all end_path;
     Some (root_hash, end_path) }"

definition merkle_root_and_path_by_absolute_index ::
    "('h \<Rightarrow> 'h \<Rightarrow> 'h) \<Rightarrow> 'h mini_merkle_tree \<Rightarrow> usize \<Rightarrow> ('h \<times> 'h list) option" where
  "merkle_root_and_path_by_absolute_index kc t index = do {
     assert_that (mm_start_index t \<le> index);
     merkle_root_and_path kc t (index - mm_start_index t) }"

definition merkle_root_and_paths_for_range ::
    "('h \<Rightarrow> 'h \<Rightarrow> 'h) \<Rightarrow> 'h mini_merkle_tree \<Rightarrow> usize \<Rightarrow> usize \<Rightarrow>
     ('h \<times> 'h option list \<times> 'h option list) option" where
  "merkle_root_and_paths_for_range kc t range_start range_end = do {
     assert_that (range_end > 0);
     assert_that (range_end \<le> length (mm_hashes t));
     (root_hash, right_path) \<leftarrow> compute_merkle_root_and_path kc t (range_end - 1) (Some []) (Some Right);
     right_path \<leftarrow> right_path;
     (_, left_path) \<leftarrow> compute_merkle_root_and_path kc t range_start (Some []) (Some Left);
     left_path \<leftarrow> left_path;
     Some (root_hash, left_path, right_path) }"

definition trim_start :: "('h \<Rightarrow> 'h \<Rightarrow> 'h) \<Rightarrow> usize \<Rightarrow> 'h mini_merkle_tree \<Rightarrow> 'h mini_merkle_tree option" where
  "trim_start kc count t = do {
     assert_that (count \<le> length (mm_hashes t));
     (root, new_cache) \<leftarrow> compute_merkle_root_and_path kc t count (Some []) (Some Left);
     new_cache \<leftarrow> new_cache;
     let t = t \<lparr> mm_hashes := drop count (mm_hashes t), mm_start_index := mm_start_index t + count \<rparr>;
     let new_cache =
       (if mm_start_index t = mm_binary_tree_size t then new_cache @ [Some root] else new_cache);
     Some (t \<lparr> mm_cache := new_cache \<rparr>) }"

subsection \<open>Reference: the complete tree\<close>

text \<open>The hash of the node with index \<open>i\<close> at level \<open>l\<close> of the infinite tree with
  leaves \<open>f\<close>, and the leaves of a tree that holds \<open>ls\<close> and is padded with \<open>e\<close>.\<close>

fun node :: "('h \<Rightarrow> 'h \<Rightarrow> 'h) \<Rightarrow> (nat \<Rightarrow> 'h) \<Rightarrow> nat \<Rightarrow> nat \<Rightarrow> 'h" where
  "node c f 0 i = f i"
| "node c f (Suc l) i = c (node c f l (2 * i)) (node c f l (2 * i + 1))"

definition leaf_at :: "'h \<Rightarrow> 'h list \<Rightarrow> nat \<Rightarrow> 'h" where
  "leaf_at e ls i = (if i < length ls then ls ! i else e)"

text \<open>The root of the tree of depth \<open>d\<close> over \<open>ls\<close>.\<close>

definition reference_root :: "('h \<Rightarrow> 'h \<Rightarrow> 'h) \<Rightarrow> 'h \<Rightarrow> nat \<Rightarrow> 'h list \<Rightarrow> 'h" where
  "reference_root c e d ls = node c (leaf_at e ls) d 0"

text \<open>A verifier recomputes the root from a leaf hash, its position and the path.\<close>

fun root_from_path :: "('h \<Rightarrow> 'h \<Rightarrow> 'h) \<Rightarrow> nat \<Rightarrow> 'h \<Rightarrow> 'h list \<Rightarrow> 'h" where
  "root_from_path c p h [] = h"
| "root_from_path c p h (x # xs) = root_from_path c (p div 2) (if even p then c h x else c x h) xs"

text \<open>The verifier for a range of leaves that starts at position \<open>p\<close>, given the left
  items of the path of its first leaf and the right items of the path of its last leaf.\<close>

fun root_from_range ::
    "('h \<Rightarrow> 'h \<Rightarrow> 'h) \<Rightarrow> nat \<Rightarrow> 'h list \<Rightarrow> 'h option list \<Rightarrow> 'h option list \<Rightarrow> 'h option" where
  "root_from_range c p hs (l # ls) (r # rs) = do {
     hs \<leftarrow> (if even p then do { assert_that (l = None); Some hs } else map_option (\<lambda>x. x # hs) l);
     hs \<leftarrow> (if even (length hs) then do { assert_that (r = None); Some hs } else map_option (\<lambda>x. hs @ [x]) r);
     root_from_range c (p div 2) (compress_level c hs) ls rs }"
| "root_from_range c p hs [] [] = get hs 0"
| "root_from_range c p hs _ _ = None"

text \<open>The cache entry of level \<open>l\<close> for the first untrimmed leaf \<open>s\<close>, and the number
  of nodes of level \<open>l\<close> above \<open>n\<close> leaves.\<close>

definition cache_entry :: "('h \<Rightarrow> 'h \<Rightarrow> 'h) \<Rightarrow> (nat \<Rightarrow> 'h) \<Rightarrow> nat \<Rightarrow> nat \<Rightarrow> 'h option" where
  "cache_entry c f s l =
     (if odd (s div 2 ^ l) then Some (node c f l (s div 2 ^ l - 1)) else None)"

primrec half_ups :: "nat \<Rightarrow> nat \<Rightarrow> nat" where
  "half_ups n 0 = n"
| "half_ups n (Suc l) = (half_ups n l + 1) div 2"

text \<open>The tree \<open>t\<close> of depth \<open>d\<close> stands for the complete list of leaves \<open>ls\<close>.\<close>

definition represents :: "('h \<Rightarrow> 'h \<Rightarrow> 'h) \<Rightarrow> nat \<Rightarrow> 'h mini_merkle_tree \<Rightarrow> 'h list \<Rightarrow> bool" where
  "represents kc d t ls \<longleftrightarrow>
     compress (mm_hasher t) = kc \<and> d \<le> MAX_TREE_DEPTH \<and>
     mm_binary_tree_size t = 2 ^ d \<and> length ls \<le> 2 ^ d \<and>
     mm_start_index t \<le> length ls \<and> mm_hashes t = drop (mm_start_index t) ls \<and>
     mm_cache t = map (cache_entry kc (leaf_at (effective_empty_leaf t) ls) (mm_start_index t))
                      [0..<d + (if mm_start_index t = 2 ^ d then 1 else 0)]"

subsection \<open>Facts on the reference\<close>

lemma node_cong:
  assumes "\<And>j. i * 2 ^ l \<le> j \<Longrightarrow> j < (i + 1) * 2 ^ l \<Longrightarrow> f j = g j"
  shows "node c f l i = node c g l i"
  using assms
proof (induction l arbitrary: i)
  case (Suc l)
  have "node c f l (2 * i) = node c g l (2 * i)"
    by (rule Suc.IH, rule Suc.prems) (simp_all add: algebra_simps)
  moreover have "node c f l (2 * i + 1) = node c g l (2 * i + 1)"
    by (rule Suc.IH, rule Suc.prems) (simp_all add: algebra_simps)
  ultimately show ?case by simp
qed simp

lemma node_0: "node c f 0 = f"
  by (simp add: fun_eq_iff)

lemma length_successors [simp]: "length (successors n f x) = n"
  by (induction n arbitrary: x) simp_all

lemma nth_successors: "i < n \<Longrightarrow> successors n f x ! i = (f ^^ i) x"
proof (induction n arbitrary: x i)
  case (Suc n)
  then show ?case by (cases i) (simp_all add: funpow_swap1)
qed simp

lemma node_const:
  assumes "\<And>j. i * 2 ^ l \<le> j \<Longrightarrow> f j = e"
  shows "node c f l i = ((\<lambda>h. c h h) ^^ l) e"
  using assms
proof (induction l arbitrary: i)
  case (Suc l)
  have "node c f l (2 * i) = ((\<lambda>h. c h h) ^^ l) e"
    by (rule Suc.IH, rule Suc.prems) (simp add: algebra_simps)
  moreover have "node c f l (2 * i + 1) = ((\<lambda>h. c h h) ^^ l) e"
    by (rule Suc.IH, rule Suc.prems) (simp add: algebra_simps)
  ultimately show ?case by simp
qed simp

lemma node_empty:
  assumes "length ls \<le> i * 2 ^ l" and "l \<le> MAX_TREE_DEPTH"
  shows "get (compute_empty_tree_hashes c e) l = Some (node c (leaf_at e ls) l i)"
proof -
  have "node c (leaf_at e ls) l i = ((\<lambda>h. c h h) ^^ l) e"
    by (rule node_const) (use assms in \<open>simp add: leaf_at_def\<close>)
  with assms(2) show ?thesis
    by (simp add: compute_empty_tree_hashes_def nth_successors del: successors.simps)
qed

lemma half_ups_ge: "n \<le> half_ups n l * 2 ^ l"
proof (induction l)
  case (Suc l)
  have "half_ups n l \<le> 2 * ((half_ups n l + 1) div 2)" by simp
  then have "half_ups n l * 2 ^ l \<le> 2 * ((half_ups n l + 1) div 2) * 2 ^ l" by (rule mult_le_mono1)
  also have "\<dots> = half_ups n (Suc l) * 2 ^ Suc l" by simp
  finally show ?case using Suc by (rule le_trans [rotated])
qed simp

lemma half_ups_le: "n \<le> m * 2 ^ l \<Longrightarrow> half_ups n l \<le> m"
proof (induction l arbitrary: m)
  case (Suc l)
  then have "half_ups n l \<le> 2 * m" by (simp add: mult.assoc mult.left_commute mult.commute)
  then show ?case by simp
qed simp

lemma div_le_half_ups: "p \<le> n \<Longrightarrow> p div 2 ^ l \<le> half_ups n l"
  using half_ups_ge [of n l] by (metis div_le_mono le_trans nonzero_mult_div_cancel_right power_not_zero zero_neq_numeral)

lemma div_less_half_ups: "p < n \<Longrightarrow> p div 2 ^ l < half_ups n l"
  using half_ups_ge [of n l] by (meson less_le_trans div_less_iff_less_mult zero_less_power zero_less_numeral)

lemma half_ups_pos: "0 < n \<Longrightarrow> 0 < half_ups n l"
  by (induction l) simp_all

lemma half_ups_root: "0 < n \<Longrightarrow> n \<le> 2 ^ d \<Longrightarrow> half_ups n d = 1"
  using half_ups_le [of n 1 d] half_ups_pos [of n d] by simp

subsection \<open>One level of the computation\<close>

lemma compress_level_fold:
  assumes "2 * n \<le> length hs"
  shows "fold (\<lambda>i hs. hs [i := c (hs ! (2 * i)) (hs ! (2 * i + 1))]) [0..<n] hs =
         map (\<lambda>i. c (hs ! (2 * i)) (hs ! (2 * i + 1))) [0..<n] @ drop n hs"
  using assms
proof (induction n)
  case (Suc n)
  let ?m = "map (\<lambda>i. c (hs ! (2 * i)) (hs ! (2 * i + 1))) [0..<n] @ drop n hs"
  have "?m ! (2 * n) = hs ! (2 * n)" "?m ! (2 * n + 1) = hs ! (2 * n + 1)"
    using Suc.prems by (simp_all add: nth_append mult_2)
  moreover have "?m [n := x] = map (\<lambda>i. c (hs ! (2 * i)) (hs ! (2 * i + 1))) [0..<n] @ x # drop (Suc n) hs" for x
    using Suc.prems by (simp add: list_update_append Cons_nth_drop_Suc [symmetric])
  ultimately show ?case using Suc by simp
qed simp

lemma compress_level_eq:
  "compress_level c hs = map (\<lambda>i. c (hs ! (2 * i)) (hs ! (2 * i + 1))) [0..<length hs div 2]"
  using compress_level_fold [of "length hs div 2" hs c] by (simp add: compress_level_def Let_def)

lemma compress_level_nodes:
  "compress_level c (map (node c f l) [2 * a..<2 * b]) = map (node c f (Suc l)) [a..<b]"
proof (rule nth_equalityI)
  show "length (compress_level c (map (node c f l) [2 * a..<2 * b])) = length (map (node c f (Suc l)) [a..<b])"
    by (simp add: compress_level_eq)
  show "compress_level c (map (node c f l) [2 * a..<2 * b]) ! i = map (node c f (Suc l)) [a..<b] ! i"
    if "i < length (compress_level c (map (node c f l) [2 * a..<2 * b]))" for i
    using that by (simp add: compress_level_eq algebra_simps)
qed

text \<open>The item that the path of position \<open>p\<close> has at level \<open>l\<close> in a tree of \<open>n\<close> leaves.\<close>

definition path_node :: "('h \<Rightarrow> 'h \<Rightarrow> 'h) \<Rightarrow> (nat \<Rightarrow> 'h) \<Rightarrow> nat \<Rightarrow> side option \<Rightarrow> nat \<Rightarrow> nat \<Rightarrow> 'h option" where
  "path_node c f n side p l =
     (let q = p div 2 ^ l in
      if odd q then (if side = Some Right then None else Some (node c f l (q - 1)))
      else if side = Some Left then None
      else if q < half_ups n l then Some (node c f l (q + 1)) else None)"

lemma xor_one_even: "even (n::nat) \<Longrightarrow> n XOR Suc 0 = n + 1"
  by (simp add: xor_Suc_0_eq)

lemma xor_one_odd: "odd (n::nat) \<Longrightarrow> n XOR Suc 0 = n - 1"
  by (simp add: xor_Suc_0_eq)

lemma path_item_nodes:
  assumes "2 * a \<le> q" "q \<le> 2 * b"
  shows "path_item side (q - 2 * a) (map g [2 * a..<2 * b]) =
    (if odd q then (if side = Some Right then None else Some (g (q - 1)))
     else if side = Some Left then None
     else if q < 2 * b then Some (g (q + 1)) else None)"
proof (cases "odd q")
  case True
  with assms have odd: "odd (q - 2 * a)" and ge: "2 * a < q" by presburger+
  have "q - 2 * a - 1 < 2 * b - 2 * a" using assms ge by linarith
  then have "get (map g [2 * a..<2 * b]) ((q - 2 * a) XOR Suc 0) = Some (g (q - 1))"
    using ge by (simp add: xor_one_odd [OF odd])
  with True odd show ?thesis by (auto simp: path_item_def split: option.split side.split)
next
  case False
  with assms have even: "even (q - 2 * a)" by presburger
  have "get (map g [2 * a..<2 * b]) ((q - 2 * a) XOR Suc 0) =
      (if q < 2 * b then Some (g (q + 1)) else None)"
  proof (cases "q < 2 * b")
    case True
    with False have "q + 1 < 2 * b" by presburger
    with True assms show ?thesis by (simp add: xor_one_even [OF even])
  next
    case False
    then have "length (map g [2 * a..<2 * b]) \<le> q - 2 * a + 1" by simp
    with False show ?thesis unfolding xor_one_even [OF even] by (simp only: get_None if_False)
  qed
  with False even show ?thesis by (auto simp: path_item_def split: option.split side.split)
qed

lemma front_nodes:
  assumes "a \<le> b" "a \<le> q"
  shows "odd a \<Longrightarrow> g (a - 1) # map g [a..<b] = map g [2 * (a div 2)..<b]"
    and "odd a \<Longrightarrow> q - a + 1 = q - 2 * (a div 2)"
    and "even a \<Longrightarrow> [a..<b] = [2 * (a div 2)..<b]"
    and "even a \<Longrightarrow> q - a = q - 2 * (a div 2)"
  using assms by (auto elim!: oddE simp: upt_conv_Cons)

lemma back_nodes:
  assumes "2 * a \<le> b"
  shows "odd (length [2 * a..<b]) \<longleftrightarrow> odd b"
    and "odd b \<Longrightarrow> map g [2 * a..<b] @ [g b] = map g [2 * a..<2 * ((b + 1) div 2)]"
    and "even b \<Longrightarrow> [2 * a..<b] = [2 * a..<2 * ((b + 1) div 2)]"
  using assms by (auto simp: half_up_even half_up_odd elim!: oddE)

abbreviation level_nodes :: "('h \<Rightarrow> 'h \<Rightarrow> 'h) \<Rightarrow> (nat \<Rightarrow> 'h) \<Rightarrow> nat \<Rightarrow> nat \<Rightarrow> nat \<Rightarrow> 'h list" where
  "level_nodes c f s n l \<equiv> map (node c f l) [s div 2 ^ l..<half_ups n l]"

lemma representsD:
  assumes "represents kc d t ls"
  shows "compress (mm_hasher t) = kc" "d \<le> MAX_TREE_DEPTH" "mm_binary_tree_size t = 2 ^ d"
    "length ls \<le> 2 ^ d" "mm_start_index t \<le> length ls" "mm_hashes t = drop (mm_start_index t) ls"
    "tree_depth_by_size (mm_binary_tree_size t) = d"
  using assms by (simp_all add: represents_def tree_depth_by_size_def)

lemma represents_cache:
  assumes "represents kc d t ls" "l < d + (if mm_start_index t = 2 ^ d then 1 else 0)"
  shows "get (mm_cache t) l =
    Some (cache_entry kc (leaf_at (effective_empty_leaf t) ls) (mm_start_index t) l)"
  using assms by (simp add: represents_def get_def)

lemma path_level_nodes:
  fixes kc t ls
  defines "f \<equiv> leaf_at (effective_empty_leaf t) ls" and "n \<equiv> length ls" and "s \<equiv> mm_start_index t"
  assumes rep: "represents kc d t ls" and l: "l < d" and p: "s \<le> p" "p \<le> n"
  shows "path_level kc t side l
           (level_nodes kc f s n l, p div 2 ^ l - s div 2 ^ l, s div 2 ^ l, path) =
         Some (level_nodes kc f s n (Suc l), p div 2 ^ Suc l - s div 2 ^ Suc l, s div 2 ^ Suc l,
               map_option (\<lambda>q. q @ [path_node kc f n side p l]) path)"
proof -
  define a b q where "a = s div 2 ^ l" and "b = half_ups n l" and "q = p div 2 ^ l"
  have ab: "a \<le> q" "q \<le> b" "a \<le> b"
    using p div_le_half_ups [of p n l] div_le_mono [OF p(1), of "2 ^ l"]
    by (auto simp: a_def b_def q_def)
  have front: "(if odd a then do { left \<leftarrow> get (mm_cache t) l; left \<leftarrow> left;
                   Some (left # map (node kc f l) [a..<b], q - a + 1) }
                else Some (map (node kc f l) [a..<b], q - a)) =
     Some (map (node kc f l) [2 * (a div 2)..<b], q - 2 * (a div 2))"
    using represents_cache [OF rep, of l] l front_nodes(1) [OF ab(3) ab(1), where g = "node kc f l"]
      front_nodes(2-4) [OF ab(3) ab(1)]
    by (simp add: cache_entry_def f_def [symmetric] s_def [symmetric] a_def [symmetric])
  have "half_ups n l * 2 ^ l \<ge> length ls" using half_ups_ge by (simp add: n_def)
  then have empty: "get (compute_empty_tree_hashes kc (effective_empty_leaf t)) l = Some (node kc f l b)"
    unfolding f_def b_def by (rule node_empty) (use l representsD(2) [OF rep] in simp)
  have le: "2 * (a div 2) \<le> b" using ab(3) by linarith
  have padded: "(if odd (length (map (node kc f l) [2 * (a div 2)..<b]))
               then do { e \<leftarrow> get (compute_empty_tree_hashes kc (effective_empty_leaf t)) l;
                         Some (map (node kc f l) [2 * (a div 2)..<b] @ [e]) }
               else Some (map (node kc f l) [2 * (a div 2)..<b])) =
     Some (map (node kc f l) [2 * (a div 2)..<2 * ((b + 1) div 2)])"
    using back_nodes(2) [OF le, where g = "node kc f l"] back_nodes(1,3) [OF le] empty by (simp del: length_upt)
  have item: "path_item side (q - 2 * (a div 2)) (map (node kc f l) [2 * (a div 2)..<2 * ((b + 1) div 2)])
     = path_node kc f n side p l"
    using path_item_nodes [of "a div 2" q "(b + 1) div 2" side "node kc f l"] ab
    by (auto simp: path_node_def Let_def q_def [symmetric] b_def [symmetric])
  have idx: "(q - 2 * (a div 2)) div 2 = q div 2 - a div 2"
    using ab(1) by presburger
  show ?thesis
    unfolding path_level_def prod.case div_power_Suc half_ups.simps(2)
      a_def [symmetric] b_def [symmetric] q_def [symmetric] front
    by (simp only: Option.bind.bind_lunit prod.case padded Let_def item idx representsD(1) [OF rep]
        compress_level_nodes)
qed

subsection \<open>The whole computation\<close>

lemma path_levels_nodes:
  fixes kc t ls
  defines "f \<equiv> leaf_at (effective_empty_leaf t) ls" and "n \<equiv> length ls" and "s \<equiv> mm_start_index t"
  assumes rep: "represents kc d t ls" and p: "s \<le> p" "p \<le> n" and "l \<le> m" "m \<le> d"
  shows "path_levels kc t side [l..<m]
           (level_nodes kc f s n l, p div 2 ^ l - s div 2 ^ l, s div 2 ^ l, path) =
         Some (level_nodes kc f s n m, p div 2 ^ m - s div 2 ^ m, s div 2 ^ m,
               map_option (\<lambda>q. q @ map (path_node kc f n side p) [l..<m]) path)"
  using \<open>l \<le> m\<close>
proof (induction l arbitrary: path rule: inc_induct)
  case base
  show ?case by (simp add: option.map_ident)
next
  case (step l)
  have "l < d" using step.hyps \<open>m \<le> d\<close> by simp
  note level = path_level_nodes [OF rep \<open>l < d\<close> p [unfolded s_def n_def], folded f_def n_def s_def]
  show ?case
    using step.hyps by (simp add: upt_conv_Cons level step.IH option.map_comp comp_def
        del: power_Suc half_ups.simps node.simps)
qed

lemma compute_levels:
  fixes kc t ls
  defines "f \<equiv> leaf_at (effective_empty_leaf t) ls" and "n \<equiv> length ls" and "s \<equiv> mm_start_index t"
  assumes rep: "represents kc d t ls" and p: "s \<le> p" "p \<le> n"
  shows "compute_merkle_root_and_path kc t (p - s) path side =
    map_option (\<lambda>root. (root, map_option (\<lambda>q. q @ map (path_node kc f n side p) [0..<d]) path))
      (get (level_nodes kc f s n d) 0)"
proof -
  have start: "level_nodes kc f s n 0 = mm_hashes t"
    using representsD(5,6) [OF rep]
    by (auto simp: f_def n_def s_def leaf_at_def drop_map [symmetric] map_nth intro!: nth_equalityI)
  have "path_levels kc t side [0..<d] (mm_hashes t, p - s, s, path) =
         Some (level_nodes kc f s n d, p div 2 ^ d - s div 2 ^ d, s div 2 ^ d,
               map_option (\<lambda>q. q @ map (path_node kc f n side p) [0..<d]) path)"
    using path_levels_nodes [OF rep p [unfolded s_def n_def], of 0 d, folded f_def n_def s_def] start
    by simp
  then show ?thesis
    by (simp add: compute_merkle_root_and_path_def representsD(7) [OF rep] s_def [symmetric]
        Let_def map_option_bind option.map_comp comp_def map_conv_bind_option)
qed

lemma compute_root_and_path:
  fixes kc t ls
  defines "f \<equiv> leaf_at (effective_empty_leaf t) ls"
  assumes rep: "represents kc d t ls" and p: "mm_start_index t \<le> p" "p \<le> length ls"
    and ne: "ls \<noteq> []" "mm_start_index t < 2 ^ d"
  shows "compute_merkle_root_and_path kc t (p - mm_start_index t) path side =
    Some (reference_root kc (effective_empty_leaf t) d ls,
          map_option (\<lambda>q. q @ map (path_node kc f (length ls) side p) [0..<d]) path)"
  using compute_levels [OF rep p, of path side] ne half_ups_root [of "length ls" d] representsD(4) [OF rep]
  by (simp add: f_def reference_root_def)

text \<open>On an empty tree, and on a full tree that is completely trimmed, the computation
  runs off the end of the empty deque.\<close>

lemma compute_panics:
  assumes rep: "represents kc d t ls" and p: "mm_start_index t \<le> p" "p \<le> length ls"
    and "ls = [] \<or> mm_start_index t = 2 ^ d"
  shows "compute_merkle_root_and_path kc t (p - mm_start_index t) path side = None"
proof -
  have "half_ups (length ls) d \<le> mm_start_index t div 2 ^ d"
    using assms(4) half_ups_le [of "length ls" 0 d] half_ups_le [of "length ls" 1 d] representsD(4) [OF rep]
    by auto
  then show ?thesis using compute_levels [OF rep p, of path side] by simp
qed

lemma merkle_root_represents:
  assumes rep: "represents kc d t ls" and "ls \<noteq> [] \<or> mm_empty_leaf_hash t = None"
  shows "merkle_root kc t = Some (reference_root kc (effective_empty_leaf t) d ls)"
proof (cases "ls = []")
  case True
  with assms(2) have e: "effective_empty_leaf t = hs_empty_leaf_hash (mm_hasher t)"
    by (simp add: effective_empty_leaf_def)
  have "get (compute_empty_tree_hashes kc (effective_empty_leaf t)) d =
      Some (node kc (leaf_at (effective_empty_leaf t) ls) d 0)"
    by (rule node_empty) (use True representsD(2) [OF rep] in simp_all)
  with True representsD(5-7) [OF rep] e show ?thesis
    by (simp add: merkle_root_def empty_subtree_hash_def reference_root_def)
next
  case False
  show ?thesis
  proof (cases "mm_start_index t = 2 ^ d")
    case True
    then have "get (mm_cache t) d =
        Some (cache_entry kc (leaf_at (effective_empty_leaf t) ls) (mm_start_index t) d)"
      using represents_cache [OF rep, of d] by simp
    with True representsD [OF rep] False show ?thesis
      by (simp add: merkle_root_def cache_entry_def reference_root_def)
  next
    case neq: False
    with representsD(4,5) [OF rep] have "mm_start_index t < 2 ^ d" by linarith
    with compute_root_and_path [OF rep order.refl _ False this, of None None] representsD [OF rep] False neq
    show ?thesis by (auto simp: merkle_root_def)
  qed
qed

subsection \<open>Operations preserve the representation\<close>

lemma cache_entry_append:
  assumes "s \<le> length ls"
  shows "cache_entry c (leaf_at e (ls @ xs)) s l = cache_entry c (leaf_at e ls) s l"
proof -
  have "node c (leaf_at e (ls @ xs)) l (s div 2 ^ l - 1) = node c (leaf_at e ls) l (s div 2 ^ l - 1)"
    if "odd (s div 2 ^ l)"
  proof (rule node_cong)
    fix j
    assume "j < (s div 2 ^ l - 1 + 1) * 2 ^ l"
    with that have "j < s div 2 ^ l * 2 ^ l" by (cases "s div 2 ^ l") simp_all
    also have "\<dots> \<le> length ls" using assms by (meson div_times_less_eq_dividend le_trans)
    finally show "leaf_at e (ls @ xs) j = leaf_at e ls j" by (simp add: leaf_at_def nth_append)
  qed
  then show ?thesis by (simp add: cache_entry_def)
qed

lemma effective_empty_leaf_update [simp]:
  "effective_empty_leaf (t \<lparr> mm_hashes := hs \<rparr>) = effective_empty_leaf t"
  "effective_empty_leaf (t \<lparr> mm_binary_tree_size := m \<rparr>) = effective_empty_leaf t"
  "effective_empty_leaf (t \<lparr> mm_start_index := i \<rparr>) = effective_empty_leaf t"
  "effective_empty_leaf (t \<lparr> mm_cache := xs \<rparr>) = effective_empty_leaf t"
  by (auto simp: effective_empty_leaf_def split: option.split)

lemma cache_entry_low: "s < 2 ^ l \<Longrightarrow> cache_entry c f s l = None"
  by (simp add: cache_entry_def)

lemma cache_entry_0: "cache_entry c f 0 = (\<lambda>_. None)"
  by (simp add: cache_entry_def fun_eq_iff)

definition grown_depth :: "nat \<Rightarrow> 'h list \<Rightarrow> nat" where
  "grown_depth d ls = (if length ls = 2 ^ d then Suc d else d)"

lemma push_hash_represents:
  assumes rep: "represents kc d t ls" and "grown_depth d ls \<le> MAX_TREE_DEPTH"
  shows "represents kc (grown_depth d ls) (push_hash h t) (ls @ [h])"
proof (cases "length ls = 2 ^ d")
  case False
  with rep have "mm_start_index t \<noteq> 2 ^ d" "length ls < 2 ^ d"
    by (auto simp: represents_def)
  with False rep show ?thesis
    by (auto simp: represents_def push_hash_def grown_depth_def
        cache_entry_append Let_def)
next
  case True
  have "(2::nat) ^ d * 2 = 2 ^ Suc d" by simp
  note depth = trailing_zeros_power [of "Suc d", folded this]
  show ?thesis
  proof (cases "mm_start_index t = 2 ^ d")
    case start: True
    with True rep assms(2) show ?thesis
      by (auto simp: represents_def push_hash_def grown_depth_def
          cache_entry_append tree_depth_by_size_def depth Let_def)
  next
    case start: False
    with rep have "mm_start_index t < 2 ^ d" by (auto simp: represents_def)
    with start True rep assms(2) show ?thesis
      by (auto simp: represents_def push_hash_def grown_depth_def
          cache_entry_append cache_entry_low tree_depth_by_size_def depth Let_def)
  qed
qed

lemma trim_start_represents:
  assumes rep: "represents kc d t ls" and count: "count \<le> length (mm_hashes t)"
    and ne: "ls \<noteq> []" "mm_start_index t < 2 ^ d"
  obtains t' where "trim_start kc count t = Some t'" "represents kc d t' ls"
    "mm_start_index t' = mm_start_index t + count" "mm_hasher t' = mm_hasher t"
    "mm_empty_leaf_hash t' = mm_empty_leaf_hash t"
proof -
  let ?s = "mm_start_index t" and ?e = "effective_empty_leaf t"
  let ?p = "?s + count"
  have p: "?s \<le> ?p" "?p \<le> length ls" using count representsD(5,6) [OF rep] by simp_all
  have entry: "path_node kc f n (Some Left) q = cache_entry kc f q" for f n q
    by (simp add: path_node_def cache_entry_def Let_def fun_eq_iff)
  let ?cache = "map (cache_entry kc (leaf_at ?e ls) ?p) [0..<d]"
  let ?t = "t \<lparr> mm_hashes := drop count (mm_hashes t), mm_start_index := ?p,
      mm_cache := (if ?p = 2 ^ d then ?cache @ [Some (reference_root kc ?e d ls)] else ?cache) \<rparr>"
  have "trim_start kc count t = Some ?t"
    using compute_root_and_path [OF rep p ne, of "Some []" "Some Left"] count representsD(3) [OF rep]
    by (simp add: trim_start_def entry)
  moreover have "represents kc d ?t ls"
    using rep p by (auto simp: represents_def cache_entry_def reference_root_def add.commute)
  ultimately show ?thesis by (intro that [of ?t]) simp_all
qed

lemma trim_start_panics:
  assumes rep: "represents kc d t ls" and "count \<le> length (mm_hashes t)"
    and "ls = [] \<or> mm_start_index t = 2 ^ d"
  shows "trim_start kc count t = None"
  using compute_panics [OF rep _ _ assms(3), of "mm_start_index t + count" "Some []" "Some Left"]
    assms(2) representsD(5,6) [OF rep]
  by (simp add: trim_start_def)

lemma from_hashes_represents:
  assumes "from_hashes H hs m = Some t"
  obtains d where "represents (compress H) d t hs" "mm_hasher t = H" "mm_empty_leaf_hash t = None"
    "mm_start_index t = 0"
proof -
  obtain e where e: "next_power_of_two (length hs) = 2 ^ e" using next_power_of_two_power by blast
  from assms obtain d where size: "mm_binary_tree_size t = 2 ^ d" "2 ^ e \<le> mm_binary_tree_size t"
    "d \<le> MAX_TREE_DEPTH"
    and t: "t = \<lparr> mm_hasher = H, mm_hashes = hs, mm_binary_tree_size = 2 ^ d,
            mm_start_index = 0, mm_cache = replicate d None, mm_empty_leaf_hash = None \<rparr>"
    by (auto simp: from_hashes_def e is_power_of_two_iff max_def tree_depth_by_size_def Let_def
        split: option.splits bind_splits if_splits)
  moreover have "length hs \<le> 2 ^ d"
    using next_power_of_two_ge [of "length hs"] size(2) unfolding size(1) e by (rule le_trans)
  ultimately have "represents (compress H) d t hs"
    by (auto simp: represents_def cache_entry_0 map_replicate_const)
  then show ?thesis by (rule that) (simp_all add: t)
qed

lemma cache_consistent_entries:
  "cache_consistent i (map (\<lambda>l. if odd (i div 2 ^ l) then Some (g l) else None) [0..<m])"
proof (induction m arbitrary: i g)
  case (Suc m)
  have "map (\<lambda>l. if odd (i div 2 ^ l) then Some (g l) else None) [0..<Suc m] =
        (if odd i then Some (g 0) else None) #
        map (\<lambda>l. if odd (i div 2 div 2 ^ l) then Some (g (Suc l)) else None) [0..<m]"
    by (simp add: upt_conv_Cons map_Suc_upt [symmetric] comp_def div_mult2_eq del: upt_Suc)
  then show ?case using Suc.IH [of "i div 2" "\<lambda>l. g (Suc l)"] by simp
qed simp

text \<open>A tree restored from the start index and the cache of another tree stands for
  the trimmed prefix of its leaves.\<close>

lemma init_cached_represents:
  assumes rep: "represents kc d t ls" and "mm_empty_leaf_hash t = None"
  obtains d' t' where "init_cached (mm_hasher t) (mm_start_index t) (mm_cache t) = Some t'"
    "represents kc d' t' (take (mm_start_index t) ls)" "mm_start_index t' = mm_start_index t"
    "mm_hasher t' = mm_hasher t" "mm_empty_leaf_hash t' = None"
proof -
  let ?s = "mm_start_index t"
  obtain d' where d': "next_power_of_two ?s = 2 ^ d'" using next_power_of_two_power by blast
  have "2 ^ d' \<le> (2::nat) ^ d"
    using next_power_of_two_least [of ?s d] representsD(4,5) [OF rep] d' by simp
  then have le: "d' \<le> d" by simp
  have s: "?s \<le> 2 ^ d'" using next_power_of_two_ge [of ?s] d' by simp
  let ?m = "if ?s < 2 ^ d' then d' else d' + 1"
  let ?e = "effective_empty_leaf t"
  let ?cache = "map (cache_entry kc (leaf_at ?e ls) ?s) [0..<?m]"
  have len: "?m \<le> length (mm_cache t)" and take: "take ?m (mm_cache t) = ?cache"
    using rep s le by (auto simp: represents_def take_map)
  have cons: "cache_consistent ?s ?cache"
    using cache_consistent_entries [of ?s "\<lambda>l. node kc (leaf_at ?e ls) l (?s div 2 ^ l - 1)" ?m]
    by (simp add: cache_entry_def [abs_def])
  let ?t = "\<lparr> mm_hasher = mm_hasher t, mm_hashes = [], mm_binary_tree_size = 2 ^ d',
      mm_start_index = ?s, mm_cache = ?cache, mm_empty_leaf_hash = None \<rparr>"
  have init: "init_cached (mm_hasher t) ?s (mm_cache t) = Some ?t"
    using le representsD(2) [OF rep] len
    by (simp only: init_cached_def d' tree_depth_by_size_def trailing_zeros_power Let_def take cons
        assert_that_simps) (simp add: assert_that_def)
  have "?e = effective_empty_leaf ?t" using assms(2) by (simp add: effective_empty_leaf_def)
  moreover have "cache_entry kc (leaf_at ?e ls) ?s = cache_entry kc (leaf_at ?e (take ?s ls)) ?s"
    using cache_entry_append [of ?s "take ?s ls" kc ?e "drop ?s ls"] representsD(5) [OF rep]
    by (simp add: fun_eq_iff)
  ultimately have "represents kc d' ?t (take ?s ls)"
    using rep s le by (auto simp: represents_def)
  with init show ?thesis by (rule that) simp_all
qed

subsection \<open>Paths\<close>

lemma root_from_path_nodes:
  assumes "l \<le> d"
  shows "root_from_path c (p div 2 ^ l) (node c f l (p div 2 ^ l))
    (map (\<lambda>l. node c f l (if odd (p div 2 ^ l) then p div 2 ^ l - 1 else p div 2 ^ l + 1)) [l..<d])
   = node c f d (p div 2 ^ d)"
  using assms
proof (induction l rule: inc_induct)
  case (step l)
  let ?q = "p div 2 ^ l"
  have "node c f (Suc l) (?q div 2) = (if even ?q then c (node c f l ?q) (node c f l (?q + 1))
      else c (node c f l (?q - 1)) (node c f l ?q))"
    by (auto elim!: evenE oddE)
  then show ?case
    using step by (cases "even ?q") (simp_all add: upt_conv_Cons div_power_Suc del: power_Suc node.simps)
qed simp

lemma merkle_root_and_path_represents:
  assumes rep: "represents kc d t ls" and p: "mm_start_index t \<le> p" "p < length ls"
  obtains path where
    "merkle_root_and_path_by_absolute_index kc t p =
       Some (reference_root kc (effective_empty_leaf t) d ls, path)"
    "length path = d" "root_from_path kc p (ls ! p) path = reference_root kc (effective_empty_leaf t) d ls"
proof -
  let ?f = "leaf_at (effective_empty_leaf t) ls"
  define path where "path = map (\<lambda>l. node kc ?f l (if odd (p div 2 ^ l) then p div 2 ^ l - 1 else p div 2 ^ l + 1)) [0..<d]"
  have ne: "ls \<noteq> []" "mm_start_index t < 2 ^ d" using p representsD(4) [OF rep] by auto
  have "path_node kc ?f (length ls) None p l =
      Some (node kc ?f l (if odd (p div 2 ^ l) then p div 2 ^ l - 1 else p div 2 ^ l + 1))" for l
    using div_less_half_ups [OF p(2), of l] by (simp add: path_node_def Let_def)
  then have "compute_merkle_root_and_path kc t (p - mm_start_index t) (Some []) None =
      Some (reference_root kc (effective_empty_leaf t) d ls, Some (map Some path))"
    using compute_root_and_path [OF rep p(1) less_imp_le [OF p(2)] ne, of "Some []" None]
    by (simp add: path_def comp_def)
  moreover have "p - mm_start_index t < length (mm_hashes t)"
    using p representsD(6) [OF rep] by simp
  ultimately have "merkle_root_and_path_by_absolute_index kc t p =
       Some (reference_root kc (effective_empty_leaf t) d ls, path)"
    using p(1) unwrap_all_map_Some [of id path]
    by (simp add: merkle_root_and_path_by_absolute_index_def merkle_root_and_path_def id_def)
  moreover have "root_from_path kc p (ls ! p) path = reference_root kc (effective_empty_leaf t) d ls"
    using root_from_path_nodes [of 0 d kc p ?f] p(2) representsD(4) [OF rep]
    by (simp add: path_def reference_root_def leaf_at_def)
  ultimately show ?thesis by (intro that) (simp_all add: path_def)
qed

lemma root_from_range_level:
  assumes "a \<le> q" and "l = (if odd a then Some (g (a - 1)) else None)"
    and "r = (if odd q then None else Some (g (q + 1)))"
    and "g = node c f k"
  shows "root_from_range c a (map g [a..<q + 1]) (l # ls) (r # rs) =
    root_from_range c (a div 2) (map (node c f (Suc k)) [a div 2..<q div 2 + 1]) ls rs"
proof -
  have ab: "a \<le> q + 1" "2 * (a div 2) \<le> q + 1" using assms(1) by linarith+
  have half: "(q + 1 + 1) div 2 = q div 2 + 1" by simp
  have left: "(if even a then do { assert_that (l = None); Some (map g [a..<q + 1]) }
      else map_option (\<lambda>x. x # map g [a..<q + 1]) l) = Some (map g [2 * (a div 2)..<q + 1])"
    using front_nodes(1) [OF ab(1) assms(1), of g] assms(2) by (cases "odd a") simp_all
  have right: "(if even (length (map g [2 * (a div 2)..<q + 1]))
      then do { assert_that (r = None); Some (map g [2 * (a div 2)..<q + 1]) }
      else map_option (\<lambda>x. map g [2 * (a div 2)..<q + 1] @ [x]) r) =
      Some (map g [2 * (a div 2)..<2 * (q div 2 + 1)])"
  proof (cases "odd q")
    case True
    then have "even (length [2 * (a div 2)..<q + 1])" "2 * (q div 2 + 1) = q + 1"
      using back_nodes(1) [OF ab(2)] by simp_all
    with True assms(3) show ?thesis by (simp del: length_upt upt_Suc)
  next
    case False
    then have "odd (length [2 * (a div 2)..<q + 1])" using back_nodes(1) [OF ab(2)] by simp
    with False assms(3) back_nodes(2) [OF ab(2), of g] half show ?thesis by (simp del: length_upt upt_Suc)
  qed
  show ?thesis
    unfolding root_from_range.simps left Option.bind.bind_lunit right
    unfolding assms(4) compress_level_nodes ..
qed

lemma root_from_range_nodes:
  assumes "l \<le> d" "a \<le> p"
    and right: "\<And>l. l < d \<Longrightarrow> path_node c f n (Some Right) p l =
      (if odd (p div 2 ^ l) then None else Some (node c f l (p div 2 ^ l + 1)))"
  shows "root_from_range c (a div 2 ^ l) (map (node c f l) [a div 2 ^ l..<p div 2 ^ l + 1])
      (map (path_node c f n (Some Left) a) [l..<d]) (map (path_node c f n (Some Right) p) [l..<d]) =
    get (map (node c f d) [a div 2 ^ d..<p div 2 ^ d + 1]) 0"
  using assms(1)
proof (induction l rule: inc_induct)
  case (step l)
  have left: "path_node c f n (Some Left) a l =
      (if odd (a div 2 ^ l) then Some (node c f l (a div 2 ^ l - 1)) else None)"
    by (simp add: path_node_def Let_def)
  have le: "a div 2 ^ l \<le> p div 2 ^ l" using assms(2) by (rule div_le_mono)
  show ?case
    unfolding upt_conv_Cons [OF step.hyps(2)] list.map
      root_from_range_level [OF le left right [OF step.hyps(2)] refl]
    using step.IH by (simp only: div_power_Suc)
qed simp

lemma paths_for_range_represents:
  assumes rep: "represents kc d t ls" and r: "mm_start_index t \<le> a" "a < b" "b \<le> length ls"
  obtains lp rp where
    "merkle_root_and_paths_for_range kc t (a - mm_start_index t) (b - mm_start_index t) =
       Some (reference_root kc (effective_empty_leaf t) d ls, lp, rp)"
    "root_from_range kc a (take (b - a) (drop a ls)) lp rp =
       Some (reference_root kc (effective_empty_leaf t) d ls)"
proof -
  let ?f = "leaf_at (effective_empty_leaf t) ls" and ?n = "length ls"
  let ?lp = "map (path_node kc ?f ?n (Some Left) a) [0..<d]"
    and ?rp = "map (path_node kc ?f ?n (Some Right) (b - 1)) [0..<d]"
  have ne: "ls \<noteq> []" "mm_start_index t < 2 ^ d" using r representsD(4) [OF rep] by auto
  have range: "b - 1 < ?n" "mm_start_index t \<le> b - 1" "a \<le> ?n" "a \<le> b - 1" using r by auto
  have "merkle_root_and_paths_for_range kc t (a - mm_start_index t) (b - mm_start_index t) =
       Some (reference_root kc (effective_empty_leaf t) d ls, ?lp, ?rp)"
    using compute_root_and_path [OF rep r(1) range(3) ne, of "Some []" "Some Left"]
      compute_root_and_path [OF rep range(2) less_imp_le [OF range(1)] ne, of "Some []" "Some Right"]
      r representsD(6) [OF rep]
    by (simp add: merkle_root_and_paths_for_range_def assert_that_def diff_le_mono)
  moreover have "path_node kc ?f ?n (Some Right) (b - 1) l =
      (if odd ((b - 1) div 2 ^ l) then None else Some (node kc ?f l ((b - 1) div 2 ^ l + 1)))" for l
    using div_less_half_ups [OF range(1), of l] by (simp add: path_node_def Let_def)
  from root_from_range_nodes [OF _ range(4) this, of 0 d]
  have "root_from_range kc a (map ?f [a..<b]) ?lp ?rp = get (map (node kc ?f d) [0..<1]) 0"
    using r ne representsD(4) [OF rep] by (simp add: node_0)
  moreover have "map ?f [a..<b] = take (b - a) (drop a ls)"
    using r by (auto simp: leaf_at_def intro!: nth_equalityI)
  ultimately show ?thesis by (intro that) (simp_all add: reference_root_def)
qed

subsection \<open>Sequences of operations\<close>

text \<open>The interface through which the priority tree drives the structure: leaves are
  appended and a prefix is trimmed, in any order.\<close>

datatype 'h tree_op = PushHash 'h | TrimStart usize

fun run_ops :: "('h \<Rightarrow> 'h \<Rightarrow> 'h) \<Rightarrow> 'h tree_op list \<Rightarrow> 'h mini_merkle_tree \<Rightarrow> 'h mini_merkle_tree option" where
  "run_ops kc [] t = Some t"
| "run_ops kc (PushHash h # ops) t = run_ops kc ops (push_hash h t)"
| "run_ops kc (TrimStart count # ops) t = Option.bind (trim_start kc count t) (run_ops kc ops)"

fun pushed :: "'h tree_op list \<Rightarrow> 'h list" where
  "pushed [] = []"
| "pushed (PushHash h # ops) = h # pushed ops"
| "pushed (TrimStart count # ops) = pushed ops"

lemma grown_depth_bound:
  assumes "length ls < 2 ^ MAX_TREE_DEPTH" and "d \<le> MAX_TREE_DEPTH"
  shows "grown_depth d ls \<le> MAX_TREE_DEPTH"
  using assms by (auto simp: grown_depth_def le_less)

lemma push_hash_simps [simp]:
  "mm_hasher (push_hash h t) = mm_hasher t"
  "mm_empty_leaf_hash (push_hash h t) = mm_empty_leaf_hash t"
  "mm_start_index (push_hash h t) = mm_start_index t"
  "mm_hashes (push_hash h t) = mm_hashes t @ [h]"
  "effective_empty_leaf (push_hash h t) = effective_empty_leaf t"
  by (simp_all add: push_hash_def Let_def)

lemma trim_start_SomeD:
  assumes "represents kc d t ls" "trim_start kc count t = Some t'"
  shows "represents kc d t' ls" "mm_hasher t' = mm_hasher t" "mm_empty_leaf_hash t' = mm_empty_leaf_hash t"
    "mm_start_index t' = mm_start_index t + count"
proof -
  have count: "count \<le> length (mm_hashes t)"
    using assms(2) by (auto simp: trim_start_def split: bind_splits)
  have "\<not> (ls = [] \<or> mm_start_index t = 2 ^ d)"
    using trim_start_panics [OF assms(1) count] assms(2) by auto
  then have "ls \<noteq> []" "mm_start_index t < 2 ^ d" using representsD(4,5) [OF assms(1)] by auto
  from trim_start_represents [OF assms(1) count this] assms(2)
  show "represents kc d t' ls" "mm_hasher t' = mm_hasher t" "mm_empty_leaf_hash t' = mm_empty_leaf_hash t"
    "mm_start_index t' = mm_start_index t + count"
    by auto
qed

lemma run_ops_represents:
  assumes "run_ops kc ops t = Some t'" "represents kc d t ls"
    and "length (ls @ pushed ops) \<le> 2 ^ MAX_TREE_DEPTH"
  shows "\<exists>d'. represents kc d' t' (ls @ pushed ops) \<and> mm_hasher t' = mm_hasher t \<and>
    mm_empty_leaf_hash t' = mm_empty_leaf_hash t"
  using assms
proof (induction kc ops t arbitrary: d ls rule: run_ops.induct)
  case (2 kc h ops t)
  have "represents kc (grown_depth d ls) (push_hash h t) (ls @ [h])"
    by (rule push_hash_represents [OF "2.prems"(2)], rule grown_depth_bound)
      (use "2.prems"(3) representsD(2) [OF "2.prems"(2)] in simp_all)
  from "2.IH" [OF _ this] "2.prems" show ?case by simp
next
  case (3 kc count ops t)
  then obtain t1 where t1: "trim_start kc count t = Some t1" "run_ops kc ops t1 = Some t'"
    by (auto split: bind_splits)
  note D = trim_start_SomeD [OF "3.prems"(2) t1(1)]
  from "3.IH" [OF t1(1) t1(2) D(1)] "3.prems"(3) D(2,3) show ?case by simp
qed auto

lemma represents_root_size:
  assumes "represents kc d t ls" "mm_empty_leaf_hash t = None"
  shows "merkle_root kc t = Some (reference_root kc (hs_empty_leaf_hash (mm_hasher t))
    (tree_depth_by_size (mm_binary_tree_size t)) ls)"
  using merkle_root_represents [OF assms(1)] assms(2) representsD(7) [OF assms(1)]
  by (simp add: effective_empty_leaf_def)

lemma fold_push_hash_represents:
  assumes "represents kc d t ls" "length (ls @ hs) \<le> 2 ^ MAX_TREE_DEPTH"
  shows "\<exists>d'. represents kc d' (fold push_hash hs t) (ls @ hs) \<and>
    mm_hasher (fold push_hash hs t) = mm_hasher t \<and>
    mm_empty_leaf_hash (fold push_hash hs t) = mm_empty_leaf_hash t"
proof -
  have "run_ops kc (map PushHash hs) t = Some (fold push_hash hs t)" "pushed (map PushHash hs) = hs"
    by (induction hs arbitrary: t) simp_all
  with run_ops_represents [of kc "map PushHash hs" t] assms show ?thesis by fastforce
qed

subsection \<open>The interface of the tree\<close>

text \<open>What a client that appends leaves and trims consumed prefixes relies on.  \<open>rep t ls\<close> says
  that \<open>t\<close> stands for the leaves \<open>ls\<close>, \<open>start t\<close> is the number of trimmed leaves.\<close>

locale accumulator =
  fixes rep :: "'t \<Rightarrow> 'h list \<Rightarrow> bool" and start :: "'t \<Rightarrow> nat"
    and push :: "'h \<Rightarrow> 't \<Rightarrow> 't" and trim :: "nat \<Rightarrow> 't \<Rightarrow> 't option"
    and root :: "'t \<Rightarrow> 'h option" and ref_root :: "'h list \<Rightarrow> 'h" and capacity :: nat
  assumes push_rep: "rep t ls \<Longrightarrow> length ls < capacity \<Longrightarrow> rep (push h t) (ls @ [h])"
    and push_start: "start (push h t) = start t"
    and trim_rep: "rep t ls \<Longrightarrow> 0 < n \<Longrightarrow> start t + n \<le> length ls \<Longrightarrow>
      \<exists>t'. trim n t = Some t' \<and> rep t' ls \<and> start t' = start t + n"
    and root_rep: "rep t ls \<Longrightarrow> root t = Some (ref_root ls)"
    and start_le: "rep t ls \<Longrightarrow> start t \<le> length ls"
begin

lemma push_all_rep:
  assumes "rep t ls" "length (ls @ hs) \<le> capacity"
  shows "rep (fold push hs t) (ls @ hs)"
  using assms
proof (induction hs arbitrary: t ls)
  case (Cons h hs)
  from Cons.prems have "rep (push h t) (ls @ [h])" by (intro push_rep) simp_all
  from Cons.IH [OF this] Cons.prems show ?case by simp
qed simp

lemma push_all_start: "start (fold push hs t) = start t"
  by (induction hs arbitrary: t) (simp_all add: push_start)

lemma same_leaves_same_root: "rep t ls \<Longrightarrow> rep t' ls \<Longrightarrow> root t = root t'"
  by (simp add: root_rep)

lemma trim_keeps_root:
  assumes "rep t ls" "0 < n" "start t + n \<le> length ls"
  shows "\<exists>t'. trim n t = Some t' \<and> root t' = root t"
  using trim_rep [OF assms] assms(1) root_rep by metis

end

lemma next_power_of_two_unique:
  "next_power_of_two n = 2 ^ d \<longleftrightarrow> n \<le> 2 ^ d \<and> (\<forall>e. n \<le> 2 ^ e \<longrightarrow> d \<le> e)"
proof
  assume a: "next_power_of_two n = 2 ^ d"
  have "d \<le> e" if "n \<le> 2 ^ e" for e
    using next_power_of_two_least [OF that] a by simp
  with next_power_of_two_ge [of n] a show "n \<le> 2 ^ d \<and> (\<forall>e. n \<le> 2 ^ e \<longrightarrow> d \<le> e)" by simp
next
  assume a: "n \<le> 2 ^ d \<and> (\<forall>e. n \<le> 2 ^ e \<longrightarrow> d \<le> e)"
  obtain e where e: "next_power_of_two n = 2 ^ e" using next_power_of_two_power by blast
  have "d \<le> e" using a next_power_of_two_ge [of n] e by simp
  moreover have "e \<le> d" using next_power_of_two_least [of n d] a e by simp
  ultimately show "next_power_of_two n = 2 ^ d" using e by simp
qed

lemma next_power_of_two_grows:
  assumes "next_power_of_two (length ls) = 2 ^ d"
  shows "next_power_of_two (length (ls @ [h])) = 2 ^ grown_depth d ls"
proof -
  have d: "length ls \<le> 2 ^ d" "\<And>e. length ls \<le> 2 ^ e \<Longrightarrow> d \<le> e"
    using assms by (simp_all add: next_power_of_two_unique)
  have "Suc d \<le> e" if "length ls = 2 ^ d" "Suc (length ls) \<le> 2 ^ e" for e
  proof -
    have "(2::nat) ^ d < 2 ^ e" using that by (metis Suc_le_lessD)
    then show ?thesis by (simp add: Suc_le_eq)
  qed
  then show ?thesis unfolding next_power_of_two_unique using d by (auto simp: grown_depth_def)
qed

definition mm_rep :: "'h hasher \<Rightarrow> 'h mini_merkle_tree \<Rightarrow> 'h list \<Rightarrow> bool" where
  "mm_rep H t ls \<longleftrightarrow>
     (\<exists>d. represents (compress H) d t ls \<and> next_power_of_two (length ls) = 2 ^ d) \<and>
     mm_hasher t = H \<and> mm_empty_leaf_hash t = None"

definition log_root :: "'h hasher \<Rightarrow> 'h list \<Rightarrow> 'h" where
  "log_root H ls = reference_root (compress H) (hs_empty_leaf_hash H)
     (tree_depth_by_size (next_power_of_two (length ls))) ls"

lemma mm_rep_represents:
  assumes "mm_rep H t ls"
  obtains d where "represents (compress H) d t ls" "next_power_of_two (length ls) = 2 ^ d"
    "effective_empty_leaf t = hs_empty_leaf_hash H"
    "log_root H ls = reference_root (compress H) (effective_empty_leaf t) d ls"
  using assms by (auto simp: mm_rep_def effective_empty_leaf_def log_root_def tree_depth_by_size_def)

interpretation mm: accumulator "mm_rep H" mm_start_index push_hash "trim_start (compress H)"
    "merkle_root (compress H)" "log_root H" "2 ^ MAX_TREE_DEPTH" for H :: "'h hasher"
proof
  fix t :: "'h mini_merkle_tree" and ls :: "'h list" and h :: 'h and n :: nat
  assume rep: "mm_rep H t ls"
  then obtain d where d: "represents (compress H) d t ls" "next_power_of_two (length ls) = 2 ^ d"
    "effective_empty_leaf t = hs_empty_leaf_hash H"
    "log_root H ls = reference_root (compress H) (effective_empty_leaf t) d ls"
    by (rule mm_rep_represents)
  show "mm_rep H (push_hash h t) (ls @ [h])" if "length ls < 2 ^ MAX_TREE_DEPTH"
    using push_hash_represents [OF d(1) grown_depth_bound [OF that representsD(2) [OF d(1)]]]
      next_power_of_two_grows [OF d(2)] rep
    unfolding mm_rep_def by auto
  show "\<exists>t'. trim_start (compress H) n t = Some t' \<and> mm_rep H t' ls \<and> mm_start_index t' = mm_start_index t + n"
    if "0 < n" "mm_start_index t + n \<le> length ls"
  proof -
    have c: "n \<le> length (mm_hashes t)" "ls \<noteq> []" "mm_start_index t < 2 ^ d"
      using that representsD(4-6) [OF d(1)] by auto
    then show ?thesis
      using trim_start_represents [OF d(1) c] d(2) rep unfolding mm_rep_def by metis
  qed
  show "merkle_root (compress H) t = Some (log_root H ls)"
    using merkle_root_represents [OF d(1)] rep d(4) by (simp add: mm_rep_def)
  show "mm_start_index t \<le> length ls" by (rule representsD(5) [OF d(1)])
qed simp

lemma mm_rep_empty: "\<exists>t. from_hashes H [] None = Some t \<and> mm_rep H t [] \<and> mm_start_index t = 0"
proof -
  have "from_hashes H [] None \<noteq> None"
    by (simp add: from_hashes_def next_power_of_two.simps tree_depth_by_size_def MAX_TREE_DEPTH_def Let_def)
  then obtain t where t: "from_hashes H [] None = Some t" by blast
  from from_hashes_represents [OF t] obtain d where d: "represents (compress H) d t []"
    "mm_hasher t = H" "mm_empty_leaf_hash t = None" "mm_start_index t = 0" by metis
  have "mm_binary_tree_size t = 1"
    using t by (auto simp: from_hashes_def next_power_of_two.simps Let_def split: bind_splits)
  with representsD(3) [OF d(1)] have "d = 0" by (cases d) simp_all
  with d t show ?thesis by (auto simp: mm_rep_def next_power_of_two.simps)
qed

lemma mm_rep_init_cached:
  assumes "mm_rep H t ls"
  shows "\<exists>t'. init_cached H (mm_start_index t) (mm_cache t) = Some t' \<and>
    mm_rep H t' (take (mm_start_index t) ls) \<and> mm_start_index t' = mm_start_index t"
proof -
  from assms obtain d where d: "represents (compress H) d t ls" by (auto simp: mm_rep_def)
  have H: "mm_hasher t = H" "mm_empty_leaf_hash t = None" using assms by (auto simp: mm_rep_def)
  from init_cached_represents [OF d H(2)] obtain d' t' where
    t': "init_cached H (mm_start_index t) (mm_cache t) = Some t'"
      "represents (compress H) d' t' (take (mm_start_index t) ls)"
      "mm_start_index t' = mm_start_index t" "mm_hasher t' = H" "mm_empty_leaf_hash t' = None"
    using H(1) by metis
  have "mm_binary_tree_size t' = next_power_of_two (mm_start_index t)"
    using t'(1) by (auto simp: init_cached_def Let_def split: bind_splits)
  with t' representsD(3) [OF t'(2)] representsD(5) [OF d] show ?thesis
    by (auto simp: mm_rep_def min_def)
qed

subsection \<open>Properties\<close>

text \<open>C1.  However leaves are pushed and prefixes trimmed after construction, the root the
  tree reports is the root of the complete tree over every leaf it ever received, padded with
  the empty leaf to the size of the tree.\<close>

theorem merkle_root_of_all_leaves:
  assumes "from_hashes H hs m = Some t" and "run_ops (compress H) ops t = Some t'"
    and "length (hs @ pushed ops) \<le> 2 ^ MAX_TREE_DEPTH"
  shows "merkle_root (compress H) t' =
    Some (reference_root (compress H) (hs_empty_leaf_hash H)
      (tree_depth_by_size (mm_binary_tree_size t')) (hs @ pushed ops))"
proof -
  from from_hashes_represents [OF assms(1)] obtain d where
    d: "represents (compress H) d t hs" "mm_hasher t = H" "mm_empty_leaf_hash t = None" by metis
  from run_ops_represents [OF assms(2) d(1) assms(3)] obtain d' where
    "represents (compress H) d' t' (hs @ pushed ops)" "mm_hasher t' = H" "mm_empty_leaf_hash t' = None"
    using d by auto
  then show ?thesis using represents_root_size by metis
qed

definition sample_hasher :: "int hasher" where
  "sample_hasher = \<lparr> hash_bytes = (\<lambda>bs. int (length bs)),
     compress = (\<lambda>a b. (3 * a + 5 * b + 1) mod 1009), hs_empty_leaf_hash = 7 \<rparr>"

definition sample_tree :: "int mini_merkle_tree" where
  "sample_tree = \<lparr> mm_hasher = sample_hasher, mm_hashes = [10, 20, 30], mm_binary_tree_size = 4,
     mm_start_index = 0, mm_cache = [None, None], mm_empty_leaf_hash = None \<rparr>"

lemma sample_tree_from_hashes: "from_hashes sample_hasher [10, 20, 30] None = Some sample_tree"
proof -
  have "next_power_of_two (length [10::int, 20, 30]) = 4" "trailing_zeros 4 = 2" by code_simp+
  then show ?thesis
    by (simp add: from_hashes_def sample_tree_def tree_depth_by_size_def MAX_TREE_DEPTH_def numeral_2_eq_2)
qed

lemma sample_tree_represents: "represents (compress sample_hasher) 2 sample_tree [10, 20, 30]"
  by (simp add: represents_def sample_tree_def MAX_TREE_DEPTH_def cache_entry_0 upt_conv_Cons
      numeral_2_eq_2)

theorem merkle_root_of_all_leaves_witness:
  "\<exists>t'. run_ops (compress sample_hasher) [TrimStart 2, PushHash 40, PushHash 50, TrimStart 1] sample_tree = Some t' \<and>
     merkle_root (compress sample_hasher) t' =
       Some (reference_root (compress sample_hasher) 7 3 [10, 20, 30, 40, 50])"
proof -
  have "map_option (tree_depth_by_size \<circ> mm_binary_tree_size)
      (run_ops (compress sample_hasher) [TrimStart 2, PushHash 40, PushHash 50, TrimStart 1] sample_tree) = Some 3"
    by code_simp
  then obtain t' where t': "run_ops (compress sample_hasher)
      [TrimStart 2, PushHash 40, PushHash 50, TrimStart 1] sample_tree = Some t'"
    "tree_depth_by_size (mm_binary_tree_size t') = 3" by auto
  from merkle_root_of_all_leaves [OF sample_tree_from_hashes t'(1)] t' show ?thesis
    by (simp add: MAX_TREE_DEPTH_def sample_hasher_def)
qed

text \<open>Trimming a prefix of the untrimmed leaves of a tree that is neither empty nor
  completely trimmed and full never panics, drops exactly these leaves, advances the start index
  by their number and leaves the root unchanged.\<close>

theorem trim_start_keeps_root:
  assumes "represents kc d t ls" "count \<le> length (mm_hashes t)"
    "ls \<noteq> []" "mm_start_index t < 2 ^ d"
  shows "\<exists>t'. trim_start kc count t = Some t' \<and> merkle_root kc t' = merkle_root kc t \<and>
    mm_hashes t' = drop count (mm_hashes t) \<and> mm_start_index t' = mm_start_index t + count \<and>
    represents kc d t' ls"
proof -
  from trim_start_represents [OF assms] obtain t' where
    t': "trim_start kc count t = Some t'" "represents kc d t' ls"
      "mm_start_index t' = mm_start_index t + count" "mm_hasher t' = mm_hasher t"
      "mm_empty_leaf_hash t' = mm_empty_leaf_hash t" by metis
  have "effective_empty_leaf t' = effective_empty_leaf t"
    using t' by (auto simp: effective_empty_leaf_def split: option.split)
  then have "merkle_root kc t' = merkle_root kc t"
    using merkle_root_represents [OF t'(2)] merkle_root_represents [OF assms(1)] assms(3) by simp
  moreover have "mm_hashes t' = drop count (mm_hashes t)"
    using representsD(6) [OF t'(2)] representsD(6) [OF assms(1)] t'(3) by (simp add: add.commute)
  ultimately show ?thesis using t' by blast
qed

theorem trim_start_keeps_root_witness:
  "\<exists>t'. trim_start (compress sample_hasher) 3 sample_tree = Some t' \<and>
     merkle_root (compress sample_hasher) t' = merkle_root (compress sample_hasher) sample_tree"
  using trim_start_keeps_root [OF sample_tree_represents, of 3] by (auto simp: sample_tree_def)

text \<open>For every untrimmed leaf the tree returns its root and a path of the depth of the
  tree, and hashing the leaf up along that path gives the root.\<close>

theorem merkle_path_verifies:
  assumes "represents kc d t ls" "mm_start_index t \<le> p" "p < length ls"
  shows "\<exists>path. merkle_root_and_path_by_absolute_index kc t p = Some (the (merkle_root kc t), path) \<and>
    length path = d \<and> root_from_path kc p (ls ! p) path = the (merkle_root kc t)"
proof -
  have "ls \<noteq> []" using assms(3) by auto
  with merkle_root_represents [OF assms(1)] merkle_root_and_path_represents [OF assms]
  show ?thesis by (metis option.sel)
qed

theorem merkle_path_verifies_witness:
  "\<exists>path. merkle_root_and_path_by_absolute_index (compress sample_hasher) sample_tree 2 =
     Some (the (merkle_root (compress sample_hasher) sample_tree), path) \<and>
     root_from_path (compress sample_hasher) 2 30 path = the (merkle_root (compress sample_hasher) sample_tree)"
  using merkle_path_verifies [OF sample_tree_represents, of 2] by (auto simp: sample_tree_def)

text \<open>For a non-empty range of untrimmed leaves the two half paths are enough to recompute
  the root from the leaves of the range.\<close>

theorem merkle_range_verifies:
  assumes "represents kc d t ls" "mm_start_index t \<le> a" "a < b" "b \<le> length ls"
  shows "\<exists>lp rp. merkle_root_and_paths_for_range kc t (a - mm_start_index t) (b - mm_start_index t) =
      Some (the (merkle_root kc t), lp, rp) \<and>
    root_from_range kc a (take (b - a) (drop a ls)) lp rp = merkle_root kc t"
proof -
  have "ls \<noteq> []" using assms(3,4) by auto
  with merkle_root_represents [OF assms(1)] paths_for_range_represents [OF assms]
  show ?thesis by (metis option.sel)
qed

theorem merkle_range_verifies_witness:
  "\<exists>lp rp. merkle_root_and_paths_for_range (compress sample_hasher) sample_tree 1 3 =
      Some (the (merkle_root (compress sample_hasher) sample_tree), lp, rp) \<and>
    root_from_range (compress sample_hasher) 1 [20, 30] lp rp = merkle_root (compress sample_hasher) sample_tree"
  using merkle_range_verifies [OF sample_tree_represents, of 1 3] by (auto simp: sample_tree_def)

text \<open>Persisting only the start index and the cache loses nothing: the tree restored from
  them by \<open>init_cached\<close>, after the untrimmed leaves are pushed again, has the root of the
  complete tree over all leaves, and the root of the original tree when it has the same size.\<close>

theorem init_cached_restores:
  assumes "represents kc d t ls" "mm_empty_leaf_hash t = None"
  shows "\<exists>t0 t1. init_cached (mm_hasher t) (mm_start_index t) (mm_cache t) = Some t0 \<and>
    t1 = fold push_hash (mm_hashes t) t0 \<and>
    merkle_root kc t1 = Some (reference_root kc (hs_empty_leaf_hash (mm_hasher t))
      (tree_depth_by_size (mm_binary_tree_size t1)) ls) \<and>
    (mm_binary_tree_size t1 = mm_binary_tree_size t \<longrightarrow> merkle_root kc t1 = merkle_root kc t)"
proof -
  from init_cached_represents [OF assms] obtain d' t0 where
    t0: "init_cached (mm_hasher t) (mm_start_index t) (mm_cache t) = Some t0"
      "represents kc d' t0 (take (mm_start_index t) ls)"
      "mm_hasher t0 = mm_hasher t" "mm_empty_leaf_hash t0 = None" by metis
  have "length ls \<le> 2 ^ MAX_TREE_DEPTH"
    using representsD(2,4) [OF assms(1)] by (meson le_trans power_increasing one_le_numeral)
  then have "\<exists>d1. represents kc d1 (fold push_hash (mm_hashes t) t0) ls \<and>
      mm_hasher (fold push_hash (mm_hashes t) t0) = mm_hasher t \<and>
      mm_empty_leaf_hash (fold push_hash (mm_hashes t) t0) = None"
    using fold_push_hash_represents [OF t0(2), of "mm_hashes t"] representsD(6) [OF assms(1)] t0(3,4) by simp
  with t0(1) represents_root_size represents_root_size [OF assms] show ?thesis by fastforce
qed

theorem init_cached_restores_witness:
  "\<exists>t0. init_cached sample_hasher 0 [None, None] = Some t0 \<and>
    merkle_root (compress sample_hasher) (fold push_hash [10, 20, 30] t0) =
    merkle_root (compress sample_hasher) sample_tree"
proof -
  have size: "map_option (mm_binary_tree_size \<circ> fold push_hash [10, 20, 30]) (init_cached sample_hasher 0 [None, None]) = Some 4"
    by code_simp
  show ?thesis
    using init_cached_restores [OF sample_tree_represents] size by (auto simp: sample_tree_def)
qed

end
