(* ===== verification/Types.thy ===== *)
theory Types
  imports Prelude
begin

unbundle bit_operations_syntax

text \<open>
  The data types shared by the components: protocol, execution and proving
  versions (\<open>lib/types/src/protocol\<close>), transaction envelopes
  (\<open>lib/types/src/transaction\<close>), block contexts and replay records
  (\<open>lib/storage_api/src/model.rs\<close>).

  The ABI codec of the system transactions is external code: a system
  transaction is modelled with its decoded input.  Of an L1 or L2 transaction
  the model keeps the fields that the modelled components read.
\<close>

subsection \<open>Protocol versions\<close>

datatype protocol_semantic_version =
  ProtocolSemanticVersion (major: u64) (minor: u64) (patch: u64)

text \<open>The derived order of \<open>semver::Version\<close> compares the components from left to right.\<close>

instantiation protocol_semantic_version :: linorder
begin

definition less_eq_protocol_semantic_version ::
    "protocol_semantic_version \<Rightarrow> protocol_semantic_version \<Rightarrow> bool" where
  "less_eq_protocol_semantic_version v w \<longleftrightarrow>
     major v < major w \<or> major v = major w \<and>
       (minor v < minor w \<or> minor v = minor w \<and> patch v \<le> patch w)"

definition less_protocol_semantic_version ::
    "protocol_semantic_version \<Rightarrow> protocol_semantic_version \<Rightarrow> bool" where
  "less_protocol_semantic_version v w \<longleftrightarrow>
     major v < major w \<or> major v = major w \<and>
       (minor v < minor w \<or> minor v = minor w \<and> patch v < patch w)"

instance
  by standard
    (auto simp: less_eq_protocol_semantic_version_def less_protocol_semantic_version_def
      protocol_semantic_version.expand)

end

datatype protocol_semantic_version_error = MinorOverflow | PatchOverflow | MajorNonZero

definition MIN_VERSION_WITH_RELIABLE_UPGRADE_LOGS :: protocol_semantic_version where
  "MIN_VERSION_WITH_RELIABLE_UPGRADE_LOGS = ProtocolSemanticVersion 0 30 2"

definition MIN_VERSION_WITH_L1_INTEROP :: protocol_semantic_version where
  "MIN_VERSION_WITH_L1_INTEROP = ProtocolSemanticVersion 0 32 0"

definition legacy_genesis_version :: protocol_semantic_version where
  "legacy_genesis_version = ProtocolSemanticVersion 0 29 1"

definition PACKED_SEMVER_PATCH_MASK :: nat where
  "PACKED_SEMVER_PATCH_MASK = 0xFFFFFFFF"

definition PACKED_SEMVER_MINOR_MASK :: nat where
  "PACKED_SEMVER_MINOR_MASK = 0xFFFFFFFF"

definition PACKED_SEMVER_MINOR_OFFSET :: nat where
  "PACKED_SEMVER_MINOR_OFFSET = 32"

definition PACKED_SEMVER_MAJOR_OFFSET :: nat where
  "PACKED_SEMVER_MAJOR_OFFSET = 64"

definition packed :: "protocol_semantic_version \<Rightarrow> protocol_semantic_version_error + 256 word" where
  "packed v =
     (if major v \<noteq> 0 then Inl MajorNonZero
      else if minor v > PACKED_SEMVER_MINOR_MASK then Inl MinorOverflow
      else if patch v > PACKED_SEMVER_PATCH_MASK then Inl PatchOverflow
      else Inr (push_bit PACKED_SEMVER_MINOR_OFFSET (of_nat (minor v)) OR of_nat (patch v)))"

text \<open>\<open>TryFrom<U256>\<close>: the masked values always fit into 64 bits, the two conversions
  to \<open>u64\<close> check it nevertheless.\<close>

definition try_into_u64 :: "256 word \<Rightarrow> u64 option" where
  "try_into_u64 w = (if unat w < 2 ^ 64 then Some (unat w) else None)"

definition try_from_packed :: "256 word \<Rightarrow> protocol_semantic_version_error + protocol_semantic_version" where
  "try_from_packed w =
     (case try_into_u64 (w AND of_nat PACKED_SEMVER_PATCH_MASK) of
        None \<Rightarrow> Inl PatchOverflow
      | Some pa \<Rightarrow>
        (case try_into_u64 (drop_bit PACKED_SEMVER_MINOR_OFFSET w AND of_nat PACKED_SEMVER_MINOR_MASK) of
           None \<Rightarrow> Inl MinorOverflow
         | Some mi \<Rightarrow>
             if drop_bit PACKED_SEMVER_MAJOR_OFFSET w \<noteq> 0 then Inl MajorNonZero
             else Inr (ProtocolSemanticVersion 0 mi pa)))"

datatype execution_version = EV1 | EV2 | EV3 | EV4 | EV5 | EV6 | EV7

definition execution_version_repr :: "execution_version \<Rightarrow> nat" where
  "execution_version_repr v =
     (case v of EV1 \<Rightarrow> 1 | EV2 \<Rightarrow> 2 | EV3 \<Rightarrow> 3 | EV4 \<Rightarrow> 4 | EV5 \<Rightarrow> 5 | EV6 \<Rightarrow> 6 | EV7 \<Rightarrow> 7)"

datatype execution_version_error = UnsupportedVersion protocol_semantic_version

definition execution_version_try_from ::
    "protocol_semantic_version \<Rightarrow> execution_version_error + execution_version" where
  "execution_version_try_from v =
     (if minor v = 29 then Inr EV4
      else if minor v = 30 then Inr EV5
      else if minor v = 31 then Inr EV6
      else if minor v = 32 then Inr EV7
      else if minor v = 33 then Inr EV7
      else Inl (UnsupportedVersion v))"

datatype proving_version = PV6 | PV7 | PV8

definition proving_version_repr :: "proving_version \<Rightarrow> nat" where
  "proving_version_repr v = (case v of PV6 \<Rightarrow> 6 | PV7 \<Rightarrow> 7 | PV8 \<Rightarrow> 8)"

datatype proving_version_error = PvUnsupportedVersion protocol_semantic_version | UnsupportedVkHash string

definition proving_version_try_from ::
    "protocol_semantic_version \<Rightarrow> proving_version_error + proving_version" where
  "proving_version_try_from v =
     (let p = (major v, minor v, patch v) in
      if p = (0, 30, 1) \<or> p = (0, 30, 2) then Inr PV6
      else if p = (0, 31, 0) \<or> p = (0, 31, 1) then Inr PV7
      else if p = (0, 32, 0) then Inr PV8
      else Inl (PvUnsupportedVersion v))"

definition vk_hash :: "proving_version \<Rightarrow> string" where
  "vk_hash v =
     (case v of
        PV6 \<Rightarrow> ''0x124ebcd537a1e1c152774dd18f67660e35625bba0b669bf3b4836d636b105337''
      | PV7 \<Rightarrow> ''0x23156cf220288cd1e436dccfc09aa4883ea8288da61aa69e2c7251b0c0c44ccd''
      | PV8 \<Rightarrow> ''0x9f7576b911e7d3f528d49f894208682c81800814db9e3beac7fc3b1c4d626e7a'')"

definition try_from_vk_hash :: "string \<Rightarrow> proving_version_error + proving_version" where
  "try_from_vk_hash h =
     (if h = vk_hash PV6 then Inr PV6
      else if h = vk_hash PV7 then Inr PV7
      else if h = vk_hash PV8 then Inr PV8
      else Inl (UnsupportedVkHash h))"

definition is_live :: "protocol_semantic_version \<Rightarrow> bool" where
  "is_live v =
     (if major v \<noteq> 0 then False
      else if 30 \<le> minor v \<and> minor v \<le> 32
      then (case proving_version_try_from v of Inr _ \<Rightarrow> True | Inl _ \<Rightarrow> False)
      else False)"

definition is_post_v31 :: "protocol_semantic_version \<Rightarrow> bool" where
  "is_post_v31 v = (minor v \<ge> 31)"

definition supports_l1_interop :: "protocol_semantic_version \<Rightarrow> bool" where
  "supports_l1_interop v = (MIN_VERSION_WITH_L1_INTEROP \<le> v)"

datatype pubdata_mode = Blobs | Calldata | Validium

definition adapt_for_protocol_version :: "pubdata_mode \<Rightarrow> protocol_semantic_version \<Rightarrow> pubdata_mode" where
  "adapt_for_protocol_version m v =
     (if minor v \<noteq> 29 then m
      else (case m of Blobs \<Rightarrow> Calldata | Calldata \<Rightarrow> Calldata | Validium \<Rightarrow> Validium))"

subsection \<open>Transactions\<close>

type_synonym tx_hash = b256
type_synonym address = "byte list"

record l1_tx =
  l1_hash :: tx_hash
  l1_initiator :: address
  l1_gas_limit :: u64
  l1_nonce :: u64

definition priority_id :: "l1_tx \<Rightarrow> u64" where
  "priority_id tx = l1_nonce tx"

record l2_tx =
  l2_hash :: tx_hash
  l2_signer :: address
  l2_nonce :: u64
  l2_gas_limit :: u64

record interop_root =
  ir_chain_id :: nat
  ir_block_or_batch_number :: nat
  ir_sides :: "b256 list"

record indexed_interop_root =
  iir_log_id :: u64
  iir_root :: interop_root

datatype system_tx_input =
    ImportInteropRootsInput "interop_root list"
  | SetSLChainIdInput u64 u64
  | SetInteropFeeInput nat u64

datatype system_tx_type =
    ImportInteropRoots u64
  | SetSLChainId u64 u64
  | SetInteropFee u64

record system_tx =
  st_input :: system_tx_input
  st_salt :: u64

record system_tx_envelope =
  st_hash :: tx_hash
  st_inner :: system_tx

text \<open>\<open>encode_data\<close> returns the salt next to the calldata; \<open>calculate_hash\<close> is the external
  hash of the encoded transaction.\<close>

definition encode_data_salt :: "system_tx_input \<Rightarrow> u64" where
  "encode_data_salt i =
     (case i of ImportInteropRootsInput _ \<Rightarrow> 0 | SetSLChainIdInput _ salt \<Rightarrow> salt | SetInteropFeeInput _ salt \<Rightarrow> salt)"

definition import_interop_roots ::
    "(system_tx \<Rightarrow> tx_hash) \<Rightarrow> interop_root list \<Rightarrow> u64 \<Rightarrow> system_tx_envelope" where
  "import_interop_roots calculate_hash roots latest_log_id =
     (let tx = \<lparr> st_input = ImportInteropRootsInput roots, st_salt = latest_log_id \<rparr> in
      \<lparr> st_hash = calculate_hash tx, st_inner = tx \<rparr>)"

definition create_from_input :: "(system_tx \<Rightarrow> tx_hash) \<Rightarrow> system_tx_input \<Rightarrow> system_tx_envelope" where
  "create_from_input calculate_hash tx_input =
     (let tx = \<lparr> st_input = tx_input, st_salt = encode_data_salt tx_input \<rparr> in
      \<lparr> st_hash = calculate_hash tx, st_inner = tx \<rparr>)"

definition set_sl_chain_id :: "(system_tx \<Rightarrow> tx_hash) \<Rightarrow> u64 \<Rightarrow> u64 \<Rightarrow> system_tx_envelope" where
  "set_sl_chain_id calculate_hash chain_id migration_number =
     create_from_input calculate_hash (SetSLChainIdInput chain_id migration_number)"

definition set_interop_fee :: "(system_tx \<Rightarrow> tx_hash) \<Rightarrow> nat \<Rightarrow> u64 \<Rightarrow> system_tx_envelope" where
  "set_interop_fee calculate_hash interop_fee interop_fee_number =
     create_from_input calculate_hash (SetInteropFeeInput interop_fee interop_fee_number)"

text \<open>\<open>decoded_input\<close> reads the salt of the transaction for the two kinds whose calldata
  does not contain it.\<close>

definition system_subtype :: "system_tx_envelope \<Rightarrow> system_tx_type" where
  "system_subtype tx =
     (case st_input (st_inner tx) of
        ImportInteropRootsInput roots \<Rightarrow> ImportInteropRoots (length roots)
      | SetSLChainIdInput chain_id _ \<Rightarrow> SetSLChainId chain_id (st_salt (st_inner tx))
      | SetInteropFeeInput _ _ \<Rightarrow> SetInteropFee (st_salt (st_inner tx)))"

definition interop_roots :: "system_tx_envelope \<Rightarrow> interop_root list option" where
  "interop_roots tx =
     (case st_input (st_inner tx) of
        ImportInteropRootsInput roots \<Rightarrow> Some roots
      | _ \<Rightarrow> None)"

datatype zk_envelope = System system_tx_envelope | Upgrade l1_tx | L1 l1_tx | L2 l2_tx

datatype zk_tx_type = TySystem | TyUpgrade | TyL1 | TyL2

definition tx_type :: "zk_envelope \<Rightarrow> zk_tx_type" where
  "tx_type tx = (case tx of System _ \<Rightarrow> TySystem | Upgrade _ \<Rightarrow> TyUpgrade | L1 _ \<Rightarrow> TyL1 | L2 _ \<Rightarrow> TyL2)"

definition tx_hash_of :: "zk_envelope \<Rightarrow> tx_hash" where
  "tx_hash_of tx =
     (case tx of System t \<Rightarrow> st_hash t | Upgrade t \<Rightarrow> l1_hash t | L1 t \<Rightarrow> l1_hash t | L2 t \<Rightarrow> l2_hash t)"

definition tx_gas_limit :: "zk_envelope \<Rightarrow> u64" where
  "tx_gas_limit tx =
     (case tx of System _ \<Rightarrow> 0 | Upgrade t \<Rightarrow> l1_gas_limit t | L1 t \<Rightarrow> l1_gas_limit t | L2 t \<Rightarrow> l2_gas_limit t)"

definition as_system_tx_type :: "zk_envelope \<Rightarrow> system_tx_type option" where
  "as_system_tx_type tx = (case tx of System t \<Rightarrow> Some (system_subtype t) | _ \<Rightarrow> None)"

record upgrade_metadata =
  um_timestamp :: u64
  um_protocol_version :: protocol_semantic_version
  um_force_preimages :: "(b256 \<times> byte list) list"

record upgrade_info =
  ui_tx :: "l1_tx option"
  ui_metadata :: upgrade_metadata

definition ui_protocol_version :: "upgrade_info \<Rightarrow> protocol_semantic_version" where
  "ui_protocol_version u = um_protocol_version (ui_metadata u)"

subsection \<open>Blocks\<close>

record block_start_cursors =
  l1_priority_id :: u64
  interop_root_id :: u64
  migration_number :: u64
  interop_fee_number :: u64

text \<open>The window of the 256 latest block hashes, as big-endian numbers in the code and as
  the hashes themselves here.\<close>

type_synonym block_hashes = "b256 list"

definition block_hashes_default :: block_hashes where
  "block_hashes_default = replicate 256 (replicate 32 0)"

definition block_hashes_push :: "block_hashes \<Rightarrow> b256 \<Rightarrow> block_hashes" where
  "block_hashes_push hs h = drop 1 hs @ [h]"

record block_context =
  bc_chain_id :: u64
  bc_block_number :: u64
  bc_block_hashes :: block_hashes
  bc_timestamp :: u64
  bc_eip1559_basefee :: nat
  bc_pubdata_price :: nat
  bc_native_price :: nat
  bc_coinbase :: address
  bc_gas_limit :: u64
  bc_pubdata_limit :: u64
  bc_mix_hash :: nat
  bc_execution_version :: nat
  bc_blob_fee :: nat

record replay_record =
  rr_block_context :: block_context
  rr_transactions :: "zk_envelope list"
  rr_previous_block_timestamp :: u64
  rr_node_version :: "nat \<times> nat \<times> nat"
  rr_protocol_version :: protocol_semantic_version
  rr_block_output_hash :: b256
  rr_force_preimages :: "(b256 \<times> byte list) list"
  rr_starting_cursors :: block_start_cursors

text \<open>\<open>find_map\<close> over the transactions for the first L1 priority id.\<close>

fun first_l1_priority_id :: "zk_envelope list \<Rightarrow> u64 option" where
  "first_l1_priority_id [] = None"
| "first_l1_priority_id (L1 tx # txs) = Some (priority_id tx)"
| "first_l1_priority_id (_ # txs) = first_l1_priority_id txs"

definition replay_record_new ::
    "block_context \<Rightarrow> zk_envelope list \<Rightarrow> u64 \<Rightarrow> nat \<times> nat \<times> nat \<Rightarrow> protocol_semantic_version \<Rightarrow>
     b256 \<Rightarrow> (b256 \<times> byte list) list \<Rightarrow> block_start_cursors \<Rightarrow> replay_record option" where
  "replay_record_new ctx txs prev_ts node_version pv output_hash preimages cursors = do {
     assert_that (case first_l1_priority_id txs of None \<Rightarrow> True | Some i \<Rightarrow> i = l1_priority_id cursors);
     Some \<lparr> rr_block_context = ctx, rr_transactions = txs, rr_previous_block_timestamp = prev_ts,
            rr_node_version = node_version, rr_protocol_version = pv,
            rr_block_output_hash = output_hash, rr_force_preimages = preimages,
            rr_starting_cursors = cursors \<rparr> }"

definition replay_record_eq :: "replay_record \<Rightarrow> replay_record \<Rightarrow> bool" where
  "replay_record_eq r s \<longleftrightarrow>
     rr_block_context r = rr_block_context s \<and> rr_transactions r = rr_transactions s \<and>
     rr_previous_block_timestamp r = rr_previous_block_timestamp s \<and>
     rr_protocol_version r = rr_protocol_version s \<and>
     rr_block_output_hash r = rr_block_output_hash s \<and>
     rr_force_preimages r = rr_force_preimages s \<and>
     rr_starting_cursors r = rr_starting_cursors s"

record finality_status =
  fs_last_committed_block :: u64
  fs_last_committed_batch :: u64
  fs_last_executed_block :: u64
  fs_last_executed_batch :: u64
  fs_last_finalized_executed_block :: u64
  fs_last_finalized_executed_batch :: u64

subsection \<open>Version lemmas\<close>

lemma mask_32: "of_nat 0xFFFFFFFF = (mask 32 :: 256 word)"
  by (simp add: mask_eq_exp_minus_1)

lemma small_take_bit: "n \<le> 0xFFFFFFFF \<Longrightarrow> take_bit 32 n = (n::nat)"
  by (simp add: take_bit_nat_eq_self)

lemma packed_word_parts:
  fixes a b :: "256 word"
  defines "w \<equiv> push_bit 32 (take_bit 32 a) OR take_bit 32 b"
  shows "w AND mask 32 = take_bit 32 b" "drop_bit 32 w AND mask 32 = take_bit 32 a" "drop_bit 64 w = 0"
  unfolding w_def by (rule bit_word_eqI, auto simp: bit_simps)+

lemma packed_parts:
  fixes mi pa :: nat
  assumes "mi \<le> 0xFFFFFFFF" "pa \<le> 0xFFFFFFFF"
  defines "w \<equiv> (push_bit 32 (of_nat mi) OR of_nat pa :: 256 word)"
  shows "w AND mask 32 = of_nat pa" "drop_bit 32 w AND mask 32 = of_nat mi" "drop_bit 64 w = 0"
proof -
  have mi: "(of_nat mi :: 256 word) = take_bit 32 (of_nat mi)"
    using small_take_bit [OF assms(1)] by (metis of_nat_take_bit)
  have pa: "(of_nat pa :: 256 word) = take_bit 32 (of_nat pa)"
    using small_take_bit [OF assms(2)] by (metis of_nat_take_bit)
  show "w AND mask 32 = of_nat pa" "drop_bit 32 w AND mask 32 = of_nat mi" "drop_bit 64 w = 0"
    unfolding w_def by (rule packed_word_parts [of "of_nat mi" "of_nat pa", folded mi pa])+
qed

lemma packed_split:
  fixes w :: "256 word"
  assumes "drop_bit 64 w = 0"
  shows "push_bit 32 (drop_bit 32 w AND mask 32) OR (w AND mask 32) = w"
proof (rule bit_word_eqI)
  fix n
  have "\<not> bit w n" if "64 \<le> n"
  proof -
    have "bit w n \<longleftrightarrow> bit (drop_bit 64 w) (n - 64)" using that by (simp add: bit_simps)
    then show ?thesis by (simp add: assms)
  qed
  then show "bit (push_bit 32 (drop_bit 32 w AND mask 32) OR (w AND mask 32)) n = bit w n"
    if "n < LENGTH(256)"
    by (cases "64 \<le> n") (auto simp: bit_simps)
qed

lemma masked_bound: "unat ((w::256 word) AND mask 32) \<le> 0xFFFFFFFF"
proof -
  have "unat (w AND mask 32) = take_bit 32 (unat w)"
    by (simp flip: take_bit_eq_mask add: unsigned_take_bit_eq)
  also have "\<dots> < 2 ^ 32" by (rule take_bit_nat_less_exp)
  finally show ?thesis by simp
qed

lemmas packed_consts = PACKED_SEMVER_PATCH_MASK_def PACKED_SEMVER_MINOR_MASK_def
  PACKED_SEMVER_MINOR_OFFSET_def PACKED_SEMVER_MAJOR_OFFSET_def

lemma try_from_packed_eq:
  "try_from_packed w =
     (if drop_bit 64 w \<noteq> 0 then Inl MajorNonZero
      else Inr (ProtocolSemanticVersion 0 (unat (drop_bit 32 w AND mask 32)) (unat (w AND mask 32))))"
  using masked_bound [of w] masked_bound [of "drop_bit 32 w"]
  by (simp add: try_from_packed_def packed_consts mask_32 try_into_u64_def del: of_nat_numeral)

subsection \<open>Properties\<close>

text \<open>Packing and unpacking a protocol version are inverse to each other: unpacking the
  packed version gives the version back, and a word that unpacks to a version is the packed form
  of that version.  So every on-chain word has at most one meaning.\<close>

theorem packed_roundtrip:
  "packed v = Inr w \<longleftrightarrow> try_from_packed w = Inr v"
proof
  assume a: "packed v = Inr w"
  then have b: "major v = 0" "minor v \<le> 0xFFFFFFFF" "patch v \<le> 0xFFFFFFFF"
    and w: "w = push_bit 32 (of_nat (minor v)) OR of_nat (patch v)"
    by (auto simp: packed_def packed_consts split: if_splits)
  note parts = packed_parts [OF b(2,3), folded w]
  have "unat (of_nat (minor v) :: 256 word) = minor v" "unat (of_nat (patch v) :: 256 word) = patch v"
    using b(2,3) by (simp_all add: unat_of_nat)
  with b(1) show "try_from_packed w = Inr v"
    by (cases v) (simp add: try_from_packed_eq parts)
next
  assume a: "try_from_packed w = Inr v"
  then have "drop_bit 64 w = 0"
    and v: "v = ProtocolSemanticVersion 0 (unat (drop_bit 32 w AND mask 32)) (unat (w AND mask 32))"
    by (auto simp: try_from_packed_eq split: if_splits)
  then show "packed v = Inr w"
    using masked_bound [of w] masked_bound [of "drop_bit 32 w"] packed_split [of w]
    by (simp add: packed_def packed_consts)
qed

text \<open>A protocol version is live exactly when a proving version is known for it, and then
  an execution version is known as well: the node never runs blocks of a live version that it
  cannot execute or prove.\<close>

theorem is_live_iff:
  "is_live v \<longleftrightarrow> (\<exists>pv ev. proving_version_try_from v = Inr pv \<and> execution_version_try_from v = Inr ev)"
  by (cases v) (auto simp: is_live_def proving_version_try_from_def execution_version_try_from_def Let_def
      split: if_splits)

lemma vk_hash_inject: "vk_hash p = vk_hash q \<longleftrightarrow> p = q"
  by (cases p; cases q) (simp_all add: vk_hash_def)

lemma try_from_vk_hash_vk_hash: "try_from_vk_hash h = Inr pv \<longleftrightarrow> h = vk_hash pv"
  by (cases pv) (auto simp: try_from_vk_hash_def vk_hash_inject)

lemma block_hashes_push_length:
  "length hs = 256 \<Longrightarrow> length (block_hashes_push hs h) = 256"
  by (simp add: block_hashes_push_def)

lemma first_l1_priority_id_None: "first_l1_priority_id txs = None \<longleftrightarrow> (\<forall>tx. L1 tx \<notin> set txs)"
  by (induction txs rule: first_l1_priority_id.induct) auto

end
