(* ===== verification/PriorityTree.thy ===== *)
theory PriorityTree
  imports MiniMerkle Types
begin

text \<open>
  The priority tree manager (\<open>lib/priority_tree/src/lib.rs\<close> and \<open>db.rs\<close>).  Two tasks
  share one Merkle tree of L1 transaction hashes under a mutex: one pushes the
  transactions of each batch and builds the proofs for the execute command, the
  other trims the tree and persists its cache once a batch is finalized.  The
  model is a step relation whose steps are the critical sections of the two tasks.

  The value \<^term>\<open>None\<close> of an operation stands for a panic or for waiting for a replay record
  that never appears.
\<close>

type_synonym replay_storage = "u64 \<Rightarrow> replay_record option"

subsection \<open>Persisted data\<close>

record cached_tree_data =
  ct_start_index :: usize
  ct_cache :: "b256 option list"

type_synonym priority_tree_db = "(u64 \<times> cached_tree_data) option"

text \<open>\<open>PriorityOpsLeaf\<close>: the empty leaf is the hash of the empty byte string.\<close>

definition priority_hasher :: "(byte list \<Rightarrow> b256) \<Rightarrow> b256 hasher" where
  "priority_hasher keccak256 = KeccakHasher 0 keccak256"

definition init_tree ::
    "b256 hasher \<Rightarrow> priority_tree_db \<Rightarrow> (u64 \<times> b256 mini_merkle_tree) option" where
  "init_tree H db =
     (case db of
        Some (block_number, cached_data) \<Rightarrow> do {
          t \<leftarrow> init_cached H (ct_start_index cached_data) (ct_cache cached_data);
          Some (block_number, t) }
      | None \<Rightarrow> do { t \<leftarrow> from_hashes H [] None; Some (0, t) })"

definition cache_tree :: "b256 mini_merkle_tree \<Rightarrow> u64 \<Rightarrow> priority_tree_db" where
  "cache_tree t block_number =
     Some (block_number, \<lparr> ct_start_index = mm_start_index t, ct_cache = mm_cache t \<rparr>)"

subsection \<open>Initialization\<close>

definition push_l1_tx :: "zk_envelope \<Rightarrow> b256 mini_merkle_tree \<Rightarrow> b256 mini_merkle_tree" where
  "push_l1_tx tx t = (case tx of L1 l1 \<Rightarrow> push_hash (l1_hash l1) t | _ \<Rightarrow> t)"

fun push_blocks ::
    "replay_storage \<Rightarrow> u64 list \<Rightarrow> b256 mini_merkle_tree \<Rightarrow> b256 mini_merkle_tree option" where
  "push_blocks storage [] t = Some t"
| "push_blocks storage (b # bs) t = do {
     record \<leftarrow> storage b;
     push_blocks storage bs (fold push_l1_tx (rr_transactions record) t) }"

record pt_batch =
  ptb_number :: u64
  ptb_first_block :: u64
  ptb_last_block :: u64

record priority_ops_batch_info =
  po_left_path :: "b256 list"
  po_right_path :: "b256 list"
  po_item_hashes :: "b256 list"

definition priority_ops_default :: priority_ops_batch_info where
  "priority_ops_default = \<lparr> po_left_path = [], po_right_path = [], po_item_hashes = [] \<rparr>"

datatype l1_sender_command =
    Passthrough pt_batch
  | SendToL1 pt_batch priority_ops_batch_info "interop_root list"

type_synonym cache_event = "u64 \<times> u64 \<times> usize option"

record pt_state =
  pt_tree :: "b256 mini_merkle_tree"
  pt_db :: priority_tree_db
  pt_last_executed_batch_on_init :: u64
  pt_last_processed_batch :: u64
  pt_events :: "cache_event list"
  pt_commands :: "l1_sender_command list"

text \<open>\<open>new\<close> and \<open>init\<close>: the persisted tree is completed with the blocks that were executed
  since it was persisted.\<close>

definition pt_init ::
    "b256 hasher \<Rightarrow> replay_storage \<Rightarrow> priority_tree_db \<Rightarrow> finality_status \<Rightarrow> pt_state option" where
  "pt_init H storage db finality = do {
     (initial_block_number, t) \<leftarrow> init_tree H db;
     t \<leftarrow> push_blocks storage [initial_block_number + 1..<fs_last_executed_block finality + 1] t;
     Some \<lparr> pt_tree = t, pt_db = db,
            pt_last_executed_batch_on_init = fs_last_executed_batch finality,
            pt_last_processed_batch = fs_last_executed_batch finality,
            pt_events = [], pt_commands = [] \<rparr> }"

subsection \<open>Preparing execute commands\<close>

record batch_data =
  bd_priority_hashes :: "b256 list"
  bd_first_priority_op_id :: "usize option"
  bd_priority_op_count :: usize
  bd_interop_roots :: "interop_root list"

definition batch_data_empty :: batch_data where
  "batch_data_empty = \<lparr> bd_priority_hashes = [], bd_first_priority_op_id = None,
     bd_priority_op_count = 0, bd_interop_roots = [] \<rparr>"

definition collect_tx :: "zk_envelope \<Rightarrow> batch_data \<Rightarrow> batch_data" where
  "collect_tx tx bd =
     (case tx of
        L1 l1 \<Rightarrow> bd \<lparr>
          bd_first_priority_op_id :=
            Some (case bd_first_priority_op_id bd of None \<Rightarrow> priority_id l1 | Some i \<Rightarrow> i),
          bd_priority_op_count := bd_priority_op_count bd + 1,
          bd_priority_hashes := bd_priority_hashes bd @ [l1_hash l1] \<rparr>
      | System sys \<Rightarrow> bd \<lparr>
          bd_interop_roots := bd_interop_roots bd @ (case interop_roots sys of None \<Rightarrow> [] | Some rs \<Rightarrow> rs) \<rparr>
      | _ \<Rightarrow> bd)"

fun collect_blocks :: "replay_storage \<Rightarrow> u64 list \<Rightarrow> batch_data \<Rightarrow> batch_data option" where
  "collect_blocks storage [] bd = Some bd"
| "collect_blocks storage (b # bs) bd = do {
     replay \<leftarrow> storage b;
     collect_blocks storage bs (fold collect_tx (rr_transactions replay) bd) }"

definition unwrap_or_zero :: "b256 option \<Rightarrow> b256" where
  "unwrap_or_zero h = (case h of None \<Rightarrow> replicate 32 0 | Some x \<Rightarrow> x)"

text \<open>The mutation of the tree and the proof of one batch, under the lock.\<close>

definition process_batch_data ::
    "b256 hasher \<Rightarrow> batch_data \<Rightarrow> b256 mini_merkle_tree \<Rightarrow>
     (b256 mini_merkle_tree \<times> priority_ops_batch_info) option" where
  "process_batch_data H bd t = do {
     let t = fold push_hash (bd_priority_hashes bd) t;
     (case bd_first_priority_op_id bd of
        None \<Rightarrow> Some (t, priority_ops_default)
      | Some first_priority_op_id \<Rightarrow> do {
          assert_that (mm_start_index t \<le> first_priority_op_id);
          let range_start = first_priority_op_id - mm_start_index t;
          let range_end = range_start + bd_priority_op_count bd;
          (_, left, right) \<leftarrow> merkle_root_and_paths_for_range (compress H) t range_start range_end;
          hs \<leftarrow> hashes_range t range_start range_end;
          Some (t, \<lparr> po_left_path = map unwrap_or_zero left, po_right_path = map unwrap_or_zero right,
                     po_item_hashes = hs \<rparr>) }) }"

text \<open>The body of the loop after the next batch is known: collect, mutate, notify, send.\<close>

definition process_batch ::
    "b256 hasher \<Rightarrow> replay_storage \<Rightarrow> bool \<Rightarrow> pt_batch \<Rightarrow> pt_state \<Rightarrow> pt_state option" where
  "process_batch H storage main_node b s = do {
     bd \<leftarrow> collect_blocks storage [ptb_first_block b..<ptb_last_block b + 1] batch_data_empty;
     (t, ops) \<leftarrow> process_batch_data H bd (pt_tree s);
     let event = (ptb_number b, ptb_last_block b,
                  map_option (\<lambda>i. i + bd_priority_op_count bd - 1) (bd_first_priority_op_id bd));
     Some (s \<lparr> pt_tree := t,
               pt_events := pt_events s @ [event],
               pt_commands := (if main_node then pt_commands s @ [SendToL1 b ops (bd_interop_roots bd)]
                               else pt_commands s),
               pt_last_processed_batch := ptb_number b \<rparr>) }"

definition prepare_main_node ::
    "b256 hasher \<Rightarrow> replay_storage \<Rightarrow> pt_batch \<Rightarrow> pt_state \<Rightarrow> pt_state option" where
  "prepare_main_node H storage b s =
     (if ptb_number b \<le> pt_last_executed_batch_on_init s
      then Some (s \<lparr> pt_commands := pt_commands s @ [Passthrough b] \<rparr>)
      else do {
        assert_that (ptb_number b = pt_last_processed_batch s + 1);
        process_batch H storage True b s })"

text \<open>An external node waits for the next batch to be executed on the settlement layer and
  takes its block range from the provider of committed batches.\<close>

definition prepare_external_node ::
    "b256 hasher \<Rightarrow> replay_storage \<Rightarrow> (u64 \<Rightarrow> (u64 \<times> u64) option) \<Rightarrow> finality_status \<Rightarrow> pt_state \<Rightarrow> pt_state option" where
  "prepare_external_node H storage committed_batch_provider finality s = do {
     let next_batch_number = pt_last_processed_batch s + 1;
     assert_that (next_batch_number \<le> fs_last_executed_batch finality);
     (first_block, last_block) \<leftarrow> committed_batch_provider next_batch_number;
     process_batch H storage False
       \<lparr> ptb_number = next_batch_number, ptb_first_block = first_block, ptb_last_block = last_block \<rparr> s }"

subsection \<open>Caching\<close>

text \<open>One iteration of \<open>keep_caching\<close>; it waits while the batch is not finalized.\<close>

definition keep_caching :: "b256 hasher \<Rightarrow> finality_status \<Rightarrow> pt_state \<Rightarrow> pt_state option" where
  "keep_caching H finality s =
     (case pt_events s of
        [] \<Rightarrow> None
      | (batch_number, last_block_number, last_priority_op_id) # events \<Rightarrow> do {
          assert_that (last_block_number \<le> fs_last_finalized_executed_block finality);
          let s = s \<lparr> pt_events := events \<rparr>;
          (case last_priority_op_id of
             None \<Rightarrow> Some s
           | Some i \<Rightarrow> do {
               assert_that (mm_start_index (pt_tree s) \<le> i + 1);
               t \<leftarrow> trim_start (compress H) (i + 1 - mm_start_index (pt_tree s)) (pt_tree s);
               Some (s \<lparr> pt_tree := t, pt_db := cache_tree t last_block_number \<rparr>) }) })"

subsection \<open>The system\<close>

text \<open>The two tasks run concurrently; a step is a critical section of one of them.  The batches
  the node processes come from the sequence \<open>batches\<close>.  A restart loses everything but the
  database, which only ever names blocks that were executed.\<close>

inductive pt_step ::
    "b256 hasher \<Rightarrow> replay_storage \<Rightarrow> (u64 \<Rightarrow> u64 \<times> u64) \<Rightarrow> pt_state \<Rightarrow> pt_state \<Rightarrow> bool"
  for H storage batches where
  main_node:
    "\<lbrakk> b = \<lparr> ptb_number = n, ptb_first_block = fst (batches n), ptb_last_block = snd (batches n) \<rparr>;
       prepare_main_node H storage b s = Some s' \<rbrakk> \<Longrightarrow> pt_step H storage batches s s'"
| external_node:
    "prepare_external_node H storage (\<lambda>n. Some (batches n)) finality s = Some s' \<Longrightarrow>
     pt_step H storage batches s s'"
| caching:
    "keep_caching H finality s = Some s' \<Longrightarrow> pt_step H storage batches s s'"
| restart:
    "\<lbrakk> pt_init H storage (pt_db s) finality = Some s';
       fs_last_executed_block finality = snd (batches (fs_last_executed_batch finality));
       case pt_db s of None \<Rightarrow> True | Some (block, _) \<Rightarrow> block \<le> fs_last_executed_block finality \<rbrakk> \<Longrightarrow>
     pt_step H storage batches s s'"

inductive pt_reachable ::
    "b256 hasher \<Rightarrow> replay_storage \<Rightarrow> (u64 \<Rightarrow> u64 \<times> u64) \<Rightarrow> pt_state \<Rightarrow> pt_state \<Rightarrow> bool"
  for H storage batches where
  reach_refl: "pt_reachable H storage batches s s"
| reach_step: "\<lbrakk> pt_reachable H storage batches s s'; pt_step H storage batches s' s'' \<rbrakk> \<Longrightarrow>
     pt_reachable H storage batches s s''"

subsection \<open>Specification\<close>

text \<open>The L1 transactions of a list of blocks, the log of their hashes since genesis, and what
  is known of the chain: every block has a record, the priority ids are consecutive from zero,
  batches are contiguous ranges of blocks.\<close>

fun l1_txs :: "zk_envelope list \<Rightarrow> l1_tx list" where
  "l1_txs [] = []"
| "l1_txs (L1 l1 # txs) = l1 # l1_txs txs"
| "l1_txs (_ # txs) = l1_txs txs"

definition blocks_l1 :: "replay_storage \<Rightarrow> u64 list \<Rightarrow> l1_tx list" where
  "blocks_l1 storage bs =
     concat (map (\<lambda>b. case storage b of None \<Rightarrow> [] | Some r \<Rightarrow> l1_txs (rr_transactions r)) bs)"

definition l1_log :: "replay_storage \<Rightarrow> u64 \<Rightarrow> b256 list" where
  "l1_log storage b = map l1_hash (blocks_l1 storage [1..<b + 1])"

definition chain_wf :: "replay_storage \<Rightarrow> (u64 \<Rightarrow> u64 \<times> u64) \<Rightarrow> bool" where
  "chain_wf storage batches \<longleftrightarrow>
     (\<forall>b. storage b \<noteq> None) \<and>
     (\<forall>b. map priority_id (blocks_l1 storage [1..<b + 1]) = [0..<length (blocks_l1 storage [1..<b + 1])]) \<and>
     (\<forall>b. length (l1_log storage b) \<le> 2 ^ MAX_TREE_DEPTH) \<and>
     snd (batches 0) = 0 \<and>
     (\<forall>n. fst (batches (Suc n)) = snd (batches n) + 1 \<and> snd (batches n) \<le> snd (batches (Suc n)))"

text \<open>The on-chain check of a range proof: unlike the paths of the tree, the paths of the
  command carry a value at every level, of which only the ones on the outside are used.\<close>

fun range_root :: "('h \<Rightarrow> 'h \<Rightarrow> 'h) \<Rightarrow> nat \<Rightarrow> 'h list \<Rightarrow> 'h list \<Rightarrow> 'h list \<Rightarrow> 'h option" where
  "range_root c p hs (l # ls) (r # rs) =
     (let hs = (if even p then hs else l # hs);
          hs = (if even (length hs) then hs else hs @ [r])
      in range_root c (p div 2) (compress_level c hs) ls rs)"
| "range_root c p hs [] [] = get hs 0"
| "range_root c p hs _ _ = None"

definition event_ids :: "cache_event list \<Rightarrow> usize list" where
  "event_ids es = List.map_filter (\<lambda>(_, _, i). i) es"

definition db_inv :: "b256 hasher \<Rightarrow> replay_storage \<Rightarrow> priority_tree_db \<Rightarrow> bool" where
  "db_inv H storage db \<longleftrightarrow>
     (case db of None \<Rightarrow> True
      | Some (block, data) \<Rightarrow>
          \<exists>t n. mm_rep H t (l1_log storage n) \<and> block \<le> n \<and>
            mm_start_index t = length (l1_log storage block) \<and>
            data = \<lparr> ct_start_index = mm_start_index t, ct_cache = mm_cache t \<rparr>)"

definition pt_inv :: "b256 hasher \<Rightarrow> replay_storage \<Rightarrow> (u64 \<Rightarrow> u64 \<times> u64) \<Rightarrow> pt_state \<Rightarrow> bool" where
  "pt_inv H storage batches s \<longleftrightarrow>
     (let block = snd (batches (pt_last_processed_batch s)) in
      mm_rep H (pt_tree s) (l1_log storage block) \<and>
      sorted_wrt (<) (event_ids (pt_events s)) \<and>
      (\<forall>i \<in> set (event_ids (pt_events s)). mm_start_index (pt_tree s) \<le> i) \<and>
      (\<forall>(n, lb, i) \<in> set (pt_events s). lb \<le> block \<and> (\<forall>j. i = Some j \<longrightarrow> j + 1 = length (l1_log storage lb))) \<and>
      db_inv H storage (pt_db s) \<and>
      pt_last_executed_batch_on_init s \<le> pt_last_processed_batch s)"

subsection \<open>Collecting the transactions\<close>

lemma l1_txs_append: "l1_txs (xs @ ys) = l1_txs xs @ l1_txs ys"
  by (induction xs rule: l1_txs.induct) simp_all

lemma fold_push_l1_tx: "fold push_l1_tx txs t = fold push_hash (map l1_hash (l1_txs txs)) t"
  by (induction txs arbitrary: t rule: l1_txs.induct) (simp_all add: push_l1_tx_def)

lemma push_blocks_eq:
  "\<forall>b. storage b \<noteq> None \<Longrightarrow>
    push_blocks storage bs t = Some (fold push_hash (map l1_hash (blocks_l1 storage bs)) t)"
proof (induction bs arbitrary: t)
  case (Cons b bs)
  then obtain r where "storage b = Some r" by auto
  with Cons show ?case by (simp add: blocks_l1_def fold_push_l1_tx)
qed (simp add: blocks_l1_def)

definition first_id :: "usize option \<Rightarrow> l1_tx list \<Rightarrow> usize option" where
  "first_id i xs = (if i = None \<and> xs \<noteq> [] then Some (priority_id (hd xs)) else i)"

lemma first_id_append: "first_id (first_id i xs) ys = first_id i (xs @ ys)"
  by (auto simp: first_id_def)

definition collected :: "batch_data \<Rightarrow> l1_tx list \<Rightarrow> batch_data \<Rightarrow> bool" where
  "collected bd xs bd' \<longleftrightarrow>
     bd_priority_hashes bd' = bd_priority_hashes bd @ map l1_hash xs \<and>
     bd_priority_op_count bd' = bd_priority_op_count bd + length xs \<and>
     bd_first_priority_op_id bd' = first_id (bd_first_priority_op_id bd) xs"

lemma collected_trans: "collected a xs b \<Longrightarrow> collected b ys c \<Longrightarrow> collected a (xs @ ys) c"
  by (simp add: collected_def first_id_append)

lemma fold_collect_tx: "collected bd (l1_txs txs) (fold collect_tx txs bd)"
proof (induction txs arbitrary: bd)
  case (Cons tx txs)
  have "collected bd (l1_txs [tx]) (collect_tx tx bd)"
    by (cases tx) (auto simp: collected_def collect_tx_def first_id_def split: option.split)
  from collected_trans [OF this Cons.IH] show ?case
    by (cases tx) simp_all
qed (simp add: collected_def first_id_def)

lemma collect_blocks_eq:
  assumes "\<forall>b. storage b \<noteq> None"
  shows "\<exists>bd'. collect_blocks storage bs bd = Some bd' \<and> collected bd (blocks_l1 storage bs) bd'"
proof (induction bs arbitrary: bd)
  case (Cons b bs)
  from assms obtain r where r: "storage b = Some r" by auto
  from Cons.IH obtain bd' where
    bd': "collect_blocks storage bs (fold collect_tx (rr_transactions r) bd) = Some bd'"
      "collected (fold collect_tx (rr_transactions r) bd) (blocks_l1 storage bs) bd'" by blast
  with collected_trans [OF fold_collect_tx bd'(2)] r show ?case by (simp add: blocks_l1_def)
qed (simp add: collected_def first_id_def blocks_l1_def)

lemma blocks_l1_split:
  "a \<le> b \<Longrightarrow> blocks_l1 storage [1..<b + 1] = blocks_l1 storage [1..<a + 1] @ blocks_l1 storage [a + 1..<b + 1]"
  using upt_add_eq_append [of 1 "a + 1" "b - a"] by (simp add: blocks_l1_def flip: map_append concat_append)

lemma l1_log_split:
  "a \<le> b \<Longrightarrow> l1_log storage b = l1_log storage a @ map l1_hash (blocks_l1 storage [a + 1..<b + 1])"
  using blocks_l1_split [of a b storage] by (simp add: l1_log_def)

lemma first_id_batch:
  assumes "chain_wf storage batches" "a \<le> b" "blocks_l1 storage [a + 1..<b + 1] \<noteq> []"
  shows "priority_id (hd (blocks_l1 storage [a + 1..<b + 1])) = length (l1_log storage a)"
proof -
  let ?pre = "blocks_l1 storage [1..<a + 1]" and ?seg = "blocks_l1 storage [a + 1..<b + 1]"
  have "map priority_id (?pre @ ?seg) = [0..<length (?pre @ ?seg)]"
    using assms(1) unfolding chain_wf_def blocks_l1_split [OF assms(2), of storage, symmetric] by blast
  then have "map priority_id (?pre @ ?seg) ! length ?pre = length ?pre"
    using assms(3) by simp
  then show ?thesis using assms(3) by (simp add: nth_append hd_conv_nth l1_log_def)
qed

subsection \<open>The proof of a batch\<close>

lemma range_root_unwrapped:
  assumes "root_from_range c p hs lp rp = Some r" "\<And>x. u (Some x) = x"
  shows "range_root c p hs (map u lp) (map u rp) = Some r"
  using assms(1)
proof (induction c p hs lp rp rule: root_from_range.induct)
  case (1 c p hs l ls r' rs)
  then show ?case
    by (auto simp: assms(2) Let_def split: if_splits bind_splits)
qed simp_all

definition proves_range :: "b256 hasher \<Rightarrow> b256 list \<Rightarrow> b256 list \<Rightarrow> priority_ops_batch_info \<Rightarrow> bool" where
  "proves_range H log hs ops \<longleftrightarrow>
     po_item_hashes ops = hs \<and>
     (hs \<noteq> [] \<longrightarrow>
       range_root (compress H) (length log) (po_item_hashes ops) (po_left_path ops) (po_right_path ops) =
         Some (log_root H (log @ hs)))"

lemma hashes_range_suffix:
  assumes "mm_rep H t (log @ hs)" "mm_start_index t \<le> length log"
  shows "hashes_range t (length log - mm_start_index t) (length log - mm_start_index t + length hs) = Some hs"
proof -
  from assms(1) obtain d where "represents (compress H) d t (log @ hs)" by (auto simp: mm_rep_def)
  then have "mm_hashes t = drop (mm_start_index t) (log @ hs)" by (rule representsD(6))
  with assms(2) show ?thesis by (simp add: hashes_range_def assert_that_def diff_le_mono)
qed

lemma process_batch_data_proves:
  assumes rep: "mm_rep H t log" and cap: "length (log @ map l1_hash xs) \<le> 2 ^ MAX_TREE_DEPTH"
    and bd: "collected batch_data_empty xs bd"
    and first: "xs \<noteq> [] \<Longrightarrow> priority_id (hd xs) = length log"
  shows "\<exists>t' ops. process_batch_data H bd t = Some (t', ops) \<and> mm_rep H t' (log @ map l1_hash xs) \<and>
    mm_start_index t' = mm_start_index t \<and> proves_range H log (map l1_hash xs) ops"
proof -
  let ?hs = "map l1_hash xs"
  define t' where "t' = fold push_hash ?hs t"
  have bd': "bd_priority_hashes bd = ?hs" "bd_priority_op_count bd = length xs"
    "bd_first_priority_op_id bd = (if xs = [] then None else Some (priority_id (hd xs)))"
    using bd by (auto simp: collected_def batch_data_empty_def first_id_def)
  have rep': "mm_rep H t' (log @ ?hs)" unfolding t'_def by (rule mm.push_all_rep [OF rep cap])
  have start: "mm_start_index t' = mm_start_index t" unfolding t'_def by (rule mm.push_all_start)
  have le: "mm_start_index t' \<le> length log" using mm.start_le [OF rep] start by simp
  show ?thesis
  proof (cases "xs = []")
    case True
    with bd' rep show ?thesis
      by (auto simp: process_batch_data_def Let_def proves_range_def priority_ops_default_def)
  next
    case False
    from rep' obtain d where d: "represents (compress H) d t' (log @ ?hs)"
      "log_root H (log @ ?hs) = reference_root (compress H) (effective_empty_leaf t') d (log @ ?hs)"
      by (rule mm_rep_represents)
    have r: "length log < length log + length xs" "length log + length xs \<le> length (log @ ?hs)"
      using False by simp_all
    from paths_for_range_represents [OF d(1) le r] obtain lp rp where
      p: "merkle_root_and_paths_for_range (compress H) t' (length log - mm_start_index t')
           (length log + length xs - mm_start_index t') = Some (log_root H (log @ ?hs), lp, rp)"
        "root_from_range (compress H) (length log) (take (length xs) (drop (length log) (log @ ?hs))) lp rp =
           Some (log_root H (log @ ?hs))"
      unfolding d(2) by auto
    have "range_root (compress H) (length log) ?hs (map unwrap_or_zero lp) (map unwrap_or_zero rp) =
        Some (log_root H (log @ ?hs))"
      using range_root_unwrapped [OF p(2), of unwrap_or_zero] by (simp add: unwrap_or_zero_def)
    moreover have "length log + length xs - mm_start_index t' = length log - mm_start_index t' + length xs"
      using le by simp
    ultimately show ?thesis
      using p(1) bd' False first rep' start le hashes_range_suffix [OF rep' le]
      by (auto simp: process_batch_data_def t'_def [symmetric] Let_def proves_range_def)
  qed
qed

subsection \<open>The invariant\<close>

lemma event_ids_append: "event_ids (es @ [(n, lb, i)]) = event_ids es @ (case i of None \<Rightarrow> [] | Some j \<Rightarrow> [j])"
  by (simp add: event_ids_def List.map_filter_def split: option.split)

lemma event_ids_Cons: "event_ids ((n, lb, i) # es) = (case i of None \<Rightarrow> event_ids es | Some j \<Rightarrow> j # event_ids es)"
  by (simp add: event_ids_def split: option.split)

lemma event_id_bound:
  assumes "pt_inv H storage batches s" "i \<in> set (event_ids (pt_events s))"
  shows "i < length (l1_log storage (snd (batches (pt_last_processed_batch s))))"
proof -
  from assms(2) obtain n lb where e: "(n, lb, Some i) \<in> set (pt_events s)"
    by (force simp: event_ids_def List.map_filter_def)
  with assms(1) have "lb \<le> snd (batches (pt_last_processed_batch s))" "i + 1 = length (l1_log storage lb)"
    by (auto simp: pt_inv_def Let_def)
  with l1_log_split [of lb "snd (batches (pt_last_processed_batch s))" storage] show ?thesis by simp
qed

lemma pt_inv_extend:
  assumes inv: "pt_inv H storage batches s" and rep: "mm_rep H t (l1_log storage (snd (batches n)))"
    and start: "mm_start_index t = mm_start_index (pt_tree s)"
    and le: "snd (batches (pt_last_processed_batch s)) \<le> snd (batches n)" "pt_last_processed_batch s \<le> n"
    and i: "i = None \<or> i = Some (length (l1_log storage (snd (batches n))) - 1) \<and>
      length (l1_log storage (snd (batches (pt_last_processed_batch s)))) < length (l1_log storage (snd (batches n)))"
  shows "pt_inv H storage batches (s \<lparr> pt_tree := t, pt_events := pt_events s @ [(n, snd (batches n), i)],
    pt_commands := cmds, pt_last_processed_batch := n \<rparr>)"
proof -
  note bound = event_id_bound [OF inv]
  have "mm_start_index t \<le> length (l1_log storage (snd (batches (pt_last_processed_batch s))))"
    unfolding start by (rule mm.start_le) (use inv in \<open>auto simp: pt_inv_def Let_def\<close>)
  with i have "sorted_wrt (<) (event_ids (pt_events s @ [(n, snd (batches n), i)]))"
    "\<forall>j \<in> set (event_ids (pt_events s @ [(n, snd (batches n), i)])). mm_start_index t \<le> j"
    using inv bound start by (fastforce simp: event_ids_append sorted_wrt_append pt_inv_def Let_def)+
  with inv rep le i show ?thesis by (fastforce simp: pt_inv_def Let_def)
qed

lemma process_batch_step:
  assumes wf: "chain_wf storage batches" and inv: "pt_inv H storage batches s"
    and n: "n = pt_last_processed_batch s + 1"
    and b: "b = \<lparr> ptb_number = n, ptb_first_block = fst (batches n), ptb_last_block = snd (batches n) \<rparr>"
  shows "\<exists>s' ops roots. process_batch H storage main b s = Some s' \<and> pt_inv H storage batches s' \<and>
    pt_last_processed_batch s' = n \<and>
    pt_last_executed_batch_on_init s' = pt_last_executed_batch_on_init s \<and>
    pt_commands s' = pt_commands s @ (if main then [SendToL1 b ops roots] else []) \<and>
    proves_range H (l1_log storage (snd (batches (n - 1))))
      (map l1_hash (blocks_l1 storage [fst (batches n)..<snd (batches n) + 1])) ops"
proof -
  let ?a = "snd (batches (pt_last_processed_batch s))" and ?b = "snd (batches n)"
  let ?xs = "blocks_l1 storage [?a + 1..<?b + 1]"
  have ab: "fst (batches n) = ?a + 1" "?a \<le> ?b" using wf n by (auto simp: chain_wf_def)
  have rep: "mm_rep H (pt_tree s) (l1_log storage ?a)" using inv by (simp add: pt_inv_def Let_def)
  note log = l1_log_split [OF ab(2), of storage]
  have cap: "length (l1_log storage ?a @ map l1_hash ?xs) \<le> 2 ^ MAX_TREE_DEPTH"
    using wf log unfolding chain_wf_def by metis
  have "\<forall>b. storage b \<noteq> None" using wf by (simp add: chain_wf_def)
  from collect_blocks_eq [OF this] obtain bd where
    bd: "collect_blocks storage [?a + 1..<?b + 1] batch_data_empty = Some bd" "collected batch_data_empty ?xs bd"
    by blast
  from process_batch_data_proves [OF rep cap bd(2) first_id_batch [OF wf ab(2)]] obtain t' ops where
    t': "process_batch_data H bd (pt_tree s) = Some (t', ops)"
      "mm_rep H t' (l1_log storage ?b)" "mm_start_index t' = mm_start_index (pt_tree s)"
      "proves_range H (l1_log storage ?a) (map l1_hash ?xs) ops"
    unfolding log by blast
  let ?e = "(n, ?b, map_option (\<lambda>i. i + bd_priority_op_count bd - 1) (bd_first_priority_op_id bd))"
  let ?s = "s \<lparr> pt_tree := t', pt_events := pt_events s @ [?e],
      pt_commands := (if main then pt_commands s @ [SendToL1 b ops (bd_interop_roots bd)] else pt_commands s),
      pt_last_processed_batch := n \<rparr>"
  have "process_batch H storage main b s = Some ?s"
    using bd(1) t'(1) by (simp add: process_batch_def b ab(1) Let_def)
  moreover have "bd_first_priority_op_id bd = (if ?xs = [] then None else Some (length (l1_log storage ?a)))"
    "bd_priority_op_count bd = length ?xs"
    using bd(2) first_id_batch [OF wf ab(2)] by (auto simp: collected_def batch_data_empty_def first_id_def)
  then have e: "?e = (n, ?b, if ?xs = [] then None else Some (length (l1_log storage ?b) - 1))"
    using log by simp
  have "length (l1_log storage ?b) = length (l1_log storage ?a) + length ?xs" using log by simp
  then have "pt_inv H storage batches ?s"
    unfolding e by (intro pt_inv_extend [OF inv t'(2,3) ab(2)]) (auto simp: n)
  ultimately show ?thesis using t'(4) ab(1) n by (intro exI [of _ ?s] exI [of _ ops]) auto
qed

lemma keep_caching_step:
  assumes inv: "pt_inv H storage batches s" and ev: "pt_events s = (n, lb, i) # es"
    and fin: "lb \<le> fs_last_finalized_executed_block finality"
  shows "\<exists>s'. keep_caching H finality s = Some s' \<and> pt_inv H storage batches s' \<and>
    merkle_root (compress H) (pt_tree s') = merkle_root (compress H) (pt_tree s)"
proof (cases i)
  case None
  with inv ev fin show ?thesis
    by (auto simp: keep_caching_def Let_def pt_inv_def event_ids_Cons)
next
  case (Some j)
  let ?t = "pt_tree s" and ?log = "l1_log storage (snd (batches (pt_last_processed_batch s)))"
  have rep: "mm_rep H ?t ?log" using inv by (simp add: pt_inv_def Let_def)
  have j: "mm_start_index ?t \<le> j" "j + 1 = length (l1_log storage lb)" "lb \<le> snd (batches (pt_last_processed_batch s))"
    and later: "\<forall>k \<in> set (event_ids es). j < k" and sorted: "sorted_wrt (<) (event_ids es)"
    using inv ev Some by (auto simp: pt_inv_def Let_def event_ids_Cons)
  have "j < length ?log" using event_id_bound [OF inv, of j] ev Some by (simp add: event_ids_Cons)
  then have n: "0 < j + 1 - mm_start_index ?t" "mm_start_index ?t + (j + 1 - mm_start_index ?t) \<le> length ?log"
    using j(1) by simp_all
  from mm.trim_rep [OF rep n] obtain t' where
    t': "trim_start (compress H) (j + 1 - mm_start_index ?t) ?t = Some t'" "mm_rep H t' ?log"
      "mm_start_index t' = j + 1" using j(1) by auto
  let ?s = "s \<lparr> pt_events := es, pt_tree := t', pt_db := cache_tree t' lb \<rparr>"
  have "keep_caching H finality s = Some ?s"
    using ev Some fin j(1) t'(1) by (simp add: keep_caching_def Let_def)
  moreover have "db_inv H storage (cache_tree t' lb)"
    unfolding db_inv_def cache_tree_def option.case prod.case
    by (intro exI [of _ t'] exI [of _ "snd (batches (pt_last_processed_batch s))"])
      (use t'(2,3) j(2,3) in simp)
  then have "pt_inv H storage batches ?s"
    using inv ev t'(2,3) later sorted by (auto simp: pt_inv_def Let_def)
  ultimately show ?thesis using mm.same_leaves_same_root [OF t'(2) rep] by auto
qed

lemma init_tree_rep:
  assumes "db_inv H storage db" "case db of None \<Rightarrow> True | Some (block, _) \<Rightarrow> block \<le> m"
  shows "\<exists>block t. init_tree H db = Some (block, t) \<and> mm_rep H t (l1_log storage block) \<and> block \<le> m"
proof (cases db)
  case None
  with mm_rep_empty [of H] show ?thesis
    by (fastforce simp: init_tree_def l1_log_def blocks_l1_def)
next
  case (Some d)
  obtain block data where d: "d = (block, data)" by (cases d)
  with Some assms obtain t n where
    t: "mm_rep H t (l1_log storage n)" "block \<le> n" "mm_start_index t = length (l1_log storage block)"
      "data = \<lparr> ct_start_index = mm_start_index t, ct_cache = mm_cache t \<rparr>"
    by (auto simp: db_inv_def)
  have "take (mm_start_index t) (l1_log storage n) = l1_log storage block"
    using l1_log_split [OF t(2), of storage] t(3) by simp
  with mm_rep_init_cached [OF t(1)] t(4) Some d assms(2) show ?thesis
    by (auto simp: init_tree_def)
qed

lemma pt_init_inv:
  assumes wf: "chain_wf storage batches" and db: "db_inv H storage db"
    and fin: "fs_last_executed_block finality = snd (batches (fs_last_executed_batch finality))"
    and le: "case db of None \<Rightarrow> True | Some (block, _) \<Rightarrow> block \<le> fs_last_executed_block finality"
  shows "\<exists>s. pt_init H storage db finality = Some s \<and> pt_inv H storage batches s \<and>
    pt_last_processed_batch s = fs_last_executed_batch finality"
proof -
  let ?last = "fs_last_executed_block finality"
  from init_tree_rep [OF db le] obtain block t where
    t: "init_tree H db = Some (block, t)" "mm_rep H t (l1_log storage block)" "block \<le> ?last" by blast
  define t' where "t' = fold push_hash (map l1_hash (blocks_l1 storage [block + 1..<?last + 1])) t"
  have all: "\<forall>b. storage b \<noteq> None" using wf by (simp add: chain_wf_def)
  have cap: "length (l1_log storage ?last) \<le> 2 ^ MAX_TREE_DEPTH" using wf by (simp add: chain_wf_def)
  have "mm_rep H t' (l1_log storage ?last)"
    using mm.push_all_rep [OF t(2)] cap l1_log_split [OF t(3), of storage] by (simp add: t'_def)
  moreover have "pt_init H storage db finality = Some \<lparr> pt_tree = t', pt_db = db,
      pt_last_executed_batch_on_init = fs_last_executed_batch finality,
      pt_last_processed_batch = fs_last_executed_batch finality, pt_events = [], pt_commands = [] \<rparr>"
    by (simp add: pt_init_def t(1) push_blocks_eq [OF all] t'_def)
  ultimately show ?thesis using db fin by (simp add: pt_inv_def event_ids_def Let_def)
qed

lemma pt_step_inv:
  assumes wf: "chain_wf storage batches" and step: "pt_step H storage batches s s'"
    and inv: "pt_inv H storage batches s"
  shows "pt_inv H storage batches s'"
  using step
proof cases
  case (main_node b n)
  show ?thesis
  proof (cases "ptb_number b \<le> pt_last_executed_batch_on_init s")
    case True
    with main_node inv show ?thesis by (auto simp: prepare_main_node_def pt_inv_def)
  next
    case False
    with main_node have "n = pt_last_processed_batch s + 1" "process_batch H storage True b s = Some s'"
      by (auto simp: prepare_main_node_def split: bind_splits)
    with process_batch_step [OF wf inv this(1) main_node(1), of True] show ?thesis by auto
  qed
next
  case (external_node finality)
  then have "process_batch H storage False \<lparr> ptb_number = pt_last_processed_batch s + 1,
      ptb_first_block = fst (batches (pt_last_processed_batch s + 1)),
      ptb_last_block = snd (batches (pt_last_processed_batch s + 1)) \<rparr> s = Some s'"
    by (auto simp: prepare_external_node_def Let_def split: bind_splits prod.splits)
  with process_batch_step [OF wf inv refl refl, of False] show ?thesis by auto
next
  case (caching finality)
  then obtain n lb i es where e: "pt_events s = (n, lb, i) # es"
    by (auto simp: keep_caching_def split: list.splits)
  with caching have "lb \<le> fs_last_finalized_executed_block finality"
    by (auto simp: keep_caching_def split: bind_splits)
  from keep_caching_step [OF inv e this] caching show ?thesis by auto
next
  case (restart finality)
  have "db_inv H storage (pt_db s)" using inv by (simp add: pt_inv_def Let_def)
  from pt_init_inv [OF wf this restart(2,3)] restart(1) show ?thesis by auto
qed

lemma pt_reachable_inv:
  assumes "pt_reachable H storage batches s s'" "chain_wf storage batches" "pt_inv H storage batches s"
  shows "pt_inv H storage batches s'"
  using assms by induction (auto intro: pt_step_inv)

lemma pt_fresh_inv:
  assumes "chain_wf storage batches"
    "fs_last_executed_block finality = snd (batches (fs_last_executed_batch finality))"
    "pt_init H storage None finality = Some s0"
  shows "pt_inv H storage batches s0"
  using pt_init_inv [of storage batches H None finality] assms by (simp add: db_inv_def)

subsection \<open>Properties\<close>

text \<open>A chain whose only L1 transaction is in block 1, with one block per batch.\<close>

definition sample_l1 :: l1_tx where
  "sample_l1 = \<lparr> l1_hash = [1, 2], l1_initiator = [], l1_gas_limit = 0, l1_nonce = 0 \<rparr>"

definition sample_cursors :: block_start_cursors where
  "sample_cursors = \<lparr> l1_priority_id = 0, interop_root_id = 0, migration_number = 0, interop_fee_number = 0 \<rparr>"

definition sample_context :: "u64 \<Rightarrow> block_context" where
  "sample_context b = \<lparr> bc_chain_id = 1, bc_block_number = b, bc_block_hashes = [], bc_timestamp = b,
     bc_eip1559_basefee = 1, bc_pubdata_price = 1, bc_native_price = 1, bc_coinbase = [], bc_gas_limit = 100,
     bc_pubdata_limit = 100, bc_mix_hash = 0, bc_execution_version = 5, bc_blob_fee = 0 \<rparr>"

definition sample_storage :: replay_storage where
  "sample_storage b = Some \<lparr> rr_block_context = sample_context b,
     rr_transactions = (if b = 1 then [L1 sample_l1] else []), rr_previous_block_timestamp = 0,
     rr_node_version = (0, 0, 0), rr_protocol_version = ProtocolSemanticVersion 0 30 1,
     rr_block_output_hash = [], rr_force_preimages = [], rr_starting_cursors = sample_cursors \<rparr>"

definition sample_batches :: "u64 \<Rightarrow> u64 \<times> u64" where
  "sample_batches n = (n, n)"

definition sample_finality :: finality_status where
  "sample_finality = \<lparr> fs_last_committed_block = 0, fs_last_committed_batch = 0, fs_last_executed_block = 0,
     fs_last_executed_batch = 0, fs_last_finalized_executed_block = 0, fs_last_finalized_executed_batch = 0 \<rparr>"

definition sample_priority_hasher :: "b256 hasher" where
  "sample_priority_hasher = priority_hasher (\<lambda>bs. take 4 (rev bs))"

lemma sample_blocks_l1: "blocks_l1 sample_storage [1..<b + 1] = (if b = 0 then [] else [sample_l1])"
proof (induction b)
  case (Suc b)
  have "blocks_l1 sample_storage [1..<Suc b + 1] = blocks_l1 sample_storage [1..<b + 1] @ blocks_l1 sample_storage [Suc b]"
    by (simp add: blocks_l1_def)
  with Suc show ?case by (simp add: blocks_l1_def sample_storage_def)
qed (simp add: blocks_l1_def)

lemma sample_chain_wf: "chain_wf sample_storage sample_batches"
proof -
  have "sample_storage b \<noteq> None" for b by (simp add: sample_storage_def)
  moreover have "length (l1_log sample_storage b) \<le> 2 ^ MAX_TREE_DEPTH" for b
    unfolding l1_log_def sample_blocks_l1 by simp
  ultimately show ?thesis
    unfolding chain_wf_def sample_blocks_l1 by (simp add: sample_l1_def priority_id_def sample_batches_def)
qed

lemma sample_finality_batch:
  "fs_last_executed_block sample_finality = snd (sample_batches (fs_last_executed_batch sample_finality))"
  by (simp add: sample_finality_def sample_batches_def)

lemma sample_pt_init:
  "\<exists>s. pt_init H sample_storage None sample_finality = Some s \<and> pt_last_processed_batch s = 0 \<and>
    pt_commands s = [] \<and> pt_db s = None"
proof -
  from mm_rep_empty [of H] obtain t where "from_hashes H [] None = Some t" by blast
  then show ?thesis by (simp add: pt_init_def init_tree_def sample_finality_def)
qed

text \<open>C10.  In every state the manager reaches from an empty database, through any interleaving
  of batch processing, caching and restarts, it processes the next proved batch without panicking,
  and the execute command it sends carries exactly the L1 transaction hashes of the batch and
  paths with which a verifier obtains the root over all L1 transactions up to that batch.\<close>

theorem execute_command_proves_batch:
  assumes "chain_wf storage batches"
    "fs_last_executed_block finality = snd (batches (fs_last_executed_batch finality))"
    "pt_init H storage None finality = Some s0" "pt_reachable H storage batches s0 s"
    "n = pt_last_processed_batch s + 1"
    "b = \<lparr> ptb_number = n, ptb_first_block = fst (batches n), ptb_last_block = snd (batches n) \<rparr>"
  shows "\<exists>s' ops roots. prepare_main_node H storage b s = Some s' \<and>
    pt_commands s' = pt_commands s @ [SendToL1 b ops roots] \<and>
    po_item_hashes ops = map l1_hash (blocks_l1 storage [fst (batches n)..<snd (batches n) + 1]) \<and>
    (po_item_hashes ops \<noteq> [] \<longrightarrow>
      range_root (compress H) (length (l1_log storage (snd (batches (n - 1)))))
        (po_item_hashes ops) (po_left_path ops) (po_right_path ops) =
      Some (log_root H (l1_log storage (snd (batches n)))))"
proof -
  have inv: "pt_inv H storage batches s"
    using pt_reachable_inv [OF assms(4,1)] pt_fresh_inv [OF assms(1-3)] .
  have "\<not> ptb_number b \<le> pt_last_executed_batch_on_init s"
    using inv assms(5,6) by (simp add: pt_inv_def Let_def)
  then have "prepare_main_node H storage b s = process_batch H storage True b s"
    using assms(5,6) by (simp add: prepare_main_node_def)
  moreover have "fst (batches n) = snd (batches (n - 1)) + 1" "snd (batches (n - 1)) \<le> snd (batches n)"
    using assms(1,5) by (auto simp: chain_wf_def)
  then have "l1_log storage (snd (batches n)) = l1_log storage (snd (batches (n - 1))) @
      map l1_hash (blocks_l1 storage [fst (batches n)..<snd (batches n) + 1])"
    using l1_log_split [of "snd (batches (n - 1))" "snd (batches n)" storage] by simp
  ultimately show ?thesis
    using process_batch_step [OF assms(1) inv assms(5,6), of True] by (auto simp: proves_range_def)
qed

theorem execute_command_proves_batch_witness:
  "\<exists>s s' ops roots. pt_init sample_priority_hasher sample_storage None sample_finality = Some s \<and>
    prepare_main_node sample_priority_hasher sample_storage
      \<lparr> ptb_number = 1, ptb_first_block = 1, ptb_last_block = 1 \<rparr> s = Some s' \<and>
    pt_commands s' = [SendToL1 \<lparr> ptb_number = 1, ptb_first_block = 1, ptb_last_block = 1 \<rparr> ops roots] \<and>
    po_item_hashes ops = [[1, 2]] \<and>
    range_root (compress sample_priority_hasher) 0 [[1, 2]] (po_left_path ops) (po_right_path ops) =
      Some (log_root sample_priority_hasher [[1, 2]])"
proof -
  from sample_pt_init obtain s where
    s: "pt_init sample_priority_hasher sample_storage None sample_finality = Some s"
      "pt_last_processed_batch s = 0" "pt_commands s = []" by blast
  have l1: "blocks_l1 sample_storage [Suc 0] = [sample_l1]" "blocks_l1 sample_storage [] = []"
    by (simp_all add: blocks_l1_def sample_storage_def)
  from execute_command_proves_batch [OF sample_chain_wf sample_finality_batch s(1) reach_refl refl refl]
  show ?thesis using s by (auto simp: sample_batches_def l1_log_def l1 sample_l1_def)
qed

text \<open>C30.  A restart is transparent: after the node is brought up again from its database, the
  root of its tree is the root over all L1 transactions of the blocks executed so far, whatever
  was persisted.\<close>

theorem restart_rebuilds_root:
  assumes "chain_wf storage batches"
    "fs_last_executed_block finality = snd (batches (fs_last_executed_batch finality))"
    "pt_init H storage None finality = Some s0" "pt_reachable H storage batches s0 s"
    "fs_last_executed_block finality' = snd (batches (fs_last_executed_batch finality'))"
    "case pt_db s of None \<Rightarrow> True | Some (block, _) \<Rightarrow> block \<le> fs_last_executed_block finality'"
  shows "\<exists>s'. pt_init H storage (pt_db s) finality' = Some s' \<and>
    merkle_root (compress H) (pt_tree s') = Some (log_root H (l1_log storage (fs_last_executed_block finality')))"
proof -
  have "pt_inv H storage batches s"
    using pt_reachable_inv [OF assms(4,1)] pt_fresh_inv [OF assms(1-3)] .
  then have "db_inv H storage (pt_db s)" by (simp add: pt_inv_def Let_def)
  from pt_init_inv [OF assms(1) this assms(5,6)] obtain s' where
    s': "pt_init H storage (pt_db s) finality' = Some s'" "pt_inv H storage batches s'"
      "pt_last_processed_batch s' = fs_last_executed_batch finality'" by blast
  then have "mm_rep H (pt_tree s') (l1_log storage (fs_last_executed_block finality'))"
    using assms(5) by (simp add: pt_inv_def Let_def)
  with s'(1) mm.root_rep show ?thesis by blast
qed

theorem restart_rebuilds_root_witness:
  "\<exists>s. pt_init sample_priority_hasher sample_storage None (sample_finality \<lparr> fs_last_executed_block := 3, fs_last_executed_batch := 3 \<rparr>) = Some s \<and>
    merkle_root (compress sample_priority_hasher) (pt_tree s) = Some (log_root sample_priority_hasher [[1, 2]])"
proof -
  from sample_pt_init obtain s where
    s: "pt_init sample_priority_hasher sample_storage None sample_finality = Some s" "pt_db s = None" by blast
  have "l1_log sample_storage 3 = [[1, 2]]"
    unfolding l1_log_def sample_blocks_l1 by (simp add: sample_l1_def)
  with restart_rebuilds_root [OF sample_chain_wf sample_finality_batch s(1) reach_refl,
      of "sample_finality \<lparr> fs_last_executed_block := 3, fs_last_executed_batch := 3 \<rparr>"] s(2)
  show ?thesis by (auto simp: sample_batches_def)
qed

end
