(* ===== verification/BatchInfo.thy ===== *)
theory BatchInfo
  imports Types MiniMerkle
begin

text \<open>
  What a batch commits to on the settlement layer: \<open>lib/batch_types/src/batch_info.rs\<close>, which
  builds the commit data of a batch from its blocks; the contract structures and calldata of
  \<open>lib/contract_interface/src/models.rs\<close> and \<open>calldata.rs\<close>; and the wire format of the
  verification protocol, \<open>lib/batch_verification/src/verify_batch_wire.rs\<close>.

  The hash functions, the Solidity encodings and the blob builder are external.  They are the
  fields of the records \<open>externals\<close> and \<open>abi\<close>, which every definition that uses them takes as its
  first argument.  A \<open>U256\<close> is a natural number; \<open>.to::<u64>()\<close> panics when it does not fit.
\<close>

subsection \<open>Block outputs and logs\<close>

datatype block_pubdata = PubdataBytes "byte list" | PubdataLength u64

definition pubdata_used :: "block_pubdata \<Rightarrow> u64" where
  "pubdata_used p = (case p of PubdataBytes bytes \<Rightarrow> length bytes | PubdataLength len \<Rightarrow> len)"

definition pubdata_bytes :: "block_pubdata \<Rightarrow> byte list option" where
  "pubdata_bytes p = (case p of PubdataBytes bytes \<Rightarrow> Some bytes | PubdataLength _ \<Rightarrow> None)"

text \<open>\<open>expect_bytes\<close> panics on length-only pubdata.\<close>

definition expect_bytes :: "block_pubdata \<Rightarrow> byte list option" where
  "expect_bytes p = (case p of PubdataBytes bytes \<Rightarrow> Some bytes | PubdataLength _ \<Rightarrow> None)"

record l2_to_l1_log =
  lg_l2_shard_id :: byte
  lg_is_service :: bool
  lg_tx_number_in_block :: nat
  lg_sender :: address
  lg_key :: b256
  lg_value :: b256

text \<open>\<open>to_be_bytes\<close> of an unsigned integer of \<open>w\<close> bytes.\<close>

primrec be_bytes :: "nat \<Rightarrow> nat \<Rightarrow> byte list" where
  "be_bytes 0 n = []"
| "be_bytes (Suc w) n = be_bytes w (n div 256) @ [of_nat n]"

definition L2_TO_L1_LOG_SERIALIZE_SIZE :: usize where
  "L2_TO_L1_LOG_SERIALIZE_SIZE = 88"

definition L2_TO_L1_TREE_SIZE :: usize where
  "L2_TO_L1_TREE_SIZE = 16384"

definition log_encode :: "l2_to_l1_log \<Rightarrow> byte list" where
  "log_encode l = [lg_l2_shard_id l] @ [if lg_is_service l then 1 else 0] @ be_bytes 2 (lg_tx_number_in_block l) @
     lg_sender l @ lg_key l @ lg_value l"

record block_header =
  bh_number :: u64
  bh_timestamp :: u64
  bh_hash :: b256

datatype invalid_transaction = InvalidTransaction string

text \<open>Of a transaction output only the logs matter here.\<close>

record block_output =
  bo_header :: block_header
  bo_tx_results :: "(invalid_transaction + l2_to_l1_log list) list"
  bo_pubdata :: block_pubdata
  bo_computational_native_used :: u64

record tree_batch_output =
  to_root_hash :: b256
  to_leaf_count :: u64

subsection \<open>External functions\<close>

datatype sol_value = SolUint64 nat | SolUint256 nat | SolBytes32 b256 | SolBytes32Array "b256 list"

record blob_transaction_sidecar =
  sc_blobs :: "byte list list"
  sc_commitments :: "byte list list"
  sc_proofs :: "byte list list"

record externals =
  ex_keccak256 :: "byte list \<Rightarrow> b256"
  ex_blake2s :: "byte list \<Rightarrow> b256"
  ex_encode_packed :: "sol_value list \<Rightarrow> byte list"
  ex_build_sidecar :: "byte list \<Rightarrow> blob_transaction_sidecar option"
  ex_versioned_hashes :: "blob_transaction_sidecar \<Rightarrow> b256 list"

definition B256_ZERO :: b256 where
  "B256_ZERO = replicate 32 0"

subsection \<open>Commit data\<close>

datatype da_commitment_scheme =
    SchemeNone | EmptyNoDA | PubdataKeccak256 | BlobsAndPubdataKeccak256 | BlobsZKsyncOS

definition scheme_as_u8 :: "da_commitment_scheme \<Rightarrow> nat" where
  "scheme_as_u8 s =
     (case s of SchemeNone \<Rightarrow> 0 | EmptyNoDA \<Rightarrow> 1 | PubdataKeccak256 \<Rightarrow> 2 | BlobsAndPubdataKeccak256 \<Rightarrow> 3
      | BlobsZKsyncOS \<Rightarrow> 4)"

definition da_commitment_scheme_of :: "pubdata_mode \<Rightarrow> da_commitment_scheme" where
  "da_commitment_scheme_of m =
     (case m of Blobs \<Rightarrow> BlobsZKsyncOS | Calldata \<Rightarrow> BlobsAndPubdataKeccak256 | Validium \<Rightarrow> EmptyNoDA)"

definition pubdata_mode_from_u8 :: "nat \<Rightarrow> pubdata_mode option" where
  "pubdata_mode_from_u8 v =
     (if v = 0 then Some Blobs else if v = 1 then Some Calldata else if v = 2 then Some Validium else None)"

definition pubdata_mode_to_u8 :: "pubdata_mode \<Rightarrow> nat" where
  "pubdata_mode_to_u8 m = (case m of Blobs \<Rightarrow> 0 | Calldata \<Rightarrow> 1 | Validium \<Rightarrow> 2)"

record commit_batch_info =
  ci_batch_number :: u64
  ci_new_state_commitment :: b256
  ci_number_of_layer1_txs :: u64
  ci_number_of_layer2_txs :: u64
  ci_priority_operations_hash :: b256
  ci_dependency_roots_rolling_hash :: b256
  ci_l2_to_l1_logs_root_hash :: b256
  ci_l2_da_commitment_scheme :: da_commitment_scheme
  ci_da_commitment :: b256
  ci_first_block_timestamp :: u64
  ci_first_block_number :: "u64 option"
  ci_last_block_timestamp :: u64
  ci_last_block_number :: "u64 option"
  ci_chain_id :: u64
  ci_operator_da_input :: "byte list"
  ci_sl_chain_id :: u64

record pending_batch_info =
  pb_commit_info :: commit_batch_info
  pb_upgrade_tx_hash :: "b256 option"
  pb_protocol_version :: protocol_semantic_version

record canonical_batch_commit_data =
  cb_first_block_number :: u64
  cb_last_block_number :: u64
  cb_first_block_timestamp :: u64
  cb_last_block_timestamp :: u64
  cb_new_state_commitment :: b256
  cb_da_commitment :: b256
  cb_number_of_layer1_txs :: u64
  cb_number_of_layer2_txs :: u64
  cb_priority_operations_hash :: b256
  cb_dependency_roots_rolling_hash :: b256
  cb_l2_to_l1_logs_root_hash :: b256
  cb_upgrade_tx_hash :: "b256 option"
  cb_chain_id :: u64
  cb_sl_chain_id :: u64
  cb_pubdata :: "byte list"

record stored_batch_info =
  si_batch_number :: u64
  si_state_commitment :: b256
  si_number_of_layer1_txs :: u64
  si_priority_operations_hash :: b256
  si_dependency_roots_rolling_hash :: b256
  si_l2_to_l1_logs_root_hash :: b256
  si_commitment :: b256
  si_last_block_timestamp :: "u64 option"

text \<open>\<open>PartialEq\<close> skips \<open>last_block_timestamp\<close>.\<close>

definition stored_batch_info_eq :: "stored_batch_info \<Rightarrow> stored_batch_info \<Rightarrow> bool" where
  "stored_batch_info_eq a b \<longleftrightarrow>
     si_batch_number a = si_batch_number b \<and> si_state_commitment a = si_state_commitment b \<and>
     si_number_of_layer1_txs a = si_number_of_layer1_txs b \<and>
     si_priority_operations_hash a = si_priority_operations_hash b \<and>
     si_dependency_roots_rolling_hash a = si_dependency_roots_rolling_hash b \<and>
     si_l2_to_l1_logs_root_hash a = si_l2_to_l1_logs_root_hash b \<and> si_commitment a = si_commitment b"

record committed_batch_info =
  cm_commit_info :: commit_batch_info
  cm_commitment :: b256

subsection \<open>Data availability\<close>

record da_fields =
  da_da_commitment :: b256
  da_operator_da_input :: "byte list"
  da_blob_sidecar :: "blob_transaction_sidecar option"

definition PUBDATA_SOURCE_CALLDATA :: byte where
  "PUBDATA_SOURCE_CALLDATA = 0"

text \<open>The test for \<open>Validium\<close> inside the \<open>Calldata\<close> arm is never taken.  \<^term>\<open>None\<close> is a failure to
  build the blobs, which panics.\<close>

definition calculate_da_fields :: "externals \<Rightarrow> byte list \<Rightarrow> pubdata_mode \<Rightarrow> da_fields option" where
  "calculate_da_fields ex pubdata pubdata_mode =
     (case pubdata_mode of
        Calldata \<Rightarrow>
          (let header = B256_ZERO @ ex_keccak256 ex pubdata @ [1] @ B256_ZERO;
               operator_da_input = header @ [PUBDATA_SOURCE_CALLDATA] @ pubdata @ B256_ZERO
           in Some \<lparr> da_da_commitment = ex_keccak256 ex header,
                da_operator_da_input =
                  (if pubdata_mode = Validium then replicate 32 0 else operator_da_input),
                da_blob_sidecar = None \<rparr>)
      | Validium \<Rightarrow>
          Some \<lparr> da_da_commitment = B256_ZERO, da_operator_da_input = replicate 32 0, da_blob_sidecar = None \<rparr>
      | Blobs \<Rightarrow> do {
          sidecar \<leftarrow> ex_build_sidecar ex pubdata;
          let versioned_hashes = concat (ex_versioned_hashes ex sidecar);
          Some \<lparr> da_da_commitment = ex_keccak256 ex versioned_hashes,
            da_operator_da_input = replicate (length versioned_hashes) 0, da_blob_sidecar = Some sidecar \<rparr> })"

subsection \<open>Building a batch\<close>

record build_state =
  bs_priority_operations_hash :: b256
  bs_number_of_layer1_txs :: u64
  bs_number_of_layer2_txs :: u64
  bs_total_pubdata :: "byte list"
  bs_encoded_l2_l1_logs :: "byte list list"
  bs_upgrade_tx_hash :: "b256 option"
  bs_dependency_roots_rolling_hash :: b256

definition hash_interop_root :: "externals \<Rightarrow> b256 \<Rightarrow> interop_root \<Rightarrow> b256" where
  "hash_interop_root ex rolling root =
     ex_keccak256 ex (ex_encode_packed ex
       [SolBytes32 rolling, SolUint256 (ir_chain_id root), SolUint256 (ir_block_or_batch_number root),
        SolBytes32Array (ir_sides root)])"

definition build_tx :: "externals \<Rightarrow> zk_envelope \<Rightarrow> build_state \<Rightarrow> build_state option" where
  "build_tx ex tx s =
     (case tx of
        System envelope \<Rightarrow>
          Some (s \<lparr> bs_number_of_layer2_txs := bs_number_of_layer2_txs s + 1,
                  bs_dependency_roots_rolling_hash :=
                    (case interop_roots envelope of
                       None \<Rightarrow> bs_dependency_roots_rolling_hash s
                     | Some roots \<Rightarrow> foldl (hash_interop_root ex) (bs_dependency_roots_rolling_hash s) roots) \<rparr>)
      | L2 _ \<Rightarrow> Some (s \<lparr> bs_number_of_layer2_txs := bs_number_of_layer2_txs s + 1 \<rparr>)
      | L1 l1_tx \<Rightarrow>
          Some (s \<lparr> bs_priority_operations_hash :=
                    ex_keccak256 ex (bs_priority_operations_hash s @ l1_hash l1_tx),
                  bs_number_of_layer1_txs := bs_number_of_layer1_txs s + 1 \<rparr>)
      | Upgrade _ \<Rightarrow> do {
          assert_that (bs_upgrade_tx_hash s = None);
          Some (s \<lparr> bs_upgrade_tx_hash := Some (tx_hash_of tx) \<rparr>) })"

fun build_txs :: "externals \<Rightarrow> zk_envelope list \<Rightarrow> build_state \<Rightarrow> build_state option" where
  "build_txs ex [] s = Some s"
| "build_txs ex (tx # txs) s = Option.bind (build_tx ex tx s) (build_txs ex txs)"

fun tx_logs :: "(invalid_transaction + l2_to_l1_log list) list \<Rightarrow> l2_to_l1_log list" where
  "tx_logs [] = []"
| "tx_logs (Inl _ # rs) = tx_logs rs"
| "tx_logs (Inr logs # rs) = logs @ tx_logs rs"

type_synonym built_block = "block_output \<times> zk_envelope list \<times> tree_batch_output"

definition build_block :: "externals \<Rightarrow> built_block \<Rightarrow> build_state \<Rightarrow> build_state option" where
  "build_block ex b s = (case b of (block_output, transactions, _) \<Rightarrow> do {
     bytes \<leftarrow> expect_bytes (bo_pubdata block_output);
     s \<leftarrow> build_txs ex transactions (s \<lparr> bs_total_pubdata := bs_total_pubdata s @ bytes \<rparr>);
     Some (s \<lparr> bs_encoded_l2_l1_logs := bs_encoded_l2_l1_logs s @ map log_encode (tx_logs (bo_tx_results block_output)) \<rparr>) })"

fun build_blocks :: "externals \<Rightarrow> built_block list \<Rightarrow> build_state \<Rightarrow> build_state option" where
  "build_blocks ex [] s = Some s"
| "build_blocks ex (b # bs) s = Option.bind (build_block ex b s) (build_blocks ex bs)"

definition build_start :: "externals \<Rightarrow> build_state" where
  "build_start ex = \<lparr> bs_priority_operations_hash = ex_keccak256 ex [], bs_number_of_layer1_txs = 0,
     bs_number_of_layer2_txs = 0, bs_total_pubdata = [], bs_encoded_l2_l1_logs = [], bs_upgrade_tx_hash = None,
     bs_dependency_roots_rolling_hash = B256_ZERO \<rparr>"

definition new_state_commitment_of ::
    "externals \<Rightarrow> tree_batch_output \<Rightarrow> block_header \<Rightarrow> block_hashes \<Rightarrow> b256" where
  "new_state_commitment_of ex last_block_tree header last_256_block_hashes =
     (let last_256_block_hashes_blake = ex_blake2s ex (concat (drop 1 last_256_block_hashes) @ bh_hash header) in
      ex_blake2s ex (to_root_hash last_block_tree @ be_bytes 8 (to_leaf_count last_block_tree) @
        be_bytes 8 (bh_number header) @ last_256_block_hashes_blake @ be_bytes 8 (bh_timestamp header)))"

definition build ::
    "externals \<Rightarrow> built_block list \<Rightarrow> u64 \<Rightarrow> u64 \<Rightarrow> pubdata_mode \<Rightarrow> u64 \<Rightarrow> b256 \<Rightarrow>
     protocol_semantic_version \<Rightarrow> block_hashes \<Rightarrow> (pending_batch_info \<times> blob_transaction_sidecar option) option" where
  "build ex blocks chain_id batch_number pubdata_mode sl_chain_id multichain_root protocol_version
       last_256_block_hashes = do {
     assert_that (blocks \<noteq> []);
     let (first_block_output, _, _) = hd blocks;
     let (last_block_output, _, last_block_tree) = last blocks;
     s \<leftarrow> build_blocks ex blocks (build_start ex);
     da_fields \<leftarrow> calculate_da_fields ex (bs_total_pubdata s) pubdata_mode;
     tree \<leftarrow> new_tree L2_TO_L1_LOG_SERIALIZE_SIZE (ex_keccak256 ex) (bs_encoded_l2_l1_logs s) (Some L2_TO_L1_TREE_SIZE);
     l2_l1_local_root \<leftarrow> merkle_root (\<lambda>lhs rhs. ex_keccak256 ex (lhs @ rhs)) tree;
     let l2_to_l1_logs_root_hash =
       (if is_post_v31 protocol_version then ex_keccak256 ex (l2_l1_local_root @ multichain_root)
        else ex_keccak256 ex (l2_l1_local_root @ replicate 32 0));
     Some (\<lparr> pb_commit_info =
         \<lparr> ci_batch_number = batch_number,
           ci_new_state_commitment =
             new_state_commitment_of ex last_block_tree (bo_header last_block_output) last_256_block_hashes,
           ci_number_of_layer1_txs = bs_number_of_layer1_txs s,
           ci_number_of_layer2_txs = bs_number_of_layer2_txs s,
           ci_priority_operations_hash = bs_priority_operations_hash s,
           ci_dependency_roots_rolling_hash = bs_dependency_roots_rolling_hash s,
           ci_l2_to_l1_logs_root_hash = l2_to_l1_logs_root_hash,
           ci_l2_da_commitment_scheme = da_commitment_scheme_of pubdata_mode,
           ci_da_commitment = da_da_commitment da_fields,
           ci_first_block_timestamp = bh_timestamp (bo_header first_block_output),
           ci_first_block_number = Some (bh_number (bo_header first_block_output)),
           ci_last_block_timestamp = bh_timestamp (bo_header last_block_output),
           ci_last_block_number = Some (bh_number (bo_header last_block_output)),
           ci_chain_id = chain_id,
           ci_operator_da_input = da_operator_da_input da_fields,
           ci_sl_chain_id = sl_chain_id \<rparr>,
         pb_upgrade_tx_hash = bs_upgrade_tx_hash s,
         pb_protocol_version = protocol_version \<rparr>,
       da_blob_sidecar da_fields) }"

datatype build_error = DaCommitmentMismatch b256 b256

definition build_from_canonical_output ::
    "externals \<Rightarrow> u64 \<Rightarrow> pubdata_mode \<Rightarrow> protocol_semantic_version \<Rightarrow> canonical_batch_commit_data \<Rightarrow>
     (build_error + pending_batch_info \<times> blob_transaction_sidecar option) option" where
  "build_from_canonical_output ex batch_number pubdata_mode protocol_version batch = do {
     da_fields \<leftarrow> calculate_da_fields ex (cb_pubdata batch) pubdata_mode;
     Some
       (if da_da_commitment da_fields \<noteq> cb_da_commitment batch
        then Inl (DaCommitmentMismatch (cb_da_commitment batch) (da_da_commitment da_fields))
        else Inr
          (\<lparr> pb_commit_info =
             \<lparr> ci_batch_number = batch_number, ci_new_state_commitment = cb_new_state_commitment batch,
               ci_number_of_layer1_txs = cb_number_of_layer1_txs batch,
               ci_number_of_layer2_txs = cb_number_of_layer2_txs batch,
               ci_priority_operations_hash = cb_priority_operations_hash batch,
               ci_dependency_roots_rolling_hash = cb_dependency_roots_rolling_hash batch,
               ci_l2_to_l1_logs_root_hash = cb_l2_to_l1_logs_root_hash batch,
               ci_l2_da_commitment_scheme = da_commitment_scheme_of pubdata_mode,
               ci_da_commitment = cb_da_commitment batch,
               ci_first_block_timestamp = cb_first_block_timestamp batch,
               ci_first_block_number = Some (cb_first_block_number batch),
               ci_last_block_timestamp = cb_last_block_timestamp batch,
               ci_last_block_number = Some (cb_last_block_number batch),
               ci_chain_id = cb_chain_id batch, ci_operator_da_input = da_operator_da_input da_fields,
               ci_sl_chain_id = cb_sl_chain_id batch \<rparr>,
             pb_upgrade_tx_hash = cb_upgrade_tx_hash batch, pb_protocol_version = protocol_version \<rparr>,
           da_blob_sidecar da_fields)) }"

subsection \<open>The batch commitment\<close>

text \<open>The protocol versions without a known layout panic.\<close>

definition upgrade_hash_or_zero :: "pending_batch_info \<Rightarrow> b256" where
  "upgrade_hash_or_zero p = (case pb_upgrade_tx_hash p of None \<Rightarrow> B256_ZERO | Some h \<Rightarrow> h)"

definition v32_fields :: "pending_batch_info \<Rightarrow> sol_value list" where
  "v32_fields p = (let ci = pb_commit_info p in
     [SolUint64 (ci_first_block_timestamp ci), SolUint64 (ci_last_block_timestamp ci),
      SolUint256 (scheme_as_u8 (ci_l2_da_commitment_scheme ci)), SolBytes32 (ci_da_commitment ci),
      SolUint256 (ci_number_of_layer1_txs ci), SolUint256 (ci_number_of_layer2_txs ci),
      SolBytes32 (ci_priority_operations_hash ci), SolBytes32 (ci_l2_to_l1_logs_root_hash ci),
      SolBytes32 (upgrade_hash_or_zero p), SolBytes32 (ci_dependency_roots_rolling_hash ci),
      SolUint256 (ci_sl_chain_id ci)])"

definition v32_batch_output_hash :: "externals \<Rightarrow> pending_batch_info \<Rightarrow> b256" where
  "v32_batch_output_hash ex p = ex_keccak256 ex (ex_encode_packed ex (v32_fields p))"

definition v31_fields :: "pending_batch_info \<Rightarrow> sol_value list" where
  "v31_fields p = (let ci = pb_commit_info p in
     [SolUint256 (ci_chain_id ci), SolUint64 (ci_first_block_timestamp ci), SolUint64 (ci_last_block_timestamp ci),
      SolUint256 (scheme_as_u8 (ci_l2_da_commitment_scheme ci)), SolBytes32 (ci_da_commitment ci),
      SolUint256 (ci_number_of_layer1_txs ci), SolUint256 (ci_number_of_layer2_txs ci),
      SolBytes32 (ci_priority_operations_hash ci), SolBytes32 (ci_l2_to_l1_logs_root_hash ci),
      SolBytes32 (upgrade_hash_or_zero p), SolBytes32 (ci_dependency_roots_rolling_hash ci),
      SolUint256 (ci_sl_chain_id ci)])"

definition v30_fields :: "pending_batch_info \<Rightarrow> sol_value list" where
  "v30_fields p = (let ci = pb_commit_info p in
     [SolUint256 (ci_chain_id ci), SolUint64 (ci_first_block_timestamp ci), SolUint64 (ci_last_block_timestamp ci),
      SolUint256 (scheme_as_u8 (ci_l2_da_commitment_scheme ci)), SolBytes32 (ci_da_commitment ci),
      SolUint256 (ci_number_of_layer1_txs ci),
      SolBytes32 (ci_priority_operations_hash ci), SolBytes32 (ci_l2_to_l1_logs_root_hash ci),
      SolBytes32 (upgrade_hash_or_zero p), SolBytes32 (ci_dependency_roots_rolling_hash ci)])"

definition public_input_hash :: "externals \<Rightarrow> pending_batch_info \<Rightarrow> b256 option" where
  "public_input_hash ex p =
     (let v = minor (pb_protocol_version p) in
      if v = 30 then Some (ex_keccak256 ex (ex_encode_packed ex (v30_fields p)))
      else if v = 31 then Some (ex_keccak256 ex (ex_encode_packed ex (v31_fields p)))
      else if v = 32 then Some (v32_batch_output_hash ex p)
      else None)"

definition into_committed :: "externals \<Rightarrow> pending_batch_info \<Rightarrow> committed_batch_info option" where
  "into_committed ex p = do {
     commitment \<leftarrow> public_input_hash ex p;
     Some \<lparr> cm_commit_info = pb_commit_info p, cm_commitment = commitment \<rparr> }"

definition committed_into_stored :: "committed_batch_info \<Rightarrow> stored_batch_info" where
  "committed_into_stored c = (let ci = cm_commit_info c in
     \<lparr> si_batch_number = ci_batch_number ci, si_state_commitment = ci_new_state_commitment ci,
       si_number_of_layer1_txs = ci_number_of_layer1_txs ci,
       si_priority_operations_hash = ci_priority_operations_hash ci,
       si_dependency_roots_rolling_hash = ci_dependency_roots_rolling_hash ci,
       si_l2_to_l1_logs_root_hash = ci_l2_to_l1_logs_root_hash ci,
       si_commitment = cm_commitment c, si_last_block_timestamp = Some 0 \<rparr>)"

definition into_stored :: "externals \<Rightarrow> pending_batch_info \<Rightarrow> stored_batch_info option" where
  "into_stored ex p = map_option committed_into_stored (into_committed ex p)"

subsection \<open>Contract structures\<close>

datatype l2_da_commitment_scheme =
    NONE | EMPTY_NO_DA | PUBDATA_KECCAK256 | BLOBS_AND_PUBDATA_KECCAK256 | BLOBS_ZKSYNC_OS | Invalid_scheme

definition scheme_to_sol :: "da_commitment_scheme \<Rightarrow> l2_da_commitment_scheme" where
  "scheme_to_sol s =
     (case s of SchemeNone \<Rightarrow> NONE | EmptyNoDA \<Rightarrow> EMPTY_NO_DA | PubdataKeccak256 \<Rightarrow> PUBDATA_KECCAK256
      | BlobsAndPubdataKeccak256 \<Rightarrow> BLOBS_AND_PUBDATA_KECCAK256 | BlobsZKsyncOS \<Rightarrow> BLOBS_ZKSYNC_OS)"

definition scheme_from_sol :: "l2_da_commitment_scheme \<Rightarrow> da_commitment_scheme option" where
  "scheme_from_sol s =
     (case s of NONE \<Rightarrow> Some SchemeNone | EMPTY_NO_DA \<Rightarrow> Some EmptyNoDA | PUBDATA_KECCAK256 \<Rightarrow> Some PubdataKeccak256
      | BLOBS_AND_PUBDATA_KECCAK256 \<Rightarrow> Some BlobsAndPubdataKeccak256 | BLOBS_ZKSYNC_OS \<Rightarrow> Some BlobsZKsyncOS
      | Invalid_scheme \<Rightarrow> None)"

definition u256_to_u64 :: "nat \<Rightarrow> u64 option" where
  "u256_to_u64 n = (if n < 2 ^ 64 then Some n else None)"

record sol_stored_batch_info =
  ss_batchNumber :: u64
  ss_batchHash :: b256
  ss_indexRepeatedStorageChanges :: u64
  ss_numberOfLayer1Txs :: nat
  ss_priorityOperationsHash :: b256
  ss_dependencyRootsRollingHash :: b256
  ss_l2LogsTreeRoot :: b256
  ss_timestamp :: nat
  ss_commitment :: b256

definition stored_to_sol :: "stored_batch_info \<Rightarrow> sol_stored_batch_info" where
  "stored_to_sol v = \<lparr> ss_batchNumber = si_batch_number v, ss_batchHash = si_state_commitment v,
     ss_indexRepeatedStorageChanges = 0, ss_numberOfLayer1Txs = si_number_of_layer1_txs v,
     ss_priorityOperationsHash = si_priority_operations_hash v,
     ss_dependencyRootsRollingHash = si_dependency_roots_rolling_hash v,
     ss_l2LogsTreeRoot = si_l2_to_l1_logs_root_hash v, ss_timestamp = 0, ss_commitment = si_commitment v \<rparr>"

definition stored_from_sol :: "sol_stored_batch_info \<Rightarrow> stored_batch_info option" where
  "stored_from_sol v = do {
     number_of_layer1_txs \<leftarrow> u256_to_u64 (ss_numberOfLayer1Txs v);
     Some \<lparr> si_batch_number = ss_batchNumber v, si_state_commitment = ss_batchHash v,
       si_number_of_layer1_txs = number_of_layer1_txs,
       si_priority_operations_hash = ss_priorityOperationsHash v,
       si_dependency_roots_rolling_hash = ss_dependencyRootsRollingHash v,
       si_l2_to_l1_logs_root_hash = ss_l2LogsTreeRoot v, si_commitment = ss_commitment v,
       si_last_block_timestamp = Some 0 \<rparr> }"

record sol_commit_v29 =
  s29_batchNumber :: u64
  s29_newStateCommitment :: b256
  s29_numberOfLayer1Txs :: nat
  s29_priorityOperationsHash :: b256
  s29_dependencyRootsRollingHash :: b256
  s29_l2LogsTreeRoot :: b256
  s29_l2DaValidator :: address
  s29_daCommitment :: b256
  s29_firstBlockTimestamp :: u64
  s29_lastBlockTimestamp :: u64
  s29_chainId :: nat
  s29_operatorDAInput :: "byte list"

record sol_commit_v30 =
  s30_batchNumber :: u64
  s30_newStateCommitment :: b256
  s30_numberOfLayer1Txs :: nat
  s30_priorityOperationsHash :: b256
  s30_dependencyRootsRollingHash :: b256
  s30_l2LogsTreeRoot :: b256
  s30_daCommitmentScheme :: l2_da_commitment_scheme
  s30_daCommitment :: b256
  s30_firstBlockTimestamp :: u64
  s30_firstBlockNumber :: u64
  s30_lastBlockTimestamp :: u64
  s30_lastBlockNumber :: u64
  s30_chainId :: nat
  s30_operatorDAInput :: "byte list"

record sol_commit_v31 =
  s31_batchNumber :: u64
  s31_newStateCommitment :: b256
  s31_numberOfLayer1Txs :: nat
  s31_numberOfLayer2Txs :: nat
  s31_priorityOperationsHash :: b256
  s31_dependencyRootsRollingHash :: b256
  s31_l2LogsTreeRoot :: b256
  s31_daCommitmentScheme :: l2_da_commitment_scheme
  s31_daCommitment :: b256
  s31_firstBlockTimestamp :: u64
  s31_firstBlockNumber :: u64
  s31_lastBlockTimestamp :: u64
  s31_lastBlockNumber :: u64
  s31_chainId :: nat
  s31_operatorDAInput :: "byte list"
  s31_slChainId :: nat

definition commit_to_sol_v31 :: "commit_batch_info \<Rightarrow> sol_commit_v31 option" where
  "commit_to_sol_v31 v = do {
     first_block_number \<leftarrow> ci_first_block_number v;
     last_block_number \<leftarrow> ci_last_block_number v;
     Some \<lparr> s31_batchNumber = ci_batch_number v, s31_newStateCommitment = ci_new_state_commitment v,
       s31_numberOfLayer1Txs = ci_number_of_layer1_txs v, s31_numberOfLayer2Txs = ci_number_of_layer2_txs v,
       s31_priorityOperationsHash = ci_priority_operations_hash v,
       s31_dependencyRootsRollingHash = ci_dependency_roots_rolling_hash v,
       s31_l2LogsTreeRoot = ci_l2_to_l1_logs_root_hash v,
       s31_daCommitmentScheme = scheme_to_sol (ci_l2_da_commitment_scheme v), s31_daCommitment = ci_da_commitment v,
       s31_firstBlockTimestamp = ci_first_block_timestamp v, s31_firstBlockNumber = first_block_number,
       s31_lastBlockTimestamp = ci_last_block_timestamp v, s31_lastBlockNumber = last_block_number,
       s31_chainId = ci_chain_id v, s31_operatorDAInput = ci_operator_da_input v, s31_slChainId = ci_sl_chain_id v \<rparr> }"

definition commit_to_sol_v29 :: "commit_batch_info \<Rightarrow> sol_commit_v29" where
  "commit_to_sol_v29 v =
     \<lparr> s29_batchNumber = ci_batch_number v, s29_newStateCommitment = ci_new_state_commitment v,
       s29_numberOfLayer1Txs = ci_number_of_layer1_txs v, s29_priorityOperationsHash = ci_priority_operations_hash v,
       s29_dependencyRootsRollingHash = ci_dependency_roots_rolling_hash v,
       s29_l2LogsTreeRoot = ci_l2_to_l1_logs_root_hash v, s29_l2DaValidator = replicate 20 0,
       s29_daCommitment = ci_da_commitment v, s29_firstBlockTimestamp = ci_first_block_timestamp v,
       s29_lastBlockTimestamp = ci_last_block_timestamp v, s29_chainId = ci_chain_id v,
       s29_operatorDAInput = ci_operator_da_input v \<rparr>"

definition commit_to_sol_v30 :: "commit_batch_info \<Rightarrow> sol_commit_v30 option" where
  "commit_to_sol_v30 v = do {
     first_block_number \<leftarrow> ci_first_block_number v;
     last_block_number \<leftarrow> ci_last_block_number v;
     Some \<lparr> s30_batchNumber = ci_batch_number v, s30_newStateCommitment = ci_new_state_commitment v,
       s30_numberOfLayer1Txs = ci_number_of_layer1_txs v, s30_priorityOperationsHash = ci_priority_operations_hash v,
       s30_dependencyRootsRollingHash = ci_dependency_roots_rolling_hash v,
       s30_l2LogsTreeRoot = ci_l2_to_l1_logs_root_hash v,
       s30_daCommitmentScheme = scheme_to_sol (ci_l2_da_commitment_scheme v), s30_daCommitment = ci_da_commitment v,
       s30_firstBlockTimestamp = ci_first_block_timestamp v, s30_firstBlockNumber = first_block_number,
       s30_lastBlockTimestamp = ci_last_block_timestamp v, s30_lastBlockNumber = last_block_number,
       s30_chainId = ci_chain_id v, s30_operatorDAInput = ci_operator_da_input v \<rparr> }"

definition commit_from_sol_v31 :: "sol_commit_v31 \<Rightarrow> commit_batch_info option" where
  "commit_from_sol_v31 v = do {
     number_of_layer1_txs \<leftarrow> u256_to_u64 (s31_numberOfLayer1Txs v);
     number_of_layer2_txs \<leftarrow> u256_to_u64 (s31_numberOfLayer2Txs v);
     scheme \<leftarrow> scheme_from_sol (s31_daCommitmentScheme v);
     chain_id \<leftarrow> u256_to_u64 (s31_chainId v);
     sl_chain_id \<leftarrow> u256_to_u64 (s31_slChainId v);
     Some \<lparr> ci_batch_number = s31_batchNumber v, ci_new_state_commitment = s31_newStateCommitment v,
       ci_number_of_layer1_txs = number_of_layer1_txs, ci_number_of_layer2_txs = number_of_layer2_txs,
       ci_priority_operations_hash = s31_priorityOperationsHash v,
       ci_dependency_roots_rolling_hash = s31_dependencyRootsRollingHash v,
       ci_l2_to_l1_logs_root_hash = s31_l2LogsTreeRoot v, ci_l2_da_commitment_scheme = scheme,
       ci_da_commitment = s31_daCommitment v, ci_first_block_timestamp = s31_firstBlockTimestamp v,
       ci_first_block_number = Some (s31_firstBlockNumber v), ci_last_block_timestamp = s31_lastBlockTimestamp v,
       ci_last_block_number = Some (s31_lastBlockNumber v), ci_chain_id = chain_id,
       ci_operator_da_input = s31_operatorDAInput v, ci_sl_chain_id = sl_chain_id \<rparr> }"

definition commit_from_sol_v30 :: "sol_commit_v30 \<Rightarrow> commit_batch_info option" where
  "commit_from_sol_v30 v = do {
     number_of_layer1_txs \<leftarrow> u256_to_u64 (s30_numberOfLayer1Txs v);
     scheme \<leftarrow> scheme_from_sol (s30_daCommitmentScheme v);
     chain_id \<leftarrow> u256_to_u64 (s30_chainId v);
     Some \<lparr> ci_batch_number = s30_batchNumber v, ci_new_state_commitment = s30_newStateCommitment v,
       ci_number_of_layer1_txs = number_of_layer1_txs, ci_number_of_layer2_txs = 0,
       ci_priority_operations_hash = s30_priorityOperationsHash v,
       ci_dependency_roots_rolling_hash = s30_dependencyRootsRollingHash v,
       ci_l2_to_l1_logs_root_hash = s30_l2LogsTreeRoot v, ci_l2_da_commitment_scheme = scheme,
       ci_da_commitment = s30_daCommitment v, ci_first_block_timestamp = s30_firstBlockTimestamp v,
       ci_first_block_number = Some (s30_firstBlockNumber v), ci_last_block_timestamp = s30_lastBlockTimestamp v,
       ci_last_block_number = Some (s30_lastBlockNumber v), ci_chain_id = chain_id,
       ci_operator_da_input = s30_operatorDAInput v, ci_sl_chain_id = 0 \<rparr> }"

subsection \<open>Calldata\<close>

text \<open>The Solidity ABI codec of the structures and calls.  A failed decoding is an error text.\<close>

record commit_call =
  cl_chainAddress :: address
  cl_processFrom :: nat
  cl_processTo :: nat
  cl_commitData :: "byte list"

record abi =
  abi_encode_v29 :: "sol_commit_v29 \<Rightarrow> byte list"
  abi_encode_v30 :: "sol_commit_v30 \<Rightarrow> byte list"
  abi_encode_v31 :: "sol_commit_v31 \<Rightarrow> byte list"
  abi_encode_stored :: "sol_stored_batch_info \<Rightarrow> byte list"
  abi_decode_v29 :: "byte list \<Rightarrow> string + sol_commit_v29"
  abi_decode_v30 :: "byte list \<Rightarrow> string + sol_commit_v30"
  abi_decode_v31 :: "byte list \<Rightarrow> string + sol_commit_v31"
  abi_decode_stored :: "byte list \<Rightarrow> string + sol_stored_batch_info"
  abi_encode_params_v29 :: "sol_stored_batch_info \<times> sol_commit_v29 list \<Rightarrow> byte list"
  abi_encode_params_v30 :: "sol_stored_batch_info \<times> sol_commit_v30 list \<Rightarrow> byte list"
  abi_encode_params_v31 :: "sol_stored_batch_info \<times> sol_commit_v31 list \<Rightarrow> byte list"
  abi_decode_params_v30 :: "byte list \<Rightarrow> string + sol_stored_batch_info \<times> sol_commit_v30 list"
  abi_decode_params_v31 :: "byte list \<Rightarrow> string + sol_stored_batch_info \<times> sol_commit_v31 list"
  abi_shared_bridge_selector :: "byte list"
  abi_multisig_selector :: "byte list"
  abi_decode_shared_bridge_call :: "byte list \<Rightarrow> string + commit_call"
  abi_decode_multisig_call :: "byte list \<Rightarrow> string + commit_call"

definition V29_ENCODING_VERSION :: byte where
  "V29_ENCODING_VERSION = 2"

definition V30_ENCODING_VERSION :: byte where
  "V30_ENCODING_VERSION = 3"

definition V31_ENCODING_VERSION :: byte where
  "V31_ENCODING_VERSION = 4"

definition encode_commit_batch_data ::
    "abi \<Rightarrow> stored_batch_info \<Rightarrow> commit_batch_info \<Rightarrow> u64 \<Rightarrow> byte list option" where
  "encode_commit_batch_data abi prev_batch_info commit_info protocol_version_minor =
     (let stored = stored_to_sol prev_batch_info in
      if protocol_version_minor = 29
      then Some (V29_ENCODING_VERSION # abi_encode_params_v29 abi (stored, [commit_to_sol_v29 commit_info]))
      else if protocol_version_minor = 30
      then do { c \<leftarrow> commit_to_sol_v30 commit_info;
                Some (V30_ENCODING_VERSION # abi_encode_params_v30 abi (stored, [c])) }
      else if protocol_version_minor = 31 \<or> protocol_version_minor = 32
      then do { c \<leftarrow> commit_to_sol_v31 commit_info;
                Some (V31_ENCODING_VERSION # abi_encode_params_v31 abi (stored, [c])) }
      else None)"

record commit_calldata =
  cd_chain_address :: address
  cd_process_from :: u64
  cd_process_to :: u64
  cd_stored_batch_info :: stored_batch_info
  cd_commit_batch_info :: commit_batch_info

definition decode_commit_call :: "abi \<Rightarrow> byte list \<Rightarrow> string + commit_call" where
  "decode_commit_call abi data =
     (let selector = take 4 data in
      if selector = abi_shared_bridge_selector abi then abi_decode_shared_bridge_call abi data
      else if selector = abi_multisig_selector abi then abi_decode_multisig_call abi data
      else Inl ''unknown function selector'')"

definition decode_batch_data ::
    "abi \<Rightarrow> byte list \<Rightarrow> (string + stored_batch_info \<times> commit_batch_info) option" where
  "decode_batch_data abi commit_data = do {
     version \<leftarrow> get commit_data 0;
     (if version \<noteq> V30_ENCODING_VERSION \<and> version \<noteq> V31_ENCODING_VERSION
      then Some (Inl ''unexpected encoding version'')
      else if version = V30_ENCODING_VERSION
      then (case abi_decode_params_v30 abi (drop 1 commit_data) of
              Inl err \<Rightarrow> Some (Inl err)
            | Inr (stored, infos) \<Rightarrow>
                if length infos \<noteq> 1 then Some (Inl ''unexpected number of committed batch infos'')
                else do {
                  s \<leftarrow> stored_from_sol stored;
                  c \<leftarrow> commit_from_sol_v30 (hd infos);
                  Some (Inr (s, c)) })
      else (case abi_decode_params_v31 abi (drop 1 commit_data) of
              Inl err \<Rightarrow> Some (Inl err)
            | Inr (stored, infos) \<Rightarrow>
                if length infos \<noteq> 1 then Some (Inl ''unexpected number of committed batch infos'')
                else do {
                  s \<leftarrow> stored_from_sol stored;
                  c \<leftarrow> commit_from_sol_v31 (hd infos);
                  Some (Inr (s, c)) })) }"

definition commit_calldata_decode :: "abi \<Rightarrow> byte list \<Rightarrow> (string + commit_calldata) option" where
  "commit_calldata_decode abi data =
     (if length data < 4 then Some (Inl ''data too short to contain function selector'')
      else case decode_commit_call abi data of
             Inl err \<Rightarrow> Some (Inl err)
           | Inr call \<Rightarrow> do {
               process_from \<leftarrow> u256_to_u64 (cl_processFrom call);
               process_to \<leftarrow> u256_to_u64 (cl_processTo call);
               r \<leftarrow> decode_batch_data abi (cl_commitData call);
               Some (case r of
                       Inl err \<Rightarrow> Inl err
                     | Inr (stored_batch_info, commit_batch_info) \<Rightarrow>
                         Inr \<lparr> cd_chain_address = cl_chainAddress call, cd_process_from = process_from,
                           cd_process_to = process_to, cd_stored_batch_info = stored_batch_info,
                           cd_commit_batch_info = commit_batch_info \<rparr>) })"

subsection \<open>Batch metadata\<close>

record l2_log =
  l2l_l2_shard_id :: byte
  l2l_is_service :: bool
  l2l_tx_number_in_batch :: nat
  l2l_sender :: address
  l2l_key :: b256
  l2l_value :: b256

record batch_metadata =
  bm_previous_stored_batch_info :: stored_batch_info
  bm_batch_info :: pending_batch_info
  bm_chain_address :: address
  bm_blob_sidecar :: "blob_transaction_sidecar option"
  bm_first_block_number :: u64
  bm_last_block_number :: u64
  bm_last_block_hash :: "b256 option"
  bm_pubdata_mode :: pubdata_mode
  bm_tx_count :: usize
  bm_computational_native_used :: "u64 option"
  bm_logs :: "l2_log list"
  bm_messages :: "byte list list"
  bm_multichain_root :: b256
  bm_set_sl_chain_id_migration_number :: "u64 option"

definition bm_batch_number :: "batch_metadata \<Rightarrow> u64" where
  "bm_batch_number b = ci_batch_number (pb_commit_info (bm_batch_info b))"

subsection \<open>The wire format of batch verification\<close>

record verify_batch =
  vb_request_id :: u64
  vb_batch_number :: u64
  vb_first_block_number :: u64
  vb_last_block_number :: u64
  vb_pubdata_mode :: nat
  vb_commit_data :: "byte list"
  vb_prev_commit_data :: "byte list"
  vb_execution_protocol_version :: nat

record verification_request =
  vr_execution_protocol_version :: nat
  vr_batch_number :: u64
  vr_first_block_number :: u64
  vr_last_block_number :: u64
  vr_pubdata_mode :: pubdata_mode
  vr_request_id :: u64
  vr_commit_data :: commit_batch_info
  vr_prev_commit_data :: stored_batch_info

definition encode_commit_data :: "abi \<Rightarrow> commit_batch_info \<Rightarrow> nat \<Rightarrow> (string + byte list) option" where
  "encode_commit_data abi commit_info protocol_version_minor =
     (if protocol_version_minor = 29 then Some (Inr (abi_encode_v29 abi (commit_to_sol_v29 commit_info)))
      else if protocol_version_minor = 30 then map_option (Inr \<circ> abi_encode_v30 abi) (commit_to_sol_v30 commit_info)
      else if protocol_version_minor = 31 \<or> protocol_version_minor = 32
      then map_option (Inr \<circ> abi_encode_v31 abi) (commit_to_sol_v31 commit_info)
      else Some (Inl ''Unsupported protocol version''))"

definition decode_commit_data ::
    "abi \<Rightarrow> byte list \<Rightarrow> nat \<Rightarrow> u64 \<Rightarrow> u64 \<Rightarrow> (string + commit_batch_info) option" where
  "decode_commit_data abi commit_data execution_protocol_version first_block_number last_block_number =
     (if execution_protocol_version = 29
      then (case abi_decode_v29 abi commit_data of
              Inl err \<Rightarrow> Some (Inl err)
            | Inr d \<Rightarrow> do {
                number_of_layer1_txs \<leftarrow> u256_to_u64 (s29_numberOfLayer1Txs d);
                chain_id \<leftarrow> u256_to_u64 (s29_chainId d);
                Some (Inr \<lparr> ci_batch_number = s29_batchNumber d, ci_new_state_commitment = s29_newStateCommitment d,
                  ci_number_of_layer1_txs = number_of_layer1_txs, ci_number_of_layer2_txs = 0,
                  ci_priority_operations_hash = s29_priorityOperationsHash d,
                  ci_dependency_roots_rolling_hash = s29_dependencyRootsRollingHash d,
                  ci_l2_to_l1_logs_root_hash = s29_l2LogsTreeRoot d,
                  ci_l2_da_commitment_scheme = BlobsAndPubdataKeccak256, ci_da_commitment = s29_daCommitment d,
                  ci_first_block_timestamp = s29_firstBlockTimestamp d,
                  ci_first_block_number = Some first_block_number,
                  ci_last_block_timestamp = s29_lastBlockTimestamp d,
                  ci_last_block_number = Some last_block_number, ci_chain_id = chain_id,
                  ci_operator_da_input = s29_operatorDAInput d, ci_sl_chain_id = 0 \<rparr>) })
      else if execution_protocol_version = 30
      then (case abi_decode_v30 abi commit_data of
              Inl err \<Rightarrow> Some (Inl err) | Inr d \<Rightarrow> map_option Inr (commit_from_sol_v30 d))
      else if execution_protocol_version = 31 \<or> execution_protocol_version = 32
      then (case abi_decode_v31 abi commit_data of
              Inl err \<Rightarrow> Some (Inl err) | Inr d \<Rightarrow> map_option Inr (commit_from_sol_v31 d))
      else Some (Inl ''Unsupported execution protocol version''))"

definition normalized_commit_data :: "commit_batch_info \<Rightarrow> nat \<Rightarrow> commit_batch_info" where
  "normalized_commit_data commit_data execution_protocol_version =
     (if execution_protocol_version \<le> 30
      then commit_data \<lparr> ci_number_of_layer2_txs := 0, ci_sl_chain_id := 0 \<rparr> else commit_data)"

definition encode_verify_batch_request :: "abi \<Rightarrow> batch_metadata \<Rightarrow> u64 \<Rightarrow> (string + verify_batch) option" where
  "encode_verify_batch_request abi batch request_id =
     (let version = minor (pb_protocol_version (bm_batch_info batch)) in
      if version \<ge> 2 ^ 16 then Some (Inl ''protocol version overflow'')
      else do {
        r \<leftarrow> encode_commit_data abi (pb_commit_info (bm_batch_info batch)) version;
        Some (case r of
                Inl err \<Rightarrow> Inl err
              | Inr commit_data \<Rightarrow>
                  Inr \<lparr> vb_request_id = request_id, vb_batch_number = bm_batch_number batch,
                    vb_first_block_number = bm_first_block_number batch,
                    vb_last_block_number = bm_last_block_number batch,
                    vb_pubdata_mode = pubdata_mode_to_u8 (bm_pubdata_mode batch), vb_commit_data = commit_data,
                    vb_prev_commit_data = abi_encode_stored abi (stored_to_sol (bm_previous_stored_batch_info batch)),
                    vb_execution_protocol_version = version \<rparr>) })"

definition verification_request_try_from :: "abi \<Rightarrow> verify_batch \<Rightarrow> (string + verification_request) option" where
  "verification_request_try_from abi request = do {
     r \<leftarrow> decode_commit_data abi (vb_commit_data request) (vb_execution_protocol_version request)
            (vb_first_block_number request) (vb_last_block_number request);
     (case r of
        Inl err \<Rightarrow> Some (Inl err)
      | Inr commit_data \<Rightarrow>
          (case abi_decode_stored abi (vb_prev_commit_data request) of
             Inl err \<Rightarrow> Some (Inl ''Failed to decode previous commit data'')
           | Inr stored \<Rightarrow> do {
               prev_commit_data \<leftarrow> stored_from_sol stored;
               Some (case pubdata_mode_from_u8 (vb_pubdata_mode request) of
                       None \<Rightarrow> Inl ''Unsupported pubdata mode''
                     | Some pubdata_mode \<Rightarrow>
                         Inr \<lparr> vr_execution_protocol_version = vb_execution_protocol_version request,
                           vr_batch_number = vb_batch_number request,
                           vr_first_block_number = vb_first_block_number request,
                           vr_last_block_number = vb_last_block_number request,
                           vr_pubdata_mode = pubdata_mode, vr_request_id = vb_request_id request,
                           vr_commit_data = commit_data, vr_prev_commit_data = prev_commit_data \<rparr>) })) }"

subsection \<open>What a batch is built from\<close>

text \<open>The reference: the batch as one list of transactions, whatever the block boundaries are.\<close>

definition all_txs :: "built_block list \<Rightarrow> zk_envelope list" where
  "all_txs blocks = concat (map (\<lambda>(_, txs, _). txs) blocks)"

fun l1_hashes :: "zk_envelope list \<Rightarrow> b256 list" where
  "l1_hashes [] = []"
| "l1_hashes (L1 tx # txs) = l1_hash tx # l1_hashes txs"
| "l1_hashes (_ # txs) = l1_hashes txs"

fun upgrade_hashes :: "zk_envelope list \<Rightarrow> b256 list" where
  "upgrade_hashes [] = []"
| "upgrade_hashes (Upgrade tx # txs) = l1_hash tx # upgrade_hashes txs"
| "upgrade_hashes (_ # txs) = upgrade_hashes txs"

fun imported_roots :: "zk_envelope list \<Rightarrow> interop_root list" where
  "imported_roots [] = []"
| "imported_roots (System tx # txs) =
     (case interop_roots tx of None \<Rightarrow> [] | Some roots \<Rightarrow> roots) @ imported_roots txs"
| "imported_roots (_ # txs) = imported_roots txs"

definition l2_count :: "zk_envelope list \<Rightarrow> nat" where
  "l2_count txs = length (filter (\<lambda>tx. tx_type tx = TyL2 \<or> tx_type tx = TySystem) txs)"

definition rolling_hash :: "(byte list \<Rightarrow> b256) \<Rightarrow> b256 \<Rightarrow> b256 list \<Rightarrow> b256" where
  "rolling_hash keccak256 h hashes = foldl (\<lambda>h x. keccak256 (h @ x)) h hashes"

definition all_pubdata :: "built_block list \<Rightarrow> byte list" where
  "all_pubdata blocks = concat (map (\<lambda>(out, _, _). case bo_pubdata out of PubdataBytes b \<Rightarrow> b | PubdataLength _ \<Rightarrow> []) blocks)"

definition all_logs :: "built_block list \<Rightarrow> byte list list" where
  "all_logs blocks = concat (map (\<lambda>(out, _, _). map log_encode (tx_logs (bo_tx_results out))) blocks)"

definition add_txs :: "externals \<Rightarrow> zk_envelope list \<Rightarrow> build_state \<Rightarrow> build_state" where
  "add_txs ex txs s = s
     \<lparr> bs_priority_operations_hash := rolling_hash (ex_keccak256 ex) (bs_priority_operations_hash s) (l1_hashes txs),
       bs_number_of_layer1_txs := bs_number_of_layer1_txs s + length (l1_hashes txs),
       bs_number_of_layer2_txs := bs_number_of_layer2_txs s + l2_count txs,
       bs_upgrade_tx_hash := (case upgrade_hashes txs of [] \<Rightarrow> bs_upgrade_tx_hash s | h # _ \<Rightarrow> Some h),
       bs_dependency_roots_rolling_hash :=
         foldl (hash_interop_root ex) (bs_dependency_roots_rolling_hash s) (imported_roots txs) \<rparr>"

definition upgrade_slots :: "build_state \<Rightarrow> nat" where
  "upgrade_slots s = (case bs_upgrade_tx_hash s of None \<Rightarrow> 1 | Some _ \<Rightarrow> 0)"

lemma build_txs_eq:
  "build_txs ex txs s = (if length (upgrade_hashes txs) \<le> upgrade_slots s then Some (add_txs ex txs s) else None)"
proof (induction txs arbitrary: s)
  case Nil
  then show ?case by (simp add: add_txs_def rolling_hash_def l2_count_def)
next
  case (Cons tx txs)
  show ?case
  proof (cases tx)
    case (Upgrade l1)
    show ?thesis
    proof (cases "bs_upgrade_tx_hash s")
      case None
      with Upgrade Cons.IH [of "s \<lparr> bs_upgrade_tx_hash := Some (l1_hash l1) \<rparr>"] show ?thesis
        by (auto simp: build_tx_def upgrade_slots_def add_txs_def l2_count_def tx_type_def tx_hash_of_def)
    qed (simp add: Upgrade build_tx_def upgrade_slots_def)
  qed (auto simp: Cons.IH build_tx_def upgrade_slots_def add_txs_def l2_count_def tx_type_def rolling_hash_def
      split: option.split list.split)
qed

lemma l1_hashes_append [simp]: "l1_hashes (xs @ ys) = l1_hashes xs @ l1_hashes ys"
  by (induction xs rule: l1_hashes.induct) auto

lemma upgrade_hashes_append [simp]: "upgrade_hashes (xs @ ys) = upgrade_hashes xs @ upgrade_hashes ys"
  by (induction xs rule: upgrade_hashes.induct) auto

lemma imported_roots_append [simp]: "imported_roots (xs @ ys) = imported_roots xs @ imported_roots ys"
  by (induction xs rule: imported_roots.induct) auto

lemma l2_count_append [simp]: "l2_count (xs @ ys) = l2_count xs + l2_count ys"
  by (simp add: l2_count_def)

lemma all_txs_Cons [simp]: "all_txs ((out, txs, t) # bs) = txs @ all_txs bs" "all_txs [] = []"
  by (simp_all add: all_txs_def)

definition all_bytes :: "built_block list \<Rightarrow> bool" where
  "all_bytes blocks = list_all (\<lambda>(out, _, _). expect_bytes (bo_pubdata out) \<noteq> None) blocks"

definition add_blocks :: "externals \<Rightarrow> built_block list \<Rightarrow> build_state \<Rightarrow> build_state" where
  "add_blocks ex blocks s = add_txs ex (all_txs blocks) (s
     \<lparr> bs_total_pubdata := bs_total_pubdata s @ all_pubdata blocks,
       bs_encoded_l2_l1_logs := bs_encoded_l2_l1_logs s @ all_logs blocks \<rparr>)"

lemma build_blocks_eq:
  "build_blocks ex blocks s =
    (if all_bytes blocks \<and> length (upgrade_hashes (all_txs blocks)) \<le> upgrade_slots s
     then Some (add_blocks ex blocks s) else None)"
proof (induction blocks arbitrary: s)
  case Nil
  show ?case by (simp add: all_bytes_def add_blocks_def add_txs_def rolling_hash_def l2_count_def all_pubdata_def all_logs_def)
next
  case (Cons b bs)
  obtain out txs t where b: "b = (out, txs, t)" by (cases b)
  show ?case
  proof (cases "bo_pubdata out")
    case (PubdataLength n)
    then show ?thesis by (simp add: b build_block_def expect_bytes_def all_bytes_def)
  next
    case (PubdataBytes bytes)
    let ?s = "add_txs ex txs (s \<lparr> bs_total_pubdata := bs_total_pubdata s @ bytes \<rparr>)"
    let ?s' = "?s \<lparr> bs_encoded_l2_l1_logs := bs_encoded_l2_l1_logs ?s @ map log_encode (tx_logs (bo_tx_results out)) \<rparr>"
    have slots: "length (upgrade_hashes txs) \<le> upgrade_slots s \<Longrightarrow>
        upgrade_slots ?s' = upgrade_slots s - length (upgrade_hashes txs)"
      by (auto simp: upgrade_slots_def add_txs_def split: option.splits list.splits)
    have "upgrade_slots s \<le> 1" by (simp add: upgrade_slots_def split: option.split)
    then have add: "add_blocks ex bs ?s' = add_blocks ex (b # bs) s"
      if "length (upgrade_hashes txs) + length (upgrade_hashes (all_txs bs)) \<le> upgrade_slots s"
      using that PubdataBytes
      by (auto simp: b add_blocks_def add_txs_def rolling_hash_def all_pubdata_def all_logs_def split: list.split)
    have step: "build_block ex b s =
        (if length (upgrade_hashes txs) \<le> upgrade_slots s then Some ?s' else None)"
      using PubdataBytes by (simp add: b build_block_def expect_bytes_def build_txs_eq upgrade_slots_def)
    have bytes: "all_bytes (b # bs) \<longleftrightarrow> all_bytes bs" using PubdataBytes by (simp add: b all_bytes_def expect_bytes_def)
    have ups: "length (upgrade_hashes (all_txs (b # bs))) = length (upgrade_hashes txs) + length (upgrade_hashes (all_txs bs))"
      by (simp add: b)
    show ?thesis
    proof (cases "length (upgrade_hashes txs) \<le> upgrade_slots s")
      case True
      then have rest: "length (upgrade_hashes (all_txs bs)) \<le> upgrade_slots ?s' \<longleftrightarrow>
          length (upgrade_hashes (all_txs (b # bs))) \<le> upgrade_slots s" unfolding ups slots [OF True] by linarith
      have run: "build_blocks ex (b # bs) s = build_blocks ex bs ?s'" using True by (simp add: step)
      show ?thesis unfolding run Cons.IH rest bytes using add ups by simp
    next
      case False
      then show ?thesis unfolding bytes ups by (simp add: step)
    qed
  qed
qed

lemma upgrade_slots_start [simp]: "upgrade_slots (build_start ex) = 1"
  by (simp add: upgrade_slots_def build_start_def)

text \<open>The tree of logs: its depth is fixed by \<^const>\<open>L2_TO_L1_TREE_SIZE\<close> as long as the logs fit.\<close>

definition logs_root :: "(byte list \<Rightarrow> b256) \<Rightarrow> byte list list \<Rightarrow> b256" where
  "logs_root keccak256 logs =
     reference_root (\<lambda>a b. keccak256 (a @ b)) (keccak256 (replicate 88 0)) 14 (map keccak256 logs)"

lemma log_tree_root:
  assumes "length logs \<le> L2_TO_L1_TREE_SIZE"
  obtains t where
    "new_tree L2_TO_L1_LOG_SERIALIZE_SIZE keccak256 logs (Some L2_TO_L1_TREE_SIZE) = Some t"
    "merkle_root (\<lambda>a b. keccak256 (a @ b)) t = Some (logs_root keccak256 logs)"
proof -
  let ?H = "KeccakHasher 88 keccak256"
  have size: "(2::nat) ^ 14 = L2_TO_L1_TREE_SIZE" by (simp add: L2_TO_L1_TREE_SIZE_def)
  have "next_power_of_two (length logs) \<le> 2 ^ 14" using next_power_of_two_least [of "length logs" 14] assms size by simp
  then have max: "max L2_TO_L1_TREE_SIZE (next_power_of_two (length logs)) = 2 ^ 14" using size by (simp add: max_def)
  have two: "is_power_of_two L2_TO_L1_TREE_SIZE" unfolding size [symmetric] by (rule is_power_of_two_power)
  have "\<exists>t. from_hashes ?H (map keccak256 logs) (Some L2_TO_L1_TREE_SIZE) = Some t \<and> mm_binary_tree_size t = 2 ^ 14"
  proof -
    have "trailing_zeros (2 ^ 14) = 14" by (rule trailing_zeros_power)
    then have "trailing_zeros 16384 = 14" by simp
    then show ?thesis by (simp add: from_hashes_def max two Let_def tree_depth_by_size_def MAX_TREE_DEPTH_def)
  qed
  then obtain t where t: "from_hashes ?H (map keccak256 logs) (Some L2_TO_L1_TREE_SIZE) = Some t"
    and ts: "mm_binary_tree_size t = 2 ^ 14" by blast
  obtain d where d: "represents (compress ?H) d t (map keccak256 logs)" "mm_hasher t = ?H" "mm_empty_leaf_hash t = None"
    by (rule from_hashes_represents [OF t])
  have "tree_depth_by_size (mm_binary_tree_size t) = 14" unfolding ts tree_depth_by_size_def by (rule trailing_zeros_power)
  with represents_root_size [OF d(1,3)] d(2)
  have "merkle_root (\<lambda>a b. keccak256 (a @ b)) t = Some (logs_root keccak256 logs)"
    by (simp add: KeccakHasher_def logs_root_def)
  moreover have "new_tree L2_TO_L1_LOG_SERIALIZE_SIZE keccak256 logs (Some L2_TO_L1_TREE_SIZE) = Some t"
    using t by (simp add: new_tree_def with_hasher_def L2_TO_L1_LOG_SERIALIZE_SIZE_def KeccakHasher_def)
  ultimately show ?thesis using that by blast
qed

definition da_buildable :: "externals \<Rightarrow> byte list \<Rightarrow> pubdata_mode \<Rightarrow> bool" where
  "da_buildable ex pubdata mode \<longleftrightarrow> (mode = Blobs \<longrightarrow> ex_build_sidecar ex pubdata \<noteq> None)"

lemma calculate_da_fields_defined: "calculate_da_fields ex pubdata mode \<noteq> None \<longleftrightarrow> da_buildable ex pubdata mode"
  by (cases mode) (auto simp: calculate_da_fields_def da_buildable_def Let_def split: bind_splits)

lemma l2_count_Cons [simp]:
  "l2_count (L2 t # txs) = Suc (l2_count txs)" "l2_count (System e # txs) = Suc (l2_count txs)"
  "l2_count (L1 u # txs) = l2_count txs" "l2_count (Upgrade u # txs) = l2_count txs" "l2_count [] = 0"
  by (simp_all add: l2_count_def tx_type_def)

lemma tx_counts: "length (l1_hashes txs) + l2_count txs + length (upgrade_hashes txs) = length txs"
proof (induction txs)
  case (Cons tx txs)
  then show ?case by (cases tx) simp_all
qed simp

subsection \<open>Encodings\<close>

lemma be_bytes_length [simp]: "length (be_bytes w n) = w"
  by (induction w arbitrary: n) simp_all

lemma be_bytes_inject:
  "m < 256 ^ w \<Longrightarrow> n < 256 ^ w \<Longrightarrow> be_bytes w m = be_bytes w n \<Longrightarrow> m = n"
proof (induction w arbitrary: m n)
  case (Suc w)
  have "m div 256 = n div 256"
    by (rule Suc.IH) (use Suc.prems in \<open>auto simp: less_mult_imp_div_less mult.commute\<close>)
  moreover have "(of_nat m :: byte) = of_nat n" using Suc.prems(3) by simp
  then have "unat (of_nat m :: byte) = unat (of_nat n :: byte)" by simp
  then have "m mod 256 = n mod 256" by (simp add: unsigned_of_nat take_bit_eq_mod)
  ultimately show ?case by (metis div_mult_mod_eq)
qed simp

text \<open>The packed encoding of the fixed-width values; it is the concrete function for the external one.\<close>

fun encode_packed_value :: "sol_value \<Rightarrow> byte list" where
  "encode_packed_value (SolUint64 n) = be_bytes 8 n"
| "encode_packed_value (SolUint256 n) = be_bytes 32 n"
| "encode_packed_value (SolBytes32 b) = b"
| "encode_packed_value (SolBytes32Array bs) = concat bs"

fun fixed_value :: "sol_value \<Rightarrow> bool" where
  "fixed_value (SolUint64 n) \<longleftrightarrow> n < 2 ^ 64"
| "fixed_value (SolUint256 n) \<longleftrightarrow> n < 2 ^ 256"
| "fixed_value (SolBytes32 b) \<longleftrightarrow> length b = 32"
| "fixed_value (SolBytes32Array _) \<longleftrightarrow> False"

fun same_shape :: "sol_value \<Rightarrow> sol_value \<Rightarrow> bool" where
  "same_shape (SolUint64 _) (SolUint64 _) \<longleftrightarrow> True"
| "same_shape (SolUint256 _) (SolUint256 _) \<longleftrightarrow> True"
| "same_shape (SolBytes32 _) (SolBytes32 _) \<longleftrightarrow> True"
| "same_shape _ _ \<longleftrightarrow> False"

text \<open>What the code relies on: lists of fixed-width values of the same types have different encodings.\<close>

definition packed_injective :: "(sol_value list \<Rightarrow> byte list) \<Rightarrow> bool" where
  "packed_injective enc \<longleftrightarrow>
     (\<forall>xs ys. list_all2 same_shape xs ys \<longrightarrow> list_all fixed_value xs \<longrightarrow> list_all fixed_value ys \<longrightarrow>
        enc xs = enc ys \<longrightarrow> xs = ys)"

lemma encode_packed_value_inject:
  assumes "same_shape x y" "fixed_value x" "fixed_value y"
  shows "length (encode_packed_value x) = length (encode_packed_value y)"
    "encode_packed_value x = encode_packed_value y \<Longrightarrow> x = y"
  using assms by (cases x; cases y; auto dest: be_bytes_inject [rotated 2])+

lemma packed_injective_concat: "packed_injective (\<lambda>xs. concat (map encode_packed_value xs))"
proof -
  have "xs = ys" if "list_all2 same_shape xs ys" "list_all fixed_value xs" "list_all fixed_value ys"
    "concat (map encode_packed_value xs) = concat (map encode_packed_value ys)" for xs ys
    using that
  proof (induction rule: list_all2_induct)
    case (Cons x xs y ys)
    from encode_packed_value_inject [OF Cons.hyps(1)] Cons.prems Cons.IH show ?case by auto
  qed simp
  then show ?thesis by (auto simp: packed_injective_def)
qed

subsection \<open>Properties of the commit data\<close>

lemma build_cases:
  assumes "build ex blocks chain_id batch_number mode sl_chain_id root pv hashes = Some (info, sidecar)"
  obtains t lr da where "blocks \<noteq> []" "all_bytes blocks" "length (upgrade_hashes (all_txs blocks)) \<le> 1"
    "new_tree L2_TO_L1_LOG_SERIALIZE_SIZE (ex_keccak256 ex) (all_logs blocks) (Some L2_TO_L1_TREE_SIZE) = Some t"
    "merkle_root (\<lambda>lhs rhs. ex_keccak256 ex (lhs @ rhs)) t = Some lr"
    "calculate_da_fields ex (all_pubdata blocks) mode = Some da" "sidecar = da_blob_sidecar da"
    "pb_upgrade_tx_hash info = bs_upgrade_tx_hash (add_blocks ex blocks (build_start ex))"
    "pb_protocol_version info = pv"
    "ci_number_of_layer1_txs (pb_commit_info info) = length (l1_hashes (all_txs blocks))"
    "ci_number_of_layer2_txs (pb_commit_info info) = l2_count (all_txs blocks)"
    "ci_priority_operations_hash (pb_commit_info info) =
       rolling_hash (ex_keccak256 ex) (ex_keccak256 ex []) (l1_hashes (all_txs blocks))"
    "ci_dependency_roots_rolling_hash (pb_commit_info info) =
       foldl (hash_interop_root ex) B256_ZERO (imported_roots (all_txs blocks))"
    "ci_l2_to_l1_logs_root_hash (pb_commit_info info) =
       ex_keccak256 ex (lr @ (if is_post_v31 pv then root else replicate 32 0))"
  using assms
  by (auto simp: build_def build_blocks_eq Let_def add_blocks_def add_txs_def build_start_def case_prod_beta
      upgrade_slots_def split: bind_splits if_splits)

lemma build_None_iff:
  assumes "length (all_logs blocks) \<le> L2_TO_L1_TREE_SIZE"
  shows "build ex blocks chain_id batch_number mode sl_chain_id root pv hashes = None \<longleftrightarrow>
    blocks = [] \<or> \<not> all_bytes blocks \<or> length (upgrade_hashes (all_txs blocks)) > 1 \<or>
    \<not> da_buildable ex (all_pubdata blocks) mode"
proof -
  obtain t where "new_tree L2_TO_L1_LOG_SERIALIZE_SIZE (ex_keccak256 ex) (all_logs blocks) (Some L2_TO_L1_TREE_SIZE) = Some t"
    "merkle_root (\<lambda>lhs rhs. ex_keccak256 ex (lhs @ rhs)) t = Some (logs_root (ex_keccak256 ex) (all_logs blocks))"
    by (rule log_tree_root [OF assms])
  then show ?thesis
    using calculate_da_fields_defined [of ex "all_pubdata blocks" mode]
    by (auto simp: build_def build_blocks_eq Let_def add_blocks_def add_txs_def build_start_def case_prod_beta
        upgrade_slots_def assert_that_def split: bind_splits if_splits)
qed

text \<open>What a settlement layer finds of the pubdata: nothing, the bytes themselves behind the header that the
  commitment hashes, or blobs whose versioned hashes it hashes.\<close>

definition pubdata_committed ::
    "externals \<Rightarrow> byte list \<Rightarrow> pubdata_mode \<Rightarrow> commit_batch_info \<Rightarrow> blob_transaction_sidecar option \<Rightarrow> bool" where
  "pubdata_committed ex pubdata mode ci sidecar =
     (case mode of
        Validium \<Rightarrow> sidecar = None \<and> ci_l2_da_commitment_scheme ci = EmptyNoDA \<and>
          ci_da_commitment ci = replicate 32 0 \<and> ci_operator_da_input ci = replicate 32 0
      | Calldata \<Rightarrow> sidecar = None \<and> ci_l2_da_commitment_scheme ci = BlobsAndPubdataKeccak256 \<and>
          (let header = replicate 32 0 @ ex_keccak256 ex pubdata @ [1] @ replicate 32 0 in
           ci_da_commitment ci = ex_keccak256 ex header \<and> ci_operator_da_input ci = header @ [0] @ pubdata @ replicate 32 0)
      | Blobs \<Rightarrow> ci_l2_da_commitment_scheme ci = BlobsZKsyncOS \<and>
          (\<exists>blobs. sidecar = Some blobs \<and> ex_build_sidecar ex pubdata = Some blobs \<and>
             ci_da_commitment ci = ex_keccak256 ex (concat (ex_versioned_hashes ex blobs)) \<and>
             ci_operator_da_input ci = replicate (length (concat (ex_versioned_hashes ex blobs))) 0))"

lemma build_context:
  assumes "build ex blocks chain_id batch_number mode sl_chain_id root pv hashes = Some (info, sidecar)"
  shows "pubdata_committed ex (all_pubdata blocks) mode (pb_commit_info info) sidecar"
    and "ci_batch_number (pb_commit_info info) = batch_number" "ci_chain_id (pb_commit_info info) = chain_id"
    "ci_sl_chain_id (pb_commit_info info) = sl_chain_id" "pb_protocol_version info = pv"
    and "ci_first_block_number (pb_commit_info info) = Some (bh_number (bo_header (fst (hd blocks))))"
    "ci_first_block_timestamp (pb_commit_info info) = bh_timestamp (bo_header (fst (hd blocks)))"
    "ci_last_block_number (pb_commit_info info) = Some (bh_number (bo_header (fst (last blocks))))"
    "ci_last_block_timestamp (pb_commit_info info) = bh_timestamp (bo_header (fst (last blocks)))"
    and "ci_new_state_commitment (pb_commit_info info) =
      new_state_commitment_of ex (snd (snd (last blocks))) (bo_header (fst (last blocks))) hashes"
proof -
  obtain da where da: "calculate_da_fields ex (all_pubdata blocks) mode = Some da"
      "ci_l2_da_commitment_scheme (pb_commit_info info) = da_commitment_scheme_of mode"
      "ci_da_commitment (pb_commit_info info) = da_da_commitment da"
      "ci_operator_da_input (pb_commit_info info) = da_operator_da_input da" "sidecar = da_blob_sidecar da"
    using assms by (auto simp: build_def build_blocks_eq Let_def add_blocks_def add_txs_def build_start_def case_prod_beta
        split: bind_splits if_splits)
  then show "pubdata_committed ex (all_pubdata blocks) mode (pb_commit_info info) sidecar"
    by (cases mode) (auto simp: pubdata_committed_def calculate_da_fields_def da_commitment_scheme_of_def B256_ZERO_def
        PUBDATA_SOURCE_CALLDATA_def Let_def split: bind_splits)
qed (use assms in \<open>auto simp: build_def Let_def case_prod_beta split: bind_splits\<close>)

text \<open>C13.  The commit data of a batch, field by field, from its blocks, however the transactions are split
  into blocks: the L1 count and the rolling hash cover exactly the L1 transactions in order, system and
  L2 transactions are counted once each, the dependency hash covers every imported root, at most one
  upgrade occurs and is recorded; the log root is that of the tree of depth 14 over all logs of the
  blocks, if there are at most 16384; the data availability fields commit to the concatenated
  pubdata; numbers and timestamps are those of the first and the last block, and the state
  commitment is taken after the last block.\<close>

theorem build_commits_to_all_transactions:
  assumes "build ex blocks chain_id batch_number mode sl_chain_id root pv hashes = Some (info, sidecar)"
    and "length (all_logs blocks) \<le> L2_TO_L1_TREE_SIZE"
  shows "(let ci = pb_commit_info info; txs = all_txs blocks; first = bo_header (fst (hd blocks)); final = bo_header (fst (last blocks)) in
    ci_number_of_layer1_txs ci = length (l1_hashes txs) \<and> ci_number_of_layer2_txs ci = l2_count txs \<and>
    length txs = ci_number_of_layer1_txs ci + ci_number_of_layer2_txs ci + length (upgrade_hashes txs) \<and>
    upgrade_hashes txs = (case pb_upgrade_tx_hash info of None \<Rightarrow> [] | Some h \<Rightarrow> [h]) \<and>
    ci_priority_operations_hash ci = rolling_hash (ex_keccak256 ex) (ex_keccak256 ex []) (l1_hashes txs) \<and>
    ci_dependency_roots_rolling_hash ci = foldl (hash_interop_root ex) B256_ZERO (imported_roots txs) \<and>
    ci_l2_to_l1_logs_root_hash ci = ex_keccak256 ex
      (logs_root (ex_keccak256 ex) (all_logs blocks) @ (if is_post_v31 pv then root else replicate 32 0)) \<and>
    pubdata_committed ex (all_pubdata blocks) mode ci sidecar \<and>
    ci_first_block_number ci = Some (bh_number first) \<and> ci_first_block_timestamp ci = bh_timestamp first \<and>
    ci_last_block_number ci = Some (bh_number final) \<and> ci_last_block_timestamp ci = bh_timestamp final \<and>
    ci_new_state_commitment ci = new_state_commitment_of ex (snd (snd (last blocks))) final hashes \<and>
    ci_batch_number ci = batch_number \<and> ci_chain_id ci = chain_id \<and> ci_sl_chain_id ci = sl_chain_id \<and>
    pb_protocol_version info = pv)"
  using assms(1)
proof (rule build_cases)
  fix t lr da
  assume up: "length (upgrade_hashes (all_txs blocks)) \<le> 1"
    "pb_upgrade_tx_hash info = bs_upgrade_tx_hash (add_blocks ex blocks (build_start ex))"
    and tree: "new_tree L2_TO_L1_LOG_SERIALIZE_SIZE (ex_keccak256 ex) (all_logs blocks) (Some L2_TO_L1_TREE_SIZE) = Some t"
      "merkle_root (\<lambda>lhs rhs. ex_keccak256 ex (lhs @ rhs)) t = Some lr"
    and fields: "ci_number_of_layer1_txs (pb_commit_info info) = length (l1_hashes (all_txs blocks))"
    "ci_number_of_layer2_txs (pb_commit_info info) = l2_count (all_txs blocks)"
    "ci_priority_operations_hash (pb_commit_info info) =
       rolling_hash (ex_keccak256 ex) (ex_keccak256 ex []) (l1_hashes (all_txs blocks))"
    "ci_dependency_roots_rolling_hash (pb_commit_info info) =
       foldl (hash_interop_root ex) B256_ZERO (imported_roots (all_txs blocks))"
    "ci_l2_to_l1_logs_root_hash (pb_commit_info info) =
       ex_keccak256 ex (lr @ (if is_post_v31 pv then root else replicate 32 0))"
  have "upgrade_hashes (all_txs blocks) = (case pb_upgrade_tx_hash info of None \<Rightarrow> [] | Some h \<Rightarrow> [h])"
    using up by (cases "upgrade_hashes (all_txs blocks)") (auto simp: add_blocks_def add_txs_def build_start_def)
  moreover have "lr = logs_root (ex_keccak256 ex) (all_logs blocks)"
    using tree by (auto intro: log_tree_root [OF assms(2), of "ex_keccak256 ex"])
  ultimately show ?thesis using fields tx_counts [of "all_txs blocks"] by (simp add: Let_def build_context [OF assms(1)])
qed

text \<open>Building a batch panics exactly when there is no block, a block carries only the length of
  its pubdata, there is a second upgrade transaction, or the blobs cannot be built.\<close>

theorem build_panics_iff:
  assumes "length (all_logs blocks) \<le> L2_TO_L1_TREE_SIZE"
  shows "build ex blocks chain_id batch_number mode sl_chain_id root pv hashes = None \<longleftrightarrow>
    blocks = [] \<or> \<not> all_bytes blocks \<or> length (upgrade_hashes (all_txs blocks)) > 1 \<or>
    \<not> da_buildable ex (all_pubdata blocks) mode"
  by (rule build_None_iff [OF assms])

definition sample_externals :: externals where
  "sample_externals = \<lparr> ex_keccak256 = (\<lambda>bs. replicate 31 0 @ [of_nat (length bs)]),
     ex_blake2s = (\<lambda>bs. replicate 31 1 @ [of_nat (length bs)]),
     ex_encode_packed = (\<lambda>vs. concat (map encode_packed_value vs)),
     ex_build_sidecar = (\<lambda>_. Some \<lparr> sc_blobs = [], sc_commitments = [], sc_proofs = [] \<rparr>),
     ex_versioned_hashes = (\<lambda>_. []) \<rparr>"

definition sample_l1_tx :: l1_tx where
  "sample_l1_tx = \<lparr> l1_hash = replicate 32 7, l1_initiator = [], l1_gas_limit = 1, l1_nonce = 0 \<rparr>"

definition sample_built_block :: "u64 \<Rightarrow> zk_envelope list \<Rightarrow> built_block" where
  "sample_built_block n txs =
     (\<lparr> bo_header = \<lparr> bh_number = n, bh_timestamp = 10 * n, bh_hash = replicate 32 9 \<rparr>, bo_tx_results = [],
        bo_pubdata = PubdataBytes [1], bo_computational_native_used = 3 \<rparr>, txs, \<lparr> to_root_hash = replicate 32 5, to_leaf_count = 2 \<rparr>)"

definition sample_blocks :: "built_block list" where
  "sample_blocks = [sample_built_block 1 [Upgrade sample_l1_tx, L1 sample_l1_tx], sample_built_block 2 [L1 sample_l1_tx]]"

lemma sample_blocks_simps [simp]:
  "all_logs sample_blocks = []" "all_bytes sample_blocks"
  "all_txs sample_blocks = [Upgrade sample_l1_tx, L1 sample_l1_tx, L1 sample_l1_tx]" "sample_blocks \<noteq> []"
  by (simp_all add: all_logs_def sample_blocks_def sample_built_block_def all_bytes_def expect_bytes_def all_txs_def)

theorem build_panics_iff_witness:
  "build sample_externals sample_blocks 270 1 Calldata 1 [] (ProtocolSemanticVersion 0 30 0) [] \<noteq> None"
  using build_panics_iff [of sample_blocks sample_externals 270 1 Calldata 1 "[]" "ProtocolSemanticVersion 0 30 0" "[]"]
  by (simp add: da_buildable_def)

lemma sample_build:
  obtains info sidecar where
    "build sample_externals sample_blocks 270 1 Calldata 1 [] (ProtocolSemanticVersion 0 30 0) [] = Some (info, sidecar)"
proof -
  have "build sample_externals sample_blocks 270 1 Calldata 1 [] (ProtocolSemanticVersion 0 30 0) [] \<noteq> None"
    by (subst build_None_iff) (simp_all add: da_buildable_def)
  then show ?thesis using that by auto
qed

theorem build_commits_to_all_transactions_witness:
  "\<exists>info sidecar. build sample_externals sample_blocks 270 1 Calldata 1 [] (ProtocolSemanticVersion 0 30 0) [] = Some (info, sidecar) \<and>
    ci_number_of_layer1_txs (pb_commit_info info) = 2 \<and> pb_upgrade_tx_hash info = Some (l1_hash sample_l1_tx)"
proof -
  obtain info sidecar where
    b: "build sample_externals sample_blocks 270 1 Calldata 1 [] (ProtocolSemanticVersion 0 30 0) [] = Some (info, sidecar)"
    by (rule sample_build)
  have "length (all_logs sample_blocks) \<le> L2_TO_L1_TREE_SIZE" by simp
  from build_commits_to_all_transactions [OF b this]
  have "ci_number_of_layer1_txs (pb_commit_info info) = length (l1_hashes (all_txs sample_blocks))"
    "upgrade_hashes (all_txs sample_blocks) = (case pb_upgrade_tx_hash info of None \<Rightarrow> [] | Some h \<Rightarrow> [h])"
    unfolding Let_def by blast+
  then have "ci_number_of_layer1_txs (pb_commit_info info) = 2" "pb_upgrade_tx_hash info = Some (l1_hash sample_l1_tx)"
    by (simp_all split: option.splits)
  with b show ?thesis by blast
qed

end
