(* ===== verification/BatchTypes.thy ===== *)
theory BatchTypes
  imports BatchInfo
begin

text \<open>
  Batches as they travel through the pipeline: envelopes (\<open>lib/batch_types/src/batcher_model.rs\<close>),
  sets of validator signatures (\<open>batch_signature.rs\<close>), and the commit command that turns
  a signed envelope into an L1 call (\<open>lib/l1_sender/src/commands/commit.rs\<close>).

  The latency tracker of an envelope only feeds metrics and is left out.
\<close>

subsection \<open>Signatures\<close>

record validated_batch_signature =
  vs_signature :: "byte list"
  vs_signer :: address

text \<open>\<open>PartialEq\<close> of a validated signature compares the signers only.\<close>

definition validated_signature_eq :: "validated_batch_signature \<Rightarrow> validated_batch_signature \<Rightarrow> bool" where
  "validated_signature_eq a b = (vs_signer a = vs_signer b)"

type_synonym batch_signature_set = "validated_batch_signature list"

datatype batch_signature_set_error = DuplicatedSignature

definition signature_set_push ::
    "batch_signature_set \<Rightarrow> validated_batch_signature \<Rightarrow> batch_signature_set_error + batch_signature_set" where
  "signature_set_push sigs s =
     (if list_ex (\<lambda>x. validated_signature_eq x s) sigs then Inl DuplicatedSignature else Inr (sigs @ [s]))"

definition signature_set_filter :: "address list \<Rightarrow> batch_signature_set \<Rightarrow> batch_signature_set" where
  "signature_set_filter allowed_signers sigs = filter (\<lambda>s. vs_signer s \<in> set allowed_signers) sigs"

datatype batch_signature_data = Signed batch_signature_set | AlreadyCommitted | NotNeeded

subsection \<open>Envelopes\<close>

record ('d, 's) batch_envelope =
  be_batch :: batch_metadata
  be_data :: 'd
  be_signature_data :: 's

type_synonym 'd signed_batch_envelope = "('d, batch_signature_data) batch_envelope"
type_synonym 'd batch_for_signing = "('d, unit) batch_envelope"

definition be_batch_number :: "('d, 's) batch_envelope \<Rightarrow> u64" where
  "be_batch_number e = bm_batch_number (be_batch e)"

definition be_protocol_version :: "('d, 's) batch_envelope \<Rightarrow> protocol_semantic_version" where
  "be_protocol_version e = pb_protocol_version (bm_batch_info (be_batch e))"

definition with_data :: "'e \<Rightarrow> ('d, 's) batch_envelope \<Rightarrow> ('e, 's) batch_envelope" where
  "with_data d e = \<lparr> be_batch = be_batch e, be_data = d, be_signature_data = be_signature_data e \<rparr>"

definition with_signatures :: "batch_signature_data \<Rightarrow> 'd batch_for_signing \<Rightarrow> 'd signed_batch_envelope" where
  "with_signatures sigs e = \<lparr> be_batch = be_batch e, be_data = be_data e, be_signature_data = sigs \<rparr>"

text \<open>Methods of \<open>BatchMetadata\<close>.\<close>

definition bm_proving_version :: "batch_metadata \<Rightarrow> proving_version_error + proving_version" where
  "bm_proving_version b = proving_version_try_from (pb_protocol_version (bm_batch_info b))"

definition verification_key_hash :: "batch_metadata \<Rightarrow> proving_version_error + string" where
  "verification_key_hash b =
     (case proving_version_try_from (pb_protocol_version (bm_batch_info b)) of
        Inl err \<Rightarrow> Inl err | Inr v \<Rightarrow> Inr (vk_hash v))"

datatype prover_input = RealInput "32 word list" | FakeInput

datatype real_fri_proof = FriV1 "byte list" | FriV2 "byte list" nat

datatype fri_proof = FakeFri | AlreadySubmittedToL1 | RealFri real_fri_proof

definition is_fake :: "fri_proof \<Rightarrow> bool" where
  "is_fake p = (p = FakeFri)"

datatype snark_proof = FakeSnark | RealSnark "byte list" nat

subsection \<open>Commit commands\<close>

record batch_verification_sl_config =
  sl_threshold :: u64
  sl_validators :: "address list"

datatype batch_verification_sl = SlDisabled | SlEnabled batch_verification_sl_config

datatype commit_error = BatchNotSigned | NotEnoughSignatures u64 u64

record commit_command =
  cc_input :: "fri_proof signed_batch_envelope"
  cc_signatures :: "batch_signature_set option"

definition commit_command_try_new ::
    "batch_verification_sl \<Rightarrow> fri_proof signed_batch_envelope \<Rightarrow> commit_error + commit_command" where
  "commit_command_try_new l1_config input =
     (case l1_config of
        SlDisabled \<Rightarrow> Inr \<lparr> cc_input = input, cc_signatures = None \<rparr>
      | SlEnabled cfg \<Rightarrow>
        (case be_signature_data input of
           Signed sigs \<Rightarrow>
             (let filtered = signature_set_filter (sl_validators cfg) sigs in
              if length filtered < sl_threshold cfg
              then Inl (NotEnoughSignatures (length filtered) (sl_threshold cfg))
              else Inr \<lparr> cc_input = input, cc_signatures = Some filtered \<rparr>)
         | _ \<Rightarrow>
             if sl_threshold cfg = 0 then Inr \<lparr> cc_input = input, cc_signatures = None \<rparr>
             else Inl BatchNotSigned))"

subsection \<open>Lemmas\<close>

definition distinct_signers :: "batch_signature_set \<Rightarrow> bool" where
  "distinct_signers sigs = distinct (map vs_signer sigs)"

lemma signature_set_push_cases:
  "signature_set_push sigs s =
     (if vs_signer s \<in> vs_signer ` set sigs then Inl DuplicatedSignature else Inr (sigs @ [s]))"
  by (auto simp: signature_set_push_def validated_signature_eq_def list_ex_iff intro: rev_image_eqI)

lemma signature_set_push_distinct:
  "signature_set_push sigs s = Inr sigs' \<Longrightarrow> distinct_signers sigs \<Longrightarrow> distinct_signers sigs'"
  by (auto simp: signature_set_push_cases distinct_signers_def split: if_splits)

lemma signature_set_filter_all:
  "vs_signer ` set sigs \<subseteq> set allowed \<Longrightarrow> signature_set_filter allowed sigs = sigs"
  by (auto simp: signature_set_filter_def filter_id_conv)

lemma with_data_simps [simp]:
  "be_batch_number (with_data d e) = be_batch_number e" "be_data (with_data d e) = d"
  "be_signature_data (with_data d e) = be_signature_data e" "be_batch (with_data d e) = be_batch e"
  "be_protocol_version (with_data d e) = be_protocol_version e"
  by (simp_all add: with_data_def be_batch_number_def be_protocol_version_def)

lemma with_signatures_simps [simp]:
  "be_batch_number (with_signatures s e) = be_batch_number e" "be_batch (with_signatures s e) = be_batch e"
  "be_data (with_signatures s e) = be_data e" "be_signature_data (with_signatures s e) = s"
  "be_protocol_version (with_signatures s e) = be_protocol_version e"
  by (simp_all add: with_signatures_def be_batch_number_def be_protocol_version_def)

subsection \<open>Sample batches\<close>

definition sample_commit_info :: "u64 \<Rightarrow> commit_batch_info" where
  "sample_commit_info n = \<lparr> ci_batch_number = n, ci_new_state_commitment = [], ci_number_of_layer1_txs = 0,
     ci_number_of_layer2_txs = 1, ci_priority_operations_hash = [], ci_dependency_roots_rolling_hash = [],
     ci_l2_to_l1_logs_root_hash = [], ci_l2_da_commitment_scheme = EmptyNoDA, ci_da_commitment = [],
     ci_first_block_timestamp = 100, ci_first_block_number = Some n, ci_last_block_timestamp = 100,
     ci_last_block_number = Some n, ci_chain_id = 270, ci_operator_da_input = [], ci_sl_chain_id = 1 \<rparr>"

definition sample_stored_info :: "u64 \<Rightarrow> stored_batch_info" where
  "sample_stored_info n = \<lparr> si_batch_number = n, si_state_commitment = [], si_number_of_layer1_txs = 0,
     si_priority_operations_hash = [], si_dependency_roots_rolling_hash = [], si_l2_to_l1_logs_root_hash = [],
     si_commitment = [], si_last_block_timestamp = Some 0 \<rparr>"

definition sample_metadata :: "u64 \<Rightarrow> batch_metadata" where
  "sample_metadata n = \<lparr> bm_previous_stored_batch_info = sample_stored_info (n - 1),
     bm_batch_info = \<lparr> pb_commit_info = sample_commit_info n, pb_upgrade_tx_hash = None,
       pb_protocol_version = ProtocolSemanticVersion 0 30 1 \<rparr>,
     bm_chain_address = [], bm_blob_sidecar = None, bm_first_block_number = n, bm_last_block_number = n,
     bm_last_block_hash = None, bm_pubdata_mode = Validium, bm_tx_count = 1, bm_computational_native_used = None,
     bm_logs = [], bm_messages = [], bm_multichain_root = [], bm_set_sl_chain_id_migration_number = None \<rparr>"

definition sample_envelope :: "u64 \<Rightarrow> 'd \<Rightarrow> 'd signed_batch_envelope" where
  "sample_envelope n d = \<lparr> be_batch = sample_metadata n, be_data = d, be_signature_data = NotNeeded \<rparr>"

lemma sample_envelope_simps [simp]:
  "be_batch_number (sample_envelope n d) = n" "be_data (sample_envelope n d) = d"
  "be_protocol_version (sample_envelope n d) = ProtocolSemanticVersion 0 30 1"
  "bm_proving_version (be_batch (sample_envelope n d)) = Inr PV6"
  by (simp_all add: sample_envelope_def be_batch_number_def be_protocol_version_def sample_metadata_def
      bm_batch_number_def sample_commit_info_def bm_proving_version_def proving_version_try_from_def)

end
