(* ===== verification/NativeBatch.thy ===== *)
theory NativeBatch
  imports BatchTypes
begin

text \<open>
  Native batch runs (\<open>lib/native_pig/src/lib.rs\<close>): from protocol version 32 on, the batch program
  computes the commit data of a batch itself, and the node cross-checks its output before it uses it.
  The batch program (\<open>v32::generate_batch_run\<close>) and the chain config hash are parameters.
\<close>

text \<open>\<open>TreeBlock\<close> of \<open>lib/storage_api/src/model.rs\<close>; of the tree data the output is read.\<close>

record tree_block =
  tb_output :: block_output
  tb_record :: replay_record
  tb_tree_output :: tree_batch_output

record native_batch_run_output =
  nr_prover_input :: "32 word list"
  nr_pubdata :: "byte list"
  nr_previous_state_commitment :: b256
  nr_batch_public_input_hash :: b256
  nr_new_state_commitment :: b256
  nr_da_commitment :: b256
  nr_number_of_layer1_txs :: u64
  nr_number_of_layer2_txs :: u64
  nr_priority_operations_hash :: b256
  nr_dependency_roots_rolling_hash :: b256
  nr_l2_to_l1_logs_root_hash :: b256
  nr_first_block_timestamp :: u64
  nr_last_block_timestamp :: u64
  nr_chain_id :: u64
  nr_sl_chain_id :: u64
  nr_upgrade_tx_hash :: "b256 option"

definition canonical_commit_data :: "native_batch_run_output \<Rightarrow> u64 \<Rightarrow> u64 \<Rightarrow> canonical_batch_commit_data" where
  "canonical_commit_data r first_block_number last_block_number =
     \<lparr> cb_first_block_number = first_block_number, cb_last_block_number = last_block_number,
       cb_first_block_timestamp = nr_first_block_timestamp r, cb_last_block_timestamp = nr_last_block_timestamp r,
       cb_new_state_commitment = nr_new_state_commitment r, cb_da_commitment = nr_da_commitment r,
       cb_number_of_layer1_txs = nr_number_of_layer1_txs r, cb_number_of_layer2_txs = nr_number_of_layer2_txs r,
       cb_priority_operations_hash = nr_priority_operations_hash r,
       cb_dependency_roots_rolling_hash = nr_dependency_roots_rolling_hash r,
       cb_l2_to_l1_logs_root_hash = nr_l2_to_l1_logs_root_hash r, cb_upgrade_tx_hash = nr_upgrade_tx_hash r,
       cb_chain_id = nr_chain_id r, cb_sl_chain_id = nr_sl_chain_id r, cb_pubdata = nr_pubdata r \<rparr>"

definition native_public_input_hash :: "externals \<Rightarrow> b256 \<Rightarrow> b256 \<Rightarrow> pending_batch_info \<Rightarrow> b256" where
  "native_public_input_hash ex previous_state_commitment chain_config_hash info =
     ex_keccak256 ex (previous_state_commitment @ ci_new_state_commitment (pb_commit_info info) @
       chain_config_hash @ v32_batch_output_hash ex info)"

definition build_batch_info ::
    "externals \<Rightarrow> (u64 \<Rightarrow> string + b256) \<Rightarrow> native_batch_run_output \<Rightarrow> u64 \<Rightarrow> u64 \<Rightarrow> u64 \<Rightarrow> pubdata_mode \<Rightarrow>
     protocol_semantic_version \<Rightarrow> u64 \<Rightarrow> u64 \<Rightarrow>
     (string + pending_batch_info \<times> blob_transaction_sidecar option) option" where
  "build_batch_info ex config_hash r batch_number first_block_number last_block_number pubdata_mode
       protocol_version chain_id sl_chain_id =
     (if nr_chain_id r \<noteq> chain_id then Some (Inl ''native batch run chain id mismatch'')
      else if nr_sl_chain_id r \<noteq> sl_chain_id then Some (Inl ''native batch run SL chain id mismatch'')
      else do {
        built \<leftarrow> build_from_canonical_output ex batch_number pubdata_mode protocol_version
          (canonical_commit_data r first_block_number last_block_number);
        Some (case built of
                Inl _ \<Rightarrow> Inl ''canonical batch DA commitment mismatch''
              | Inr (batch_info, blob_sidecar) \<Rightarrow>
                  (case config_hash chain_id of
                     Inl err \<Rightarrow> Inl err
                   | Inr chain_config_hash \<Rightarrow>
                       if native_public_input_hash ex (nr_previous_state_commitment r) chain_config_hash batch_info
                          \<noteq> nr_batch_public_input_hash r
                       then Inl ''batch public input hash mismatch''
                       else Inr (batch_info, blob_sidecar))) })"

definition generate_batch_run ::
    "(tree_block list \<Rightarrow> pubdata_mode \<Rightarrow> string + native_batch_run_output) \<Rightarrow> proving_version \<Rightarrow> tree_block list \<Rightarrow>
     pubdata_mode \<Rightarrow> string + native_batch_run_output" where
  "generate_batch_run v32_run proving_version blocks pubdata_mode =
     (case proving_version of
        PV8 \<Rightarrow> v32_run blocks pubdata_mode
      | _ \<Rightarrow> Inl ''native batch proving is unsupported'')"

lemma build_batch_info_ok:
  assumes "build_batch_info ex config_hash r n first last' mode pv chain_id sl_chain_id = Some (Inr (info, sidecar))"
  shows "nr_chain_id r = chain_id" "nr_sl_chain_id r = sl_chain_id" "ci_batch_number (pb_commit_info info) = n"
    "ci_new_state_commitment (pb_commit_info info) = nr_new_state_commitment r"
    "ci_da_commitment (pb_commit_info info) = nr_da_commitment r"
    "ci_first_block_number (pb_commit_info info) = Some first" "ci_last_block_number (pb_commit_info info) = Some last'"
    "pb_protocol_version info = pv"
    "\<exists>h. config_hash chain_id = Inr h \<and>
      native_public_input_hash ex (nr_previous_state_commitment r) h info = nr_batch_public_input_hash r"
  using assms
  by (auto simp: build_batch_info_def build_from_canonical_output_def canonical_commit_data_def
      split: if_splits bind_splits sum.splits prod.splits)

text \<open>C36.  The commit data taken from a native run is the one the batch program proved: if the checks
  pass, the state commitment and the data commitment are the program's, the latter is also the hash
  recomputed from the published pubdata, and the public input that proof verification will
  reconstruct equals the program's.\<close>

theorem native_batch_info_matches_program:
  assumes "build_batch_info ex config_hash r n first last' mode pv chain_id sl_chain_id = Some (Inr (info, sidecar))"
  shows "\<exists>h da. config_hash chain_id = Inr h \<and> calculate_da_fields ex (nr_pubdata r) mode = Some da \<and>
    ci_new_state_commitment (pb_commit_info info) = nr_new_state_commitment r \<and>
    ci_da_commitment (pb_commit_info info) = da_da_commitment da \<and> da_da_commitment da = nr_da_commitment r \<and>
    ex_keccak256 ex (nr_previous_state_commitment r @ nr_new_state_commitment r @ h @ v32_batch_output_hash ex info) =
      nr_batch_public_input_hash r \<and>
    ci_chain_id (pb_commit_info info) = chain_id \<and> ci_sl_chain_id (pb_commit_info info) = sl_chain_id"
proof -
  from assms obtain da where "calculate_da_fields ex (nr_pubdata r) mode = Some da" "da_da_commitment da = nr_da_commitment r"
    "ci_chain_id (pb_commit_info info) = chain_id" "ci_sl_chain_id (pb_commit_info info) = sl_chain_id"
    by (auto simp: build_batch_info_def build_from_canonical_output_def canonical_commit_data_def
        split: if_splits bind_splits sum.splits prod.splits)
  with build_batch_info_ok [OF assms] show ?thesis by (auto simp: native_public_input_hash_def)
qed

definition sample_native_run :: native_batch_run_output where
  "sample_native_run = \<lparr> nr_prover_input = [], nr_pubdata = [], nr_previous_state_commitment = [],
     nr_batch_public_input_hash = replicate 31 0 @ [32], nr_new_state_commitment = [],
     nr_da_commitment = B256_ZERO, nr_number_of_layer1_txs = 0, nr_number_of_layer2_txs = 1,
     nr_priority_operations_hash = [], nr_dependency_roots_rolling_hash = [], nr_l2_to_l1_logs_root_hash = [],
     nr_first_block_timestamp = 1, nr_last_block_timestamp = 2, nr_chain_id = 270, nr_sl_chain_id = 1,
     nr_upgrade_tx_hash = None \<rparr>"

theorem native_batch_info_matches_program_witness:
  "\<exists>info sidecar. build_batch_info sample_externals (\<lambda>_. Inr []) sample_native_run 3 5 6 Validium
      (ProtocolSemanticVersion 0 32 0) 270 1 = Some (Inr (info, sidecar)) \<and> ci_chain_id (pb_commit_info info) = 270"
proof -
  obtain info sidecar where b: "build_batch_info sample_externals (\<lambda>_. Inr []) sample_native_run 3 5 6 Validium
      (ProtocolSemanticVersion 0 32 0) 270 1 = Some (Inr (info, sidecar))"
    by (simp add: build_batch_info_def sample_native_run_def build_from_canonical_output_def calculate_da_fields_def
        canonical_commit_data_def sample_externals_def native_public_input_hash_def v32_batch_output_hash_def Let_def)
  from native_batch_info_matches_program [OF b] b show ?thesis by blast
qed

end
