(* ===== verification/BatchWire.thy ===== *)
theory BatchWire
  imports BatchTypes
begin

text \<open>
  Round trips of the encodings of \<open>BatchInfo\<close>: what the settlement layer and the verifiers of a
  batch read back is what the sequencer encoded, and the batch commitment binds the commit data.
\<close>

subsection \<open>Round trips of the structures\<close>

text \<open>The values are of type \<open>u64\<close> in the code.\<close>

definition commit_fits :: "commit_batch_info \<Rightarrow> bool" where
  "commit_fits ci \<longleftrightarrow> ci_number_of_layer1_txs ci < 2 ^ 64 \<and> ci_number_of_layer2_txs ci < 2 ^ 64 \<and>
     ci_chain_id ci < 2 ^ 64 \<and> ci_sl_chain_id ci < 2 ^ 64"

lemma u256_to_u64_fits [simp]: "n < 2 ^ 64 \<Longrightarrow> u256_to_u64 n = Some n"
  by (simp add: u256_to_u64_def)

lemma scheme_roundtrip [simp]: "scheme_from_sol (scheme_to_sol s) = Some s"
  by (cases s) (simp_all add: scheme_to_sol_def scheme_from_sol_def)

lemma pubdata_mode_roundtrip [simp]: "pubdata_mode_from_u8 (pubdata_mode_to_u8 m) = Some m"
  by (cases m) (simp_all add: pubdata_mode_to_u8_def pubdata_mode_from_u8_def)

lemma stored_roundtrip:
  "si_number_of_layer1_txs v < 2 ^ 64 \<Longrightarrow>
    stored_from_sol (stored_to_sol v) = Some (v \<lparr> si_last_block_timestamp := Some 0 \<rparr>)"
  by (simp add: stored_to_sol_def stored_from_sol_def)

lemma commit_v31_roundtrip:
  "commit_fits ci \<Longrightarrow> commit_to_sol_v31 ci = Some c \<Longrightarrow> commit_from_sol_v31 c = Some ci"
  by (auto simp: commit_to_sol_v31_def commit_from_sol_v31_def commit_fits_def split: bind_splits)

lemma commit_v30_roundtrip:
  "commit_fits ci \<Longrightarrow> commit_to_sol_v30 ci = Some c \<Longrightarrow>
    commit_from_sol_v30 c = Some (ci \<lparr> ci_number_of_layer2_txs := 0, ci_sl_chain_id := 0 \<rparr>)"
  by (auto simp: commit_to_sol_v30_def commit_from_sol_v30_def commit_fits_def split: bind_splits)

lemma encoding_versions [simp]:
  "V29_ENCODING_VERSION \<noteq> V30_ENCODING_VERSION" "V29_ENCODING_VERSION \<noteq> V31_ENCODING_VERSION"
  "V30_ENCODING_VERSION \<noteq> V31_ENCODING_VERSION" "V31_ENCODING_VERSION \<noteq> V30_ENCODING_VERSION"
  by (simp_all add: V29_ENCODING_VERSION_def V30_ENCODING_VERSION_def V31_ENCODING_VERSION_def)

text \<open>What is relied on of the ABI codec: it decodes the structures of this batch to themselves.\<close>

definition codec_ok :: "('a \<Rightarrow> byte list) \<Rightarrow> (byte list \<Rightarrow> string + 'a) \<Rightarrow> 'a \<Rightarrow> bool" where
  "codec_ok enc dec x \<longleftrightarrow> dec (enc x) = Inr x"

definition codec_ok_opt :: "('a \<Rightarrow> byte list) \<Rightarrow> (byte list \<Rightarrow> string + 'a) \<Rightarrow> 'a option \<Rightarrow> bool" where
  "codec_ok_opt enc dec x \<longleftrightarrow> (case x of None \<Rightarrow> True | Some y \<Rightarrow> codec_ok enc dec y)"

definition abi_structs_ok :: "abi \<Rightarrow> stored_batch_info \<Rightarrow> commit_batch_info \<Rightarrow> bool" where
  "abi_structs_ok abi prev ci \<longleftrightarrow>
     codec_ok (abi_encode_stored abi) (abi_decode_stored abi) (stored_to_sol prev) \<and>
     codec_ok (abi_encode_v29 abi) (abi_decode_v29 abi) (commit_to_sol_v29 ci) \<and>
     codec_ok_opt (abi_encode_v30 abi) (abi_decode_v30 abi) (commit_to_sol_v30 ci) \<and>
     codec_ok_opt (abi_encode_v31 abi) (abi_decode_v31 abi) (commit_to_sol_v31 ci)"

definition abi_params_ok :: "abi \<Rightarrow> stored_batch_info \<Rightarrow> commit_batch_info \<Rightarrow> bool" where
  "abi_params_ok abi prev ci \<longleftrightarrow>
     codec_ok_opt (abi_encode_params_v30 abi) (abi_decode_params_v30 abi)
       (map_option (\<lambda>c. (stored_to_sol prev, [c])) (commit_to_sol_v30 ci)) \<and>
     codec_ok_opt (abi_encode_params_v31 abi) (abi_decode_params_v31 abi)
       (map_option (\<lambda>c. (stored_to_sol prev, [c])) (commit_to_sol_v31 ci))"

lemma decode_encode_commit_data:
  assumes "encode_commit_data abi ci v = Some (Inr bytes)" "commit_fits ci" "abi_structs_ok abi prev ci"
    and "ci_first_block_number ci = Some first" "ci_last_block_number ci = Some last'"
  shows "decode_commit_data abi bytes v first last' = Some (Inr
    (if v = 29 then (normalized_commit_data ci v) \<lparr> ci_l2_da_commitment_scheme := BlobsAndPubdataKeccak256 \<rparr>
     else normalized_commit_data ci v))"
proof -
  consider "v = 29" | "v = 30" | "v = 31 \<or> v = 32"
    using assms(1) by (auto simp: encode_commit_data_def split: if_splits)
  then show ?thesis
  proof cases
    case 1
    with assms show ?thesis
      by (auto simp: encode_commit_data_def decode_commit_data_def abi_structs_ok_def codec_ok_def
          normalized_commit_data_def commit_to_sol_v29_def commit_fits_def)
  next
    case 2
    then obtain c where "commit_to_sol_v30 ci = Some c" "bytes = abi_encode_v30 abi c"
      using assms(1) by (auto simp: encode_commit_data_def)
    with 2 assms commit_v30_roundtrip [OF assms(2)] show ?thesis
      by (auto simp: decode_commit_data_def abi_structs_ok_def codec_ok_def codec_ok_opt_def normalized_commit_data_def)
  next
    case 3
    then obtain c where "commit_to_sol_v31 ci = Some c" "bytes = abi_encode_v31 abi c"
      using assms(1) by (auto simp: encode_commit_data_def)
    with 3 assms commit_v31_roundtrip [OF assms(2)] show ?thesis
      by (auto simp: decode_commit_data_def abi_structs_ok_def codec_ok_def codec_ok_opt_def normalized_commit_data_def)
  qed
qed

lemma verify_request_decodes:
  assumes "encode_verify_batch_request abi batch request_id = Some (Inr req)"
    and "ci = pb_commit_info (bm_batch_info batch)" "prev = bm_previous_stored_batch_info batch"
    and "commit_fits ci" "si_number_of_layer1_txs prev < 2 ^ 64" "abi_structs_ok abi prev ci"
    and "ci_first_block_number ci = Some (bm_first_block_number batch)"
    and "ci_last_block_number ci = Some (bm_last_block_number batch)"
  shows "\<exists>vr v. verification_request_try_from abi req = Some (Inr vr) \<and>
    v = minor (pb_protocol_version (bm_batch_info batch)) \<and> vr_execution_protocol_version vr = v \<and>
    vr_commit_data vr = (if v = 29
       then (normalized_commit_data ci v) \<lparr> ci_l2_da_commitment_scheme := BlobsAndPubdataKeccak256 \<rparr>
       else normalized_commit_data ci v) \<and>
    vr_prev_commit_data vr = prev \<lparr> si_last_block_timestamp := Some 0 \<rparr> \<and>
    vr_request_id vr = request_id \<and> vr_batch_number vr = bm_batch_number batch \<and>
    vr_first_block_number vr = bm_first_block_number batch \<and> vr_last_block_number vr = bm_last_block_number batch \<and>
    vr_pubdata_mode vr = bm_pubdata_mode batch"
proof -
  let ?v = "minor (pb_protocol_version (bm_batch_info batch))"
  obtain bytes where b: "encode_commit_data abi ci ?v = Some (Inr bytes)" and
    req: "vb_commit_data req = bytes" "vb_prev_commit_data req = abi_encode_stored abi (stored_to_sol prev)"
      "vb_execution_protocol_version req = ?v" "vb_first_block_number req = bm_first_block_number batch"
      "vb_last_block_number req = bm_last_block_number batch" "vb_request_id req = request_id"
      "vb_batch_number req = bm_batch_number batch" "vb_pubdata_mode req = pubdata_mode_to_u8 (bm_pubdata_mode batch)"
    using assms(1-3)
    by (auto simp: encode_verify_batch_request_def Let_def split: if_splits bind_splits sum.splits)
  have "abi_decode_stored abi (abi_encode_stored abi (stored_to_sol prev)) = Inr (stored_to_sol prev)"
    using assms(6) by (simp add: abi_structs_ok_def codec_ok_def)
  then show ?thesis
    unfolding verification_request_try_from_def req decode_encode_commit_data [OF b assms(4,6,7,8)]
    by (simp add: stored_roundtrip [OF assms(5)])
qed

subsection \<open>Properties\<close>

text \<open>C35.  A verifier decodes from a verification request exactly what the sequencer encoded: the
  commit data normalised for the protocol version, the previous batch and the block range.  Only for
  version 29 the commitment scheme is not transmitted: it is read back as \<open>BlobsAndPubdataKeccak256\<close>,
  whatever it was.\<close>

theorem verify_request_roundtrip:
  assumes "encode_verify_batch_request abi batch request_id = Some (Inr req)"
    and "ci = pb_commit_info (bm_batch_info batch)" "prev = bm_previous_stored_batch_info batch"
    and "commit_fits ci" "si_number_of_layer1_txs prev < 2 ^ 64" "abi_structs_ok abi prev ci"
    and "ci_first_block_number ci = Some (bm_first_block_number batch)"
    and "ci_last_block_number ci = Some (bm_last_block_number batch)"
  shows "\<exists>vr v. verification_request_try_from abi req = Some (Inr vr) \<and>
    v = minor (pb_protocol_version (bm_batch_info batch)) \<and> vr_execution_protocol_version vr = v \<and>
    vr_commit_data vr = (if v = 29
       then (normalized_commit_data ci v) \<lparr> ci_l2_da_commitment_scheme := BlobsAndPubdataKeccak256 \<rparr>
       else normalized_commit_data ci v) \<and>
    vr_prev_commit_data vr = prev \<lparr> si_last_block_timestamp := Some 0 \<rparr> \<and>
    vr_request_id vr = request_id \<and> vr_batch_number vr = bm_batch_number batch \<and>
    vr_first_block_number vr = bm_first_block_number batch \<and> vr_last_block_number vr = bm_last_block_number batch \<and>
    vr_pubdata_mode vr = bm_pubdata_mode batch"
  using assms by (rule verify_request_decodes)

definition sample_abi :: "stored_batch_info \<Rightarrow> commit_batch_info \<Rightarrow> abi" where
  "sample_abi prev ci =
     \<lparr> abi_encode_v29 = (\<lambda>_. []), abi_encode_v30 = (\<lambda>_. []), abi_encode_v31 = (\<lambda>_. []), abi_encode_stored = (\<lambda>_. []),
       abi_decode_v29 = (\<lambda>_. Inr (commit_to_sol_v29 ci)), abi_decode_v30 = (\<lambda>_. Inr (the (commit_to_sol_v30 ci))),
       abi_decode_v31 = (\<lambda>_. Inr (the (commit_to_sol_v31 ci))), abi_decode_stored = (\<lambda>_. Inr (stored_to_sol prev)),
       abi_encode_params_v29 = (\<lambda>_. []), abi_encode_params_v30 = (\<lambda>_. []), abi_encode_params_v31 = (\<lambda>_. []),
       abi_decode_params_v30 = (\<lambda>_. Inr (stored_to_sol prev, [the (commit_to_sol_v30 ci)])),
       abi_decode_params_v31 = (\<lambda>_. Inr (stored_to_sol prev, [the (commit_to_sol_v31 ci)])),
       abi_shared_bridge_selector = [1, 2, 3, 4], abi_multisig_selector = [5, 6, 7, 8],
       abi_decode_shared_bridge_call = (\<lambda>_. Inl []), abi_decode_multisig_call = (\<lambda>_. Inl []) \<rparr>"

lemma sample_abi_ok: "abi_structs_ok (sample_abi prev ci) prev ci" "abi_params_ok (sample_abi prev ci) prev ci"
  by (auto simp: abi_structs_ok_def abi_params_ok_def codec_ok_def codec_ok_opt_def sample_abi_def split: option.split)

lemma sample_commit_fits: "commit_fits (sample_commit_info n)"
  by (simp add: commit_fits_def sample_commit_info_def)

theorem verify_request_roundtrip_witness:
  "\<exists>req vr. encode_verify_batch_request (sample_abi (sample_stored_info 4) (sample_commit_info 5)) (sample_metadata 5) 9 = Some (Inr req) \<and>
    verification_request_try_from (sample_abi (sample_stored_info 4) (sample_commit_info 5)) req = Some (Inr vr) \<and>
    vr_commit_data vr = (sample_commit_info 5) \<lparr> ci_number_of_layer2_txs := 0, ci_sl_chain_id := 0 \<rparr>"
proof -
  let ?abi = "sample_abi (sample_stored_info 4) (sample_commit_info 5)"
  obtain req where req: "encode_verify_batch_request ?abi (sample_metadata 5) 9 = Some (Inr req)"
    by (auto simp: encode_verify_batch_request_def sample_metadata_def encode_commit_data_def commit_to_sol_v30_def
        sample_commit_info_def Let_def)
  have m: "pb_commit_info (bm_batch_info (sample_metadata 5)) = sample_commit_info 5"
    "bm_previous_stored_batch_info (sample_metadata 5) = sample_stored_info 4"
    "ci_first_block_number (sample_commit_info 5) = Some (bm_first_block_number (sample_metadata 5))"
    "ci_last_block_number (sample_commit_info 5) = Some (bm_last_block_number (sample_metadata 5))"
    "si_number_of_layer1_txs (sample_stored_info 4) < 2 ^ 64"
    "minor (pb_protocol_version (bm_batch_info (sample_metadata 5))) = 30"
    by (simp_all add: sample_metadata_def sample_commit_info_def sample_stored_info_def)
  from verify_request_roundtrip [OF req m(1) [symmetric] m(2) [symmetric] sample_commit_fits m(5) sample_abi_ok(1) m(3,4)]
  obtain vr where "verification_request_try_from ?abi req = Some (Inr vr)"
    "vr_commit_data vr = normalized_commit_data (sample_commit_info 5) 30" unfolding m(6) by auto
  with req show ?thesis by (auto simp: normalized_commit_data_def)
qed

text \<open>The calldata of a commit transaction decodes to the previous batch and the normalised commit
  data it was built from, for every protocol version from 30 on.  Calldata of version 29 is
  rejected by its version byte, and no version is mistaken for another.\<close>

theorem commit_calldata_roundtrip:
  assumes "encode_commit_batch_data abi prev ci v = Some data" "commit_fits ci"
    and "si_number_of_layer1_txs prev < 2 ^ 64" "abi_params_ok abi prev ci"
  shows "decode_batch_data abi data = Some
    (if v = 29 then Inl ''unexpected encoding version''
     else Inr (prev \<lparr> si_last_block_timestamp := Some 0 \<rparr>, normalized_commit_data ci v))"
proof -
  consider "v = 29" | "v = 30" | "v = 31 \<or> v = 32"
    using assms(1) by (auto simp: encode_commit_batch_data_def Let_def split: if_splits)
  then show ?thesis
  proof cases
    case 1
    with assms(1) show ?thesis by (auto simp: encode_commit_batch_data_def Let_def decode_batch_data_def)
  next
    case 2
    then obtain c where "commit_to_sol_v30 ci = Some c"
      "data = V30_ENCODING_VERSION # abi_encode_params_v30 abi (stored_to_sol prev, [c])"
      using assms(1) by (auto simp: encode_commit_batch_data_def Let_def split: bind_splits)
    with 2 assms commit_v30_roundtrip [OF assms(2)] stored_roundtrip [OF assms(3)] show ?thesis
      by (auto simp: decode_batch_data_def abi_params_ok_def codec_ok_def codec_ok_opt_def normalized_commit_data_def)
  next
    case 3
    then obtain c where "commit_to_sol_v31 ci = Some c"
      "data = V31_ENCODING_VERSION # abi_encode_params_v31 abi (stored_to_sol prev, [c])"
      using assms(1) by (auto simp: encode_commit_batch_data_def Let_def split: bind_splits)
    with 3 assms commit_v31_roundtrip [OF assms(2)] stored_roundtrip [OF assms(3)] show ?thesis
      by (auto simp: decode_batch_data_def abi_params_ok_def codec_ok_def codec_ok_opt_def normalized_commit_data_def)
  qed
qed

theorem commit_calldata_roundtrip_witness:
  "decode_batch_data (sample_abi (sample_stored_info 4) (sample_commit_info 5)) [4] =
    Some (Inr (sample_stored_info 4, sample_commit_info 5))"
proof -
  have "encode_commit_batch_data (sample_abi (sample_stored_info 4) (sample_commit_info 5)) (sample_stored_info 4)
      (sample_commit_info 5) 31 = Some [4]"
    by (simp add: encode_commit_batch_data_def commit_to_sol_v31_def sample_commit_info_def sample_abi_def
        V31_ENCODING_VERSION_def)
  from commit_calldata_roundtrip [OF this sample_commit_fits _ sample_abi_ok(2)] show ?thesis
    by (simp add: sample_stored_info_def normalized_commit_data_def)
qed

text \<open>The fields that enter the commitment are 32-byte hashes and 64-bit numbers.\<close>

definition pending_fits :: "pending_batch_info \<Rightarrow> bool" where
  "pending_fits p \<longleftrightarrow> (let ci = pb_commit_info p in
     commit_fits ci \<and> ci_first_block_timestamp ci < 2 ^ 64 \<and> ci_last_block_timestamp ci < 2 ^ 64 \<and>
     length (ci_da_commitment ci) = 32 \<and> length (ci_priority_operations_hash ci) = 32 \<and>
     length (ci_l2_to_l1_logs_root_hash ci) = 32 \<and> length (ci_dependency_roots_rolling_hash ci) = 32 \<and>
     length (upgrade_hash_or_zero p) = 32)"

lemma scheme_as_u8_inject [simp]: "scheme_as_u8 a = scheme_as_u8 b \<longleftrightarrow> a = b"
  by (cases a; cases b) (simp_all add: scheme_as_u8_def)

lemma u64_fits_u256: "n < 2 ^ 64 \<Longrightarrow> n < (2::nat) ^ 256"
  by (erule less_le_trans) simp

lemma scheme_fits_u256: "scheme_as_u8 s < 2 ^ 256"
  by (cases s) (simp_all add: scheme_as_u8_def)

lemma fields_fixed:
  assumes "pending_fits p"
  shows "list_all fixed_value (v30_fields p)" "list_all fixed_value (v31_fields p)" "list_all fixed_value (v32_fields p)"
  using assms unfolding pending_fits_def commit_fits_def v30_fields_def v31_fields_def v32_fields_def Let_def
  by (simp_all only: list.pred_inject fixed_value.simps scheme_fits_u256 u64_fits_u256 simp_thms)

lemma fields_same_shape:
  "list_all2 same_shape (v30_fields p) (v30_fields q)" "list_all2 same_shape (v31_fields p) (v31_fields q)"
  "list_all2 same_shape (v32_fields p) (v32_fields q)"
  by (simp_all add: v30_fields_def v31_fields_def v32_fields_def Let_def)

text \<open>The part of the commit data that all layouts share.\<close>

definition committed_part :: "pending_batch_info \<Rightarrow> commit_batch_info \<Rightarrow> bool" where
  "committed_part p ci \<longleftrightarrow> (let c = pb_commit_info p in
     ci_first_block_timestamp c = ci_first_block_timestamp ci \<and> ci_last_block_timestamp c = ci_last_block_timestamp ci \<and>
     ci_l2_da_commitment_scheme c = ci_l2_da_commitment_scheme ci \<and> ci_da_commitment c = ci_da_commitment ci \<and>
     ci_number_of_layer1_txs c = ci_number_of_layer1_txs ci \<and>
     ci_priority_operations_hash c = ci_priority_operations_hash ci \<and>
     ci_l2_to_l1_logs_root_hash c = ci_l2_to_l1_logs_root_hash ci \<and>
     ci_dependency_roots_rolling_hash c = ci_dependency_roots_rolling_hash ci)"

text \<open>What the commitment of a batch is the hash of.\<close>

definition commitment_input :: "externals \<Rightarrow> pending_batch_info \<Rightarrow> byte list" where
  "commitment_input ex p = ex_encode_packed ex
     (let v = minor (pb_protocol_version p) in if v = 30 then v30_fields p else if v = 31 then v31_fields p else v32_fields p)"

text \<open>C12.  The batch commitment is binding and covers no more: if Keccak does not collide on the encodings of
  two batches of the same protocol version, the batches have the same commitment exactly if they agree on
  the timestamps, the data availability scheme and commitment, the count and hash of the L1
  transactions, the root of the logs, the interop roots and the upgrade transaction, from version 31 on
  also on the count of L2 transactions and the settlement layer's chain, and up to version 31 on the
  chain id.\<close>

theorem commitment_is_binding:
  assumes v: "minor (pb_protocol_version p) = v" "minor (pb_protocol_version q) = v" "v \<in> {30, 31, 32}"
    and fits: "pending_fits p" "pending_fits q" and enc: "packed_injective (ex_encode_packed ex)"
    and no_collision: "ex_keccak256 ex (commitment_input ex p) = ex_keccak256 ex (commitment_input ex q) \<Longrightarrow>
      commitment_input ex p = commitment_input ex q"
  shows "public_input_hash ex p = public_input_hash ex q \<longleftrightarrow>
    committed_part p (pb_commit_info q) \<and> upgrade_hash_or_zero p = upgrade_hash_or_zero q \<and>
      (v \<ge> 31 \<longrightarrow> ci_number_of_layer2_txs (pb_commit_info p) = ci_number_of_layer2_txs (pb_commit_info q) \<and>
        ci_sl_chain_id (pb_commit_info p) = ci_sl_chain_id (pb_commit_info q)) \<and>
      (v \<le> 31 \<longrightarrow> ci_chain_id (pb_commit_info p) = ci_chain_id (pb_commit_info q))"
proof -
  have inj: "fp = fq" if "ex_encode_packed ex fp = ex_encode_packed ex fq"
      "list_all2 same_shape fp fq" "list_all fixed_value fp" "list_all fixed_value fq" for fp fq
    using that enc unfolding packed_injective_def by blast
  have h: "public_input_hash ex r = Some (ex_keccak256 ex (commitment_input ex r))"
    if "minor (pb_protocol_version r) = v" for r
    using that v(3) by (auto simp: public_input_hash_def commitment_input_def v32_batch_output_hash_def Let_def)
  have eq: "public_input_hash ex p = public_input_hash ex q \<longleftrightarrow> commitment_input ex p = commitment_input ex q"
    using no_collision by (auto simp: h v)
  consider "v = 30" | "v = 31" | "v = 32" using v(3) by blast
  then show ?thesis
  proof cases
    case 1
    with v(1,2) inj [OF _ fields_same_shape(1) fields_fixed(1) [OF fits(1)] fields_fixed(1) [OF fits(2)]]
    show ?thesis
      unfolding eq by (auto simp: commitment_input_def v30_fields_def committed_part_def Let_def)
  next
    case 2
    with v(1,2) inj [OF _ fields_same_shape(2) fields_fixed(2) [OF fits(1)] fields_fixed(2) [OF fits(2)]]
    show ?thesis
      unfolding eq by (auto simp: commitment_input_def v31_fields_def committed_part_def Let_def)
  next
    case 3
    with v(1,2) inj [OF _ fields_same_shape(3) fields_fixed(3) [OF fits(1)] fields_fixed(3) [OF fits(2)]]
    show ?thesis
      unfolding eq by (auto simp: commitment_input_def v32_fields_def committed_part_def Let_def)
  qed
qed

definition sample_pending :: "u64 \<Rightarrow> pending_batch_info" where
  "sample_pending n = \<lparr> pb_commit_info = (sample_commit_info n)
     \<lparr> ci_da_commitment := B256_ZERO, ci_priority_operations_hash := B256_ZERO,
       ci_l2_to_l1_logs_root_hash := B256_ZERO, ci_dependency_roots_rolling_hash := B256_ZERO \<rparr>,
     pb_upgrade_tx_hash = None, pb_protocol_version = ProtocolSemanticVersion 0 31 0 \<rparr>"

lemma sample_pending_fits: "pending_fits (sample_pending n)"
  by (simp add: pending_fits_def sample_pending_def sample_commit_info_def commit_fits_def B256_ZERO_def
      upgrade_hash_or_zero_def)

text \<open>Two batches that differ only in what the commitment leaves out, hashed injectively.\<close>

definition plain_externals :: externals where
  "plain_externals = sample_externals\<lparr> ex_keccak256 := (\<lambda>bs. bs) \<rparr>"

definition renumbered_pending :: pending_batch_info where
  "renumbered_pending = (sample_pending 4)\<lparr> pb_commit_info := (pb_commit_info (sample_pending 4))\<lparr> ci_batch_number := 7 \<rparr> \<rparr>"

theorem commitment_is_binding_witness:
  "public_input_hash plain_externals (sample_pending 4) = public_input_hash plain_externals renumbered_pending \<and>
   public_input_hash plain_externals (sample_pending 4) \<noteq>
     public_input_hash plain_externals ((sample_pending 4)\<lparr> pb_upgrade_tx_hash := Some (replicate 32 1) \<rparr>)"
proof -
  let ?u = "(sample_pending 4)\<lparr> pb_upgrade_tx_hash := Some (replicate 32 1) \<rparr>"
  have v: "minor (pb_protocol_version (sample_pending 4)) = 31" "minor (pb_protocol_version renumbered_pending) = 31"
    "minor (pb_protocol_version ?u) = 31" "(31::nat) \<in> {30, 31, 32}"
    by (simp_all add: sample_pending_def renumbered_pending_def)
  have fits: "pending_fits renumbered_pending" "pending_fits ?u"
    by (simp_all add: pending_fits_def renumbered_pending_def sample_pending_def sample_commit_info_def commit_fits_def
        B256_ZERO_def upgrade_hash_or_zero_def)
  have enc: "packed_injective (ex_encode_packed plain_externals)"
    using packed_injective_concat by (simp add: plain_externals_def sample_externals_def)
  have inj: "ex_keccak256 plain_externals x = ex_keccak256 plain_externals y \<Longrightarrow> x = y" for x y
    by (simp add: plain_externals_def)
  have "committed_part (sample_pending 4) (pb_commit_info renumbered_pending)"
    "upgrade_hash_or_zero (sample_pending 4) = upgrade_hash_or_zero renumbered_pending"
    "upgrade_hash_or_zero (sample_pending 4) \<noteq> upgrade_hash_or_zero ?u"
    by (simp_all add: committed_part_def renumbered_pending_def upgrade_hash_or_zero_def sample_pending_def B256_ZERO_def)
  then show ?thesis
    using commitment_is_binding [OF v(1,2,4) sample_pending_fits fits(1) enc inj]
      commitment_is_binding [OF v(1,3,4) sample_pending_fits fits(2) enc inj]
    by (simp add: renumbered_pending_def)
qed

end
