(* ===== verification/BTreeMap.thy ===== *)
theory BTreeMap
  imports Prelude
begin

text \<open>
  Ordered maps.  \<open>std::collections::BTreeMap\<close> is modelled as the list of its entries in
  key order, which is what its iterators yield.  The interface that the components rely on
  is the locale \<open>ordered_map\<close>; the list model is an instance of it.
\<close>

type_synonym ('k, 'v) btm = "('k \<times> 'v) list"

definition btm_wf :: "('k::linorder, 'v) btm \<Rightarrow> bool" where
  "btm_wf m = sorted_wrt (<) (map fst m)"

definition btm_get :: "('k, 'v) btm \<Rightarrow> 'k \<Rightarrow> 'v option" where
  "btm_get m k = map_of m k"

fun btm_insert :: "'k::linorder \<Rightarrow> 'v \<Rightarrow> ('k, 'v) btm \<Rightarrow> ('k, 'v) btm" where
  "btm_insert k v [] = [(k, v)]"
| "btm_insert k v ((k', v') # m) =
     (if k < k' then (k, v) # (k', v') # m
      else if k = k' then (k, v) # m
      else (k', v') # btm_insert k v m)"

definition btm_remove :: "'k \<Rightarrow> ('k, 'v) btm \<Rightarrow> ('k, 'v) btm" where
  "btm_remove k m = filter (\<lambda>(k', _). k' \<noteq> k) m"

definition btm_contains_key :: "('k, 'v) btm \<Rightarrow> 'k \<Rightarrow> bool" where
  "btm_contains_key m k = (btm_get m k \<noteq> None)"

definition btm_update :: "'k \<Rightarrow> ('v \<Rightarrow> 'v) \<Rightarrow> ('k, 'v) btm \<Rightarrow> ('k, 'v) btm" where
  "btm_update k f m = map (\<lambda>(k', v). (k', if k' = k then f v else v)) m"

text \<open>\<open>range(k..)\<close> and \<open>range(..k)\<close>: the entries from \<open>k\<close> on and those before \<open>k\<close>, in key order.\<close>

definition btm_range_from :: "'k::linorder \<Rightarrow> ('k, 'v) btm \<Rightarrow> ('k, 'v) btm" where
  "btm_range_from k m = filter (\<lambda>(k', _). k \<le> k') m"

definition btm_range_to :: "'k::linorder \<Rightarrow> ('k, 'v) btm \<Rightarrow> ('k, 'v) btm" where
  "btm_range_to k m = filter (\<lambda>(k', _). k' < k) m"

text \<open>\<open>collect\<close> into a \<open>BTreeMap\<close>: later pairs replace earlier ones with the same key.\<close>

definition btm_of_list :: "('k::linorder \<times> 'v) list \<Rightarrow> ('k, 'v) btm" where
  "btm_of_list kvs = fold (\<lambda>(k, v). btm_insert k v) kvs []"

locale ordered_map =
  fixes wf :: "'m \<Rightarrow> bool" and empty :: 'm and lookup :: "'m \<Rightarrow> 'k::linorder \<Rightarrow> 'v option"
    and insert_key :: "'k \<Rightarrow> 'v \<Rightarrow> 'm \<Rightarrow> 'm" and remove_key :: "'k \<Rightarrow> 'm \<Rightarrow> 'm"
    and key_list :: "'m \<Rightarrow> 'k list"
  assumes wf_empty: "wf empty" and lookup_empty: "lookup empty k = None"
    and wf_insert: "wf m \<Longrightarrow> wf (insert_key k v m)"
    and lookup_insert: "wf m \<Longrightarrow> lookup (insert_key k v m) k' = (if k' = k then Some v else lookup m k')"
    and wf_remove: "wf m \<Longrightarrow> wf (remove_key k m)"
    and lookup_remove: "wf m \<Longrightarrow> lookup (remove_key k m) k' = (if k' = k then None else lookup m k')"
    and keys_sorted: "wf m \<Longrightarrow> sorted_wrt (<) (key_list m)"
    and keys_dom: "wf m \<Longrightarrow> set (key_list m) = {k. lookup m k \<noteq> None}"
begin

lemma lookup_remove_all:
  "wf m \<Longrightarrow> wf (fold remove_key ks m) \<and>
    lookup (fold remove_key ks m) k = (if k \<in> set ks then None else lookup m k)"
  by (induction ks arbitrary: m) (auto simp: wf_remove lookup_remove)

lemma keys_insert: "wf m \<Longrightarrow> set (key_list (insert_key k v m)) = insert k (set (key_list m))"
  by (auto simp: keys_dom wf_insert lookup_insert)

lemma keys_remove: "wf m \<Longrightarrow> set (key_list (remove_key k m)) = set (key_list m) - {k}"
  by (auto simp: keys_dom wf_remove lookup_remove)

end

lemma btm_wf_Nil [simp]: "btm_wf []"
  by (simp add: btm_wf_def)

lemma btm_wf_Cons: "btm_wf ((k, v) # m) \<longleftrightarrow> (\<forall>k' \<in> set (map fst m). k < k') \<and> btm_wf m"
  by (auto simp: btm_wf_def)

lemma btm_wf_distinct: "btm_wf m \<Longrightarrow> distinct (map fst m)"
  by (simp add: btm_wf_def strict_sorted_iff)

lemma btm_insert_keys: "set (map fst (btm_insert k v m)) = insert k (set (map fst m))"
  by (induction m rule: btm_insert.induct [of _ k v]) auto

lemma btm_insert_last: "\<forall>k' \<in> set (map fst m). k' < k \<Longrightarrow> btm_insert k v m = m @ [(k, v)]"
  by (induction k v m rule: btm_insert.induct) auto

lemma btm_insert_wf: "btm_wf m \<Longrightarrow> btm_wf (btm_insert k v m)"
proof (induction k v m rule: btm_insert.induct)
  case (2 k v k' v' m)
  then show ?case
    using btm_insert_keys [of k v m] by (auto simp: btm_wf_Cons dest: bspec)
qed (simp add: btm_wf_def)

lemma btm_get_insert:
  "btm_wf m \<Longrightarrow> btm_get (btm_insert k v m) k' = (if k' = k then Some v else btm_get m k')"
proof (induction k v m rule: btm_insert.induct)
  case (2 k v k1 v1 m)
  then show ?case by (auto simp: btm_get_def btm_wf_Cons)
qed (simp add: btm_get_def)

lemma btm_remove_wf: "btm_wf m \<Longrightarrow> btm_wf (btm_remove k m)"
  by (induction m) (auto simp: btm_wf_def btm_remove_def)

lemma btm_get_remove: "btm_get (btm_remove k m) k' = (if k' = k then None else btm_get m k')"
  by (induction m) (auto simp: btm_get_def btm_remove_def)

lemma btm_get_Some_in: "btm_get m k = Some v \<Longrightarrow> (k, v) \<in> set m"
  by (simp add: btm_get_def map_of_SomeD)

lemma btm_get_iff: "btm_wf m \<Longrightarrow> btm_get m k = Some v \<longleftrightarrow> (k, v) \<in> set m"
  by (simp add: btm_get_def btm_wf_distinct)

lemma btm_get_None: "btm_get m k = None \<longleftrightarrow> k \<notin> set (map fst m)"
  by (simp add: btm_get_def map_of_eq_None_iff)

interpretation btm: ordered_map btm_wf "[]" btm_get btm_insert btm_remove "map fst"
  by unfold_locales
    (simp_all add: btm_insert_wf btm_get_insert btm_remove_wf btm_get_remove btm_get_None
      del: not_None_eq, simp_all add: btm_wf_def)

lemma btm_update_keys [simp]: "map fst (btm_update k f m) = map fst m"
  by (auto simp: btm_update_def)

lemma btm_update_wf [simp]: "btm_wf (btm_update k f m) = btm_wf m"
  by (simp add: btm_wf_def)

lemma btm_get_update: "btm_get (btm_update k f m) k' = (if k' = k then map_option f (btm_get m k') else btm_get m k')"
  by (induction m) (auto simp: btm_get_def btm_update_def)

lemma btm_remove_length: "btm_get m k \<noteq> None \<Longrightarrow> length (btm_remove k m) < length m"
  by (induction m) (auto simp: btm_get_def btm_remove_def split: if_splits intro: le_imp_less_Suc length_filter_le)

subsection \<open>Ranges and collected maps\<close>

lemma btm_wf_filter: "btm_wf m \<Longrightarrow> btm_wf (filter P m)"
  by (induction m) (auto simp: btm_wf_Cons)

lemma btm_wf_append: "btm_wf (m @ m') \<longleftrightarrow> btm_wf m \<and> btm_wf m' \<and> (\<forall>k \<in> fst ` set m. \<forall>k' \<in> fst ` set m'. k < k')"
  by (auto simp: btm_wf_def sorted_wrt_append)

text \<open>The range from a key that is present starts with it; its successor comes next.\<close>

lemma btm_range_from_present:
  assumes "btm_wf m" "btm_get m k = Some v"
  shows "btm_range_from k m = (k, v) # filter (\<lambda>(k', _). k < k') m"
  using assms
proof (induction m)
  case (Cons kv m)
  obtain k1 v1 where kv: "kv = (k1, v1)" by fastforce
  consider "k1 < k" | "k1 = k" | "k < k1" by fastforce
  then show ?case
  proof cases
    case 1
    with Cons kv show ?thesis by (auto simp: btm_wf_Cons btm_range_from_def btm_get_def)
  next
    case 2
    with Cons.prems kv have "filter (\<lambda>(k', _). k \<le> k') m = filter (\<lambda>(k', _). k < k') m"
      by (intro filter_cong) (auto simp: btm_wf_Cons)
    with 2 Cons.prems kv show ?thesis by (simp add: btm_range_from_def btm_get_def)
  next
    case 3
    with Cons.prems kv have "btm_get m k = Some v" by (simp add: btm_get_def split: if_splits)
    then have "k \<in> fst ` set m" using btm_get_Some_in by force
    with 3 Cons.prems kv show ?thesis by (auto simp: btm_wf_Cons)
  qed
qed (simp add: btm_get_def)

lemma btm_greater_first:
  assumes "btm_wf m" "filter (\<lambda>(k', _). k < k') m = (k2, v2) # r"
  shows "btm_get m k2 = Some v2 \<and> k < k2 \<and> (\<forall>k' \<in> fst ` set m. k < k' \<longrightarrow> k2 \<le> k')"
proof -
  have "(k2, v2) \<in> set (filter (\<lambda>(k', _). k < k') m)" using assms(2) by simp
  then have "(k2, v2) \<in> set m" "k < k2" by auto
  moreover have "k2 \<le> k'" if "(k', v') \<in> set m" "k < k'" for k' v'
  proof -
    have "(k', v') \<in> set ((k2, v2) # r)" using that by (simp flip: assms(2))
    moreover have "btm_wf ((k2, v2) # r)" using btm_wf_filter [OF assms(1)] by (simp flip: assms(2))
    ultimately show ?thesis by (force simp: btm_wf_Cons)
  qed
  ultimately show ?thesis using btm_get_iff [OF assms(1)] by auto
qed

lemma btm_less_last:
  assumes "btm_wf m" "btm_range_to k m \<noteq> []" "last (btm_range_to k m) = (k2, v2)"
  shows "btm_get m k2 = Some v2 \<and> k2 < k \<and> (\<forall>k' \<in> fst ` set m. k' < k \<longrightarrow> k' \<le> k2)"
proof -
  have split: "btm_range_to k m = butlast (btm_range_to k m) @ [(k2, v2)]"
    using append_butlast_last_id [OF assms(2)] assms(3) by simp
  have "(k2, v2) \<in> set (btm_range_to k m)" using last_in_set [OF assms(2)] assms(3) by simp
  then have "(k2, v2) \<in> set m" "k2 < k" by (auto simp: btm_range_to_def)
  moreover have "k' \<le> k2" if "(k', v') \<in> set m" "k' < k" for k' v'
  proof -
    have "(k', v') \<in> set (btm_range_to k m)" using that by (simp add: btm_range_to_def)
    then have "(k', v') \<in> set (butlast (btm_range_to k m) @ [(k2, v2)])" using split by simp
    moreover have "btm_wf (butlast (btm_range_to k m) @ [(k2, v2)])"
      using btm_wf_filter [OF assms(1)] split by (simp add: btm_range_to_def)
    ultimately show ?thesis by (force simp: btm_wf_append)
  qed
  ultimately show ?thesis using btm_get_iff [OF assms(1)] by auto
qed

lemma btm_range_to_Nil: "btm_range_to k m = [] \<longleftrightarrow> (\<forall>k' \<in> fst ` set m. \<not> k' < k)"
  by (auto simp: btm_range_to_def filter_empty_conv)

lemma btm_fold_insert:
  assumes "btm_wf m"
  shows "btm_wf (fold (\<lambda>(k, v). btm_insert k v) kvs m)"
    and "fst ` set (fold (\<lambda>(k, v). btm_insert k v) kvs m) = fst ` set kvs \<union> fst ` set m"
    and "btm_get (fold (\<lambda>(k, v). btm_insert k v) kvs m) k =
      (case map_of (rev kvs) k of None \<Rightarrow> btm_get m k | Some v \<Rightarrow> Some v)"
  using assms
proof (induction kvs arbitrary: m)
  case (Cons kv kvs)
  obtain k1 v1 where kv: "kv = (k1, v1)" by fastforce
  { case 1 with Cons kv show ?case by (simp add: btm_insert_wf)
  next
    case 2
    with Cons(2) [OF btm_insert_wf [OF 2, of k1 v1]] kv btm_insert_keys [of k1 v1 m]
    show ?case by auto
  next
    case 3
    with Cons(3) [OF btm_insert_wf [OF 3, of k1 v1]] kv show ?case
      by (auto simp: btm_get_insert map_add_def split: option.splits) }
qed simp_all

lemma btm_of_list_wf: "btm_wf (btm_of_list kvs)"
  by (simp add: btm_of_list_def btm_fold_insert)

lemma btm_of_list_keys: "fst ` set (btm_of_list kvs) = fst ` set kvs"
  by (simp add: btm_of_list_def btm_fold_insert)

lemma btm_of_list_get: "distinct (map fst kvs) \<Longrightarrow> btm_get (btm_of_list kvs) = map_of kvs"
proof -
  assume d: "distinct (map fst kvs)"
  then have "map_of (rev kvs) = map_of kvs" by (intro map_of_inject_set [THEN iffD2]) (simp_all flip: rev_map)
  then show ?thesis
    using btm_fold_insert(3) [of "[]" kvs] by (simp add: btm_of_list_def fun_eq_iff btm_get_def split: option.splits)
qed

end
