(* ===== verification/ProverJobs.thy ===== *)
theory ProverJobs
  imports BTreeMap BatchTypes "HOL-Library.Multiset"
begin

text \<open>
  The queue of proving work (\<open>node/bin/src/prover_api/prover_job_map\<close>): the job map shared by
  the FRI and the SNARK stage.

  Every operation on the job map runs under one mutex, so an operation is a function on
  its state.  Instants are natural numbers; a difference of instants saturates at zero as
  \<open>Instant::duration_since\<close> does.  Metrics and logging are left out, except where computing
  them can panic.
\<close>

subsection \<open>Job entries\<close>

record job_metadata =
  jm_batch_number :: u64
  jm_proving_version :: proving_version
  jm_tx_count :: usize
  jm_computational_native_used :: "u64 option"
  jm_added_at :: nat
  jm_assigned_to_prover_id :: "string option"
  jm_assigned_at :: "nat option"
  jm_current_attempt :: nat

record 'd job_entry =
  je_batch_envelope :: "'d signed_batch_envelope"
  je_metadata :: job_metadata

definition new_from_batch :: "nat \<Rightarrow> 'd signed_batch_envelope \<Rightarrow> job_metadata option" where
  "new_from_batch now e =
     (case bm_proving_version (be_batch e) of
        Inl _ \<Rightarrow> None
      | Inr v \<Rightarrow> Some \<lparr> jm_batch_number = be_batch_number e, jm_proving_version = v,
          jm_tx_count = bm_tx_count (be_batch e), jm_computational_native_used = bm_computational_native_used (be_batch e),
          jm_added_at = now, jm_assigned_to_prover_id = None, jm_assigned_at = None,
          jm_current_attempt = 0 \<rparr>)"

definition assign :: "nat \<Rightarrow> string \<Rightarrow> job_metadata \<Rightarrow> job_metadata" where
  "assign now prover_id m = m \<lparr> jm_assigned_at := Some now,
     jm_assigned_to_prover_id := Some prover_id, jm_current_attempt := jm_current_attempt m + 1 \<rparr>"

definition unassign :: "job_metadata \<Rightarrow> job_metadata" where
  "unassign m = m \<lparr> jm_assigned_at := None, jm_assigned_to_prover_id := None \<rparr>"

record previous_attempts_info =
  pa_attempts :: nat
  pa_time_since_last_assignment :: nat
  pa_last_assigned_to :: string

record job_batch_stats =
  js_min_batch_number :: u64
  js_max_batch_number :: u64
  js_proving_version :: proving_version
  js_max_time_since_added :: nat
  js_total_txs :: usize
  js_total_computational_native_used :: "u64 option"
  js_job_with_max_attempts_info :: "previous_attempts_info option"

text \<open>\<open>Iterator::sum\<close> over options, and \<open>max_by_key\<close>, which returns the last maximum.\<close>

fun sum_options :: "u64 option list \<Rightarrow> u64 option" where
  "sum_options [] = Some 0"
| "sum_options (None # xs) = None"
| "sum_options (Some x # xs) = map_option ((+) x) (sum_options xs)"

fun max_by_key :: "('a \<Rightarrow> nat) \<Rightarrow> 'a list \<Rightarrow> 'a option" where
  "max_by_key f [] = None"
| "max_by_key f (x # xs) =
     (case max_by_key f xs of None \<Rightarrow> Some x | Some y \<Rightarrow> if f x \<le> f y then Some y else Some x)"

definition attempts_info :: "nat \<Rightarrow> job_metadata \<Rightarrow> previous_attempts_info option" where
  "attempts_info now m =
     (if jm_current_attempt m = 0 then None
      else case (jm_assigned_at m, jm_assigned_to_prover_id m) of
             (Some at, Some p) \<Rightarrow> Some \<lparr> pa_attempts = jm_current_attempt m,
               pa_time_since_last_assignment = now - at, pa_last_assigned_to = p \<rparr>
           | _ \<Rightarrow> None)"

definition job_batch_stats_new :: "nat \<Rightarrow> job_metadata list \<Rightarrow> job_batch_stats option" where
  "job_batch_stats_new now ms = do {
     assert_that (ms \<noteq> []);
     Some \<lparr> js_min_batch_number = jm_batch_number (hd ms), js_max_batch_number = jm_batch_number (last ms),
            js_proving_version = jm_proving_version (hd ms),
            js_max_time_since_added = now - jm_added_at (hd ms),
            js_total_txs = sum_list (map jm_tx_count ms),
            js_total_computational_native_used = sum_options (map jm_computational_native_used ms),
            js_job_with_max_attempts_info = max_by_key pa_attempts (List.map_filter (attempts_info now) ms) \<rparr> }"

subsection \<open>The job map\<close>

record 'd prover_job_map =
  pj_jobs :: "(u64, 'd job_entry) btm"
  pj_assignment_timeout :: nat
  pj_max_assigned_batch_range :: usize

definition prover_job_map_new :: "nat \<Rightarrow> usize \<Rightarrow> 'd prover_job_map" where
  "prover_job_map_new timeout range_limit =
     \<lparr> pj_jobs = [], pj_assignment_timeout = timeout, pj_max_assigned_batch_range = range_limit \<rparr>"

text \<open>\<open>keys().next()\<close> and \<open>keys().next_back()\<close> are the first and the last key.\<close>

definition is_queue_full :: "'d prover_job_map \<Rightarrow> bool" where
  "is_queue_full m =
     (case pj_jobs m of
        [] \<Rightarrow> False
      | (lo, _) # _ \<Rightarrow> fst (last (pj_jobs m)) - lo \<ge> pj_max_assigned_batch_range m)"

datatype 'a add_result = Waits | Panics | Added 'a

definition add_job :: "nat \<Rightarrow> 'd signed_batch_envelope \<Rightarrow> 'd prover_job_map \<Rightarrow> 'd prover_job_map add_result" where
  "add_job now e m =
     (if is_queue_full m then Waits
      else case new_from_batch now e of
             None \<Rightarrow> Panics
           | Some md \<Rightarrow> Added (m \<lparr> pj_jobs := btm_insert (be_batch_number e)
               \<lparr> je_batch_envelope = e, je_metadata = md \<rparr> (pj_jobs m) \<rparr>))"

definition is_job_eligible ::
    "'d prover_job_map \<Rightarrow> job_metadata list \<Rightarrow> 'd job_entry \<Rightarrow> nat \<Rightarrow> usize \<Rightarrow> ('d job_entry \<Rightarrow> bool) \<Rightarrow> bool" where
  "is_job_eligible m already_selected entry now limit predicate =
     (if length already_selected \<ge> limit then False
      else if \<not> (case jm_assigned_at (je_metadata entry) of
                    None \<Rightarrow> True
                  | Some assigned_at \<Rightarrow> now - assigned_at \<ge> pj_assignment_timeout m) then False
      else if \<not> predicate entry then False
      else if already_selected = [] then True
      else jm_batch_number (last already_selected) + 1 = jm_batch_number (je_metadata entry) \<and>
           jm_proving_version (je_metadata entry) = jm_proving_version (last already_selected))"

text \<open>The loop over the entries in key order; it returns the updated entries and the
  metadata of the selected ones.\<close>

fun pick_loop ::
    "'d prover_job_map \<Rightarrow> nat \<Rightarrow> usize \<Rightarrow> string \<Rightarrow> ('d job_entry \<Rightarrow> bool) \<Rightarrow> job_metadata list \<Rightarrow>
     (u64, 'd job_entry) btm \<Rightarrow> (u64, 'd job_entry) btm \<times> job_metadata list" where
  "pick_loop m now limit prover_id predicate selected [] = ([], selected)"
| "pick_loop m now limit prover_id predicate selected ((k, entry) # rest) =
     (if \<not> is_job_eligible m selected entry now limit predicate then
        (if selected = []
         then (let (rest', sel) = pick_loop m now limit prover_id predicate selected rest
               in ((k, entry) # rest', sel))
         else ((k, entry) # rest, selected))
      else
        (let md = assign now prover_id (je_metadata entry);
             (rest', sel) = pick_loop m now limit prover_id predicate (selected @ [md]) rest
         in ((k, entry \<lparr> je_metadata := md \<rparr>) # rest', sel)))"

record fri_job =
  fj_batch_number :: u64
  fj_vk_hash :: string

text \<open>\<open>jobs.get(..).unwrap()\<close> panics for a missing key: the result is an option.\<close>

fun job_outputs :: "(u64, 'd job_entry) btm \<Rightarrow> job_metadata list \<Rightarrow> (fri_job \<times> 'd) list option" where
  "job_outputs jobs [] = Some []"
| "job_outputs jobs (md # mds) = do {
     entry \<leftarrow> btm_get jobs (jm_batch_number md);
     rest \<leftarrow> job_outputs jobs mds;
     Some ((\<lparr> fj_batch_number = jm_batch_number md, fj_vk_hash = vk_hash (jm_proving_version md) \<rparr>,
            be_data (je_batch_envelope entry)) # rest) }"

definition pick_jobs_while_with_limit ::
    "nat \<Rightarrow> usize \<Rightarrow> string \<Rightarrow> ('d job_entry \<Rightarrow> bool) \<Rightarrow> 'd prover_job_map \<Rightarrow>
     ('d prover_job_map \<times> (fri_job \<times> 'd) list) option" where
  "pick_jobs_while_with_limit now limit prover_id predicate m =
     (let (jobs, selected) = pick_loop m now limit prover_id predicate [] (pj_jobs m);
          m' = m \<lparr> pj_jobs := jobs \<rparr>
      in if selected = [] then Some (m', [])
         else do {
           stats \<leftarrow> job_batch_stats_new now selected;
           outs \<leftarrow> job_outputs jobs selected;
           Some (m', outs) })"

definition pick_job ::
    "nat \<Rightarrow> nat \<Rightarrow> string \<Rightarrow> ('d job_entry \<Rightarrow> bool) \<Rightarrow> 'd prover_job_map \<Rightarrow>
     ('d prover_job_map \<times> (fri_job \<times> 'd) option) option" where
  "pick_job now min_age prover_id predicate m = do {
     (m', outs) \<leftarrow> pick_jobs_while_with_limit now 1 prover_id
       (\<lambda>entry. now - jm_added_at (je_metadata entry) \<ge> min_age \<and> predicate entry) m;
     Some (m', if outs = [] then None else Some (last outs)) }"

definition has_assignable_job :: "nat \<Rightarrow> ('d job_entry \<Rightarrow> bool) \<Rightarrow> 'd prover_job_map \<Rightarrow> bool" where
  "has_assignable_job now predicate m =
     list_ex (\<lambda>(_, entry). is_job_eligible m [] entry now 1 predicate) (pj_jobs m)"

definition unassign_job :: "u64 \<Rightarrow> string \<Rightarrow> 'd prover_job_map \<Rightarrow> 'd prover_job_map" where
  "unassign_job batch_number prover_id m =
     (case btm_get (pj_jobs m) batch_number of
        None \<Rightarrow> m
      | Some entry \<Rightarrow>
          if jm_assigned_to_prover_id (je_metadata entry) = Some prover_id
          then m \<lparr> pj_jobs := btm_update batch_number
                 (\<lambda>e. e \<lparr> je_metadata := unassign (je_metadata e) \<rparr>) (pj_jobs m) \<rparr>
          else m)"

definition get_job_batch_metadata :: "u64 \<Rightarrow> 'd prover_job_map \<Rightarrow> batch_metadata option" where
  "get_job_batch_metadata batch_number m = map_option (be_batch \<circ> je_batch_envelope) (btm_get (pj_jobs m) batch_number)"

text \<open>The outer option is the panic of \<open>expect("VK hash must exist")\<close>.\<close>

definition get_prover_input :: "u64 \<Rightarrow> 'd prover_job_map \<Rightarrow> (string \<times> 'd) option option" where
  "get_prover_input batch_number m =
     (case btm_get (pj_jobs m) batch_number of
        None \<Rightarrow> Some None
      | Some entry \<Rightarrow>
          (case verification_key_hash (be_batch (je_batch_envelope entry)) of
             Inl _ \<Rightarrow> None
           | Inr vk \<Rightarrow> Some (Some (vk, be_data (je_batch_envelope entry)))))"

text \<open>The removal loop; \<open>jobs.remove(..).unwrap()\<close> panics for a missing key.\<close>

fun remove_jobs ::
    "u64 list \<Rightarrow> (u64, 'd job_entry) btm \<Rightarrow> ((u64, 'd job_entry) btm \<times> 'd job_entry list) option" where
  "remove_jobs [] jobs = Some (jobs, [])"
| "remove_jobs (b # bs) jobs = do {
     entry \<leftarrow> btm_get jobs b;
     (jobs', entries) \<leftarrow> remove_jobs bs (btm_remove b jobs);
     Some (jobs', entry # entries) }"

text \<open>\<open>complete_many_jobs\<close>: the outer option is the panic of the statistics on an empty range,
  the inner one the answer of the function.\<close>

definition complete_many_jobs ::
    "nat \<Rightarrow> u64 \<Rightarrow> u64 \<Rightarrow> 'd prover_job_map \<Rightarrow> ('d prover_job_map \<times> 'd signed_batch_envelope list option) option" where
  "complete_many_jobs now batch_number_from batch_number_to m =
     (let range = [batch_number_from..<batch_number_to + 1] in
      if \<not> list_all (btm_contains_key (pj_jobs m)) range then Some (m, None)
      else do {
        (jobs, completed) \<leftarrow> remove_jobs range (pj_jobs m);
        stats \<leftarrow> job_batch_stats_new now (map je_metadata completed);
        Some (m \<lparr> pj_jobs := jobs \<rparr>, Some (map je_batch_envelope completed)) })"

definition complete_job ::
    "nat \<Rightarrow> u64 \<Rightarrow> 'd prover_job_map \<Rightarrow> ('d prover_job_map \<times> 'd signed_batch_envelope option) option" where
  "complete_job now batch_number m = do {
     (m', r) \<leftarrow> complete_many_jobs now batch_number batch_number m;
     Some (m', case r of None \<Rightarrow> None | Some es \<Rightarrow> if es = [] then None else Some (last es)) }"

record job_state =
  jst_fri_job :: fri_job
  jst_added_seconds_ago :: nat
  jst_assigned_seconds_ago :: "nat option"
  jst_assigned_to_prover_id :: "string option"
  jst_current_attempt :: nat

definition status :: "nat \<Rightarrow> 'd prover_job_map \<Rightarrow> job_state list" where
  "status now m = map (\<lambda>(batch_number, entry).
     \<lparr> jst_fri_job = \<lparr> fj_batch_number = batch_number, fj_vk_hash = vk_hash (jm_proving_version (je_metadata entry)) \<rparr>,
       jst_added_seconds_ago = now - jm_added_at (je_metadata entry),
       jst_assigned_seconds_ago = map_option (\<lambda>t. now - t) (jm_assigned_at (je_metadata entry)),
       jst_assigned_to_prover_id = jm_assigned_to_prover_id (je_metadata entry),
       jst_current_attempt = jm_current_attempt (je_metadata entry) \<rparr>) (pj_jobs m)"

subsection \<open>Well-formed job maps\<close>

definition entry_wf :: "u64 \<Rightarrow> 'd job_entry \<Rightarrow> bool" where
  "entry_wf k e \<longleftrightarrow>
     jm_batch_number (je_metadata e) = k \<and> be_batch_number (je_batch_envelope e) = k \<and>
     bm_proving_version (be_batch (je_batch_envelope e)) = Inr (jm_proving_version (je_metadata e)) \<and>
     (jm_assigned_at (je_metadata e) = None \<longleftrightarrow> jm_assigned_to_prover_id (je_metadata e) = None)"

definition jobs_wf :: "'d prover_job_map \<Rightarrow> bool" where
  "jobs_wf m \<longleftrightarrow> btm_wf (pj_jobs m) \<and> (\<forall>(k, e) \<in> set (pj_jobs m). entry_wf k e)"

definition assignable :: "'d prover_job_map \<Rightarrow> nat \<Rightarrow> 'd job_entry \<Rightarrow> bool" where
  "assignable m now e =
     (case jm_assigned_at (je_metadata e) of None \<Rightarrow> True | Some t \<Rightarrow> now - t \<ge> pj_assignment_timeout m)"

definition reassigned :: "nat \<Rightarrow> string \<Rightarrow> 'd job_entry \<Rightarrow> 'd job_entry" where
  "reassigned now prover_id e = e \<lparr> je_metadata := assign now prover_id (je_metadata e) \<rparr>"

definition follows :: "job_metadata \<Rightarrow> job_metadata \<Rightarrow> bool" where
  "follows a b \<longleftrightarrow> jm_batch_number a + 1 = jm_batch_number b \<and> jm_proving_version b = jm_proving_version a"

lemma assign_simps [simp]:
  "jm_batch_number (assign now p m) = jm_batch_number m"
  "jm_proving_version (assign now p m) = jm_proving_version m"
  "jm_assigned_at (assign now p m) = Some now" "jm_assigned_to_prover_id (assign now p m) = Some p"
  by (simp_all add: assign_def)

lemma unassign_simps [simp]:
  "jm_batch_number (unassign m) = jm_batch_number m"
  "jm_proving_version (unassign m) = jm_proving_version m"
  "jm_assigned_at (unassign m) = None" "jm_assigned_to_prover_id (unassign m) = None"
  by (simp_all add: unassign_def)

lemma is_job_eligible_iff:
  "is_job_eligible m sel e now limit P \<longleftrightarrow>
     length sel < limit \<and> assignable m now e \<and> P e \<and> (sel = [] \<or> follows (last sel) (je_metadata e))"
  by (auto simp: is_job_eligible_def assignable_def follows_def split: option.split)

lemma reassigned_wf: "entry_wf k e \<Longrightarrow> entry_wf k (reassigned now p e)"
  by (simp add: entry_wf_def reassigned_def)

lemma successively_snoc: "successively R (xs @ [y]) \<longleftrightarrow> successively R xs \<and> (xs = [] \<or> R (last xs) y)"
  by (auto simp: successively_append_iff)

definition reassign_all :: "nat \<Rightarrow> string \<Rightarrow> (u64, 'd job_entry) btm \<Rightarrow> (u64, 'd job_entry) btm" where
  "reassign_all now p js = map (\<lambda>(k, e). (k, reassigned now p e)) js"

definition metas :: "(u64, 'd job_entry) btm \<Rightarrow> job_metadata list" where
  "metas js = map (\<lambda>(k, e). je_metadata e) js"

lemma reassign_all_simps [simp]:
  "reassign_all now p [] = []"
  "reassign_all now p ((k, e) # js) = (k, reassigned now p e) # reassign_all now p js"
  "metas [] = []" "metas ((k, e) # js) = je_metadata e # metas js"
  "je_metadata (reassigned now p e) = assign now p (je_metadata e)"
  by (simp_all add: reassign_all_def metas_def reassigned_def)

lemma reassign_all_keys [simp]: "map fst (reassign_all now p js) = map fst js"
  by (auto simp: reassign_all_def)

lemma pick_loop_tail:
  assumes "sel \<noteq> []" "successively follows sel" "length sel \<le> limit"
  shows "\<exists>mid post. jobs = mid @ post \<and>
    pick_loop m now limit p P sel jobs =
      (reassign_all now p mid @ post, sel @ metas (reassign_all now p mid)) \<and>
    length sel + length mid \<le> limit \<and>
    successively follows (sel @ metas (reassign_all now p mid)) \<and>
    (\<forall>(k, e) \<in> set mid. assignable m now e \<and> P e)"
  using assms
proof (induction jobs arbitrary: sel)
  case Nil
  then show ?case by simp
next
  case (Cons ke jobs)
  obtain k e where ke: "ke = (k, e)" by (cases ke)
  let ?md = "assign now p (je_metadata e)"
  show ?case
  proof (cases "is_job_eligible m sel e now limit P")
    case False
    with Cons.prems ke show ?thesis
      by (intro exI [of _ "[]"] exI [of _ "ke # jobs"]) simp
  next
    case True
    then have el: "length sel < limit" "assignable m now e" "P e" "follows (last sel) (je_metadata e)"
      using Cons.prems(1) by (auto simp: is_job_eligible_iff)
    then have "successively follows (sel @ [?md])" "length (sel @ [?md]) \<le> limit"
      using Cons.prems by (auto simp: successively_snoc follows_def)
    with Cons.IH [of "sel @ [?md]"] obtain mid post where
      ih: "jobs = mid @ post" "pick_loop m now limit p P (sel @ [?md]) jobs =
        (reassign_all now p mid @ post, (sel @ [?md]) @ metas (reassign_all now p mid))"
        "length (sel @ [?md]) + length mid \<le> limit"
        "successively follows ((sel @ [?md]) @ metas (reassign_all now p mid))"
        "\<forall>(k, e) \<in> set mid. assignable m now e \<and> P e" by blast
    show ?thesis
      by (rule exI [of _ "(k, e) # mid"], rule exI [of _ post])
        (use True ke ih el in \<open>simp add: reassigned_def Let_def\<close>)
  qed
qed

lemma pick_loop_head:
  assumes "limit > 0"
  shows "\<exists>pre mid post. jobs = pre @ mid @ post \<and>
    pick_loop m now limit p P [] jobs =
      (pre @ reassign_all now p mid @ post, metas (reassign_all now p mid)) \<and>
    length mid \<le> limit \<and> successively follows (metas (reassign_all now p mid)) \<and>
    (\<forall>(k, e) \<in> set mid. assignable m now e \<and> P e) \<and>
    (\<forall>(k, e) \<in> set pre. \<not> (assignable m now e \<and> P e)) \<and> (mid = [] \<longrightarrow> post = [])"
proof (induction jobs)
  case Nil
  show ?case by simp
next
  case (Cons ke jobs)
  obtain k e where ke: "ke = (k, e)" by (cases ke)
  let ?md = "assign now p (je_metadata e)"
  show ?case
  proof (cases "assignable m now e \<and> P e")
    case False
    then have nel: "\<not> is_job_eligible m [] e now limit P" by (auto simp: is_job_eligible_iff)
    from Cons.IH obtain pre mid post where
      ih: "jobs = pre @ mid @ post" "pick_loop m now limit p P [] jobs =
          (pre @ reassign_all now p mid @ post, metas (reassign_all now p mid))"
        "length mid \<le> limit" "successively follows (metas (reassign_all now p mid))"
        "\<forall>(k, e) \<in> set mid. assignable m now e \<and> P e"
        "\<forall>(k, e) \<in> set pre. \<not> (assignable m now e \<and> P e)" "mid = [] \<longrightarrow> post = []" by blast
    show ?thesis
      by (rule exI [of _ "(k, e) # pre"], rule exI [of _ mid], rule exI [of _ post])
        (use False nel ke ih in simp)
  next
    case True
    then have el: "is_job_eligible m [] e now limit P" using assms by (simp add: is_job_eligible_iff)
    have "[?md] \<noteq> []" "successively follows [?md]" "length [?md] \<le> limit" using assms by simp_all
    from pick_loop_tail [OF this, of jobs m now p P] obtain mid post where
      t: "jobs = mid @ post" "pick_loop m now limit p P [?md] jobs =
        (reassign_all now p mid @ post, [?md] @ metas (reassign_all now p mid))"
        "length [?md] + length mid \<le> limit"
        "successively follows ([?md] @ metas (reassign_all now p mid))"
        "\<forall>(k, e) \<in> set mid. assignable m now e \<and> P e" by blast
    show ?thesis
      by (rule exI [of _ "[]"], rule exI [of _ "(k, e) # mid"], rule exI [of _ post])
        (use True ke el t in \<open>simp add: reassigned_def Let_def\<close>)
  qed
qed

lemma pick_loop_zero: "pick_loop m now 0 p P [] jobs = (jobs, [])"
  by (induction jobs) (auto simp: is_job_eligible_iff)

definition job_output :: "u64 \<times> 'd job_entry \<Rightarrow> fri_job \<times> 'd" where
  "job_output = (\<lambda>(k, e). (\<lparr> fj_batch_number = k, fj_vk_hash = vk_hash (jm_proving_version (je_metadata e)) \<rparr>,
     be_data (je_batch_envelope e)))"

lemma job_outputs_eq:
  assumes "\<forall>(k, e) \<in> set js. btm_get jobs k = Some e \<and> jm_batch_number (je_metadata e) = k"
  shows "job_outputs jobs (metas js) = Some (map job_output js)"
  using assms by (induction js) (auto simp: job_output_def)

lemma jobs_wf_pick:
  assumes "jobs_wf m" "pj_jobs m = pre @ mid @ post"
  shows "jobs_wf (m \<lparr> pj_jobs := pre @ reassign_all now p mid @ post \<rparr>)"
proof -
  from assms have "btm_wf (pre @ reassign_all now p mid @ post)" by (simp add: jobs_wf_def btm_wf_def)
  moreover have "\<forall>(k, e) \<in> set (reassign_all now p mid). entry_wf k e"
    using assms by (auto simp: reassign_all_def jobs_wf_def intro!: reassigned_wf)
  ultimately show ?thesis using assms by (auto simp: jobs_wf_def)
qed

text \<open>What a pick does: it finds the first run of entries it can take, marks them as assigned and
  leaves everything else as it is.\<close>

lemma pick_jobs_spec:
  assumes wf: "jobs_wf m"
  obtains pre mid post where "pj_jobs m = pre @ mid @ post"
    "pick_jobs_while_with_limit now limit p P m =
       Some (m \<lparr> pj_jobs := pre @ reassign_all now p mid @ post \<rparr>, map job_output mid)"
    "length mid \<le> limit" "successively follows (metas (reassign_all now p mid))"
    "\<forall>(k, e) \<in> set mid. assignable m now e \<and> P e"
    "\<forall>(k, e) \<in> set pre. limit > 0 \<longrightarrow> \<not> (assignable m now e \<and> P e)" "mid = [] \<longrightarrow> post = []"
proof (cases "limit > 0")
  case False
  then show ?thesis
    using that [of "pj_jobs m" "[]" "[]"] by (simp add: pick_jobs_while_with_limit_def pick_loop_zero)
next
  case True
  from pick_loop_head [OF True, of "pj_jobs m" m now p P] obtain pre mid post where
    h: "pj_jobs m = pre @ mid @ post" "pick_loop m now limit p P [] (pj_jobs m) =
        (pre @ reassign_all now p mid @ post, metas (reassign_all now p mid))"
      "length mid \<le> limit" "successively follows (metas (reassign_all now p mid))"
      "\<forall>(k, e) \<in> set mid. assignable m now e \<and> P e"
      "\<forall>(k, e) \<in> set pre. \<not> (assignable m now e \<and> P e)" "mid = [] \<longrightarrow> post = []" by blast
  let ?jobs = "pre @ reassign_all now p mid @ post"
  have wf': "jobs_wf (m \<lparr> pj_jobs := ?jobs \<rparr>)" by (rule jobs_wf_pick [OF wf h(1)])
  then have "btm_wf ?jobs" and "\<forall>(k, e) \<in> set (reassign_all now p mid). entry_wf k e"
    by (auto simp: jobs_wf_def)
  then have "\<forall>(k, e) \<in> set (reassign_all now p mid). btm_get ?jobs k = Some e \<and> jm_batch_number (je_metadata e) = k"
    by (auto simp: btm_get_iff entry_wf_def split: prod.splits)
  from job_outputs_eq [OF this]
  have outs: "job_outputs ?jobs (metas (reassign_all now p mid)) = Some (map job_output mid)"
    by (auto simp: job_output_def reassign_all_def reassigned_def)
  have "pick_jobs_while_with_limit now limit p P m = Some (m \<lparr> pj_jobs := ?jobs \<rparr>, map job_output mid)"
  proof (cases "mid = []")
    case True
    with h(1,2) show ?thesis by (simp add: pick_jobs_while_with_limit_def)
  next
    case False
    then have ne: "metas (reassign_all now p mid) \<noteq> []" by (simp add: metas_def reassign_all_def)
    then obtain st where "job_batch_stats_new now (metas (reassign_all now p mid)) = Some st"
      by (auto simp: job_batch_stats_new_def)
    with h(2) outs ne show ?thesis by (simp add: pick_jobs_while_with_limit_def)
  qed
  with h that show ?thesis by blast
qed

lemma reassign_all_get:
  assumes wf: "jobs_wf m" and "pj_jobs m = pre @ mid @ post"
  shows "btm_get (pre @ reassign_all now p mid @ post) k =
    (if k \<in> set (map fst mid) then map_option (reassigned now p) (btm_get (pj_jobs m) k) else btm_get (pj_jobs m) k)"
proof -
  have mid: "map_of (reassign_all now p mid) k = map_option (reassigned now p) (map_of mid k)"
    by (induction mid) (auto simp: reassign_all_def)
  have "distinct (map fst (pj_jobs m))" using wf by (simp add: jobs_wf_def btm_wf_distinct)
  then have "k \<in> set (map fst mid) \<Longrightarrow> k \<notin> set (map fst pre) \<and> k \<notin> set (map fst post)"
    using assms(2) by auto
  then show ?thesis
    unfolding assms(2) btm_get_def
    using map_of_eq_None_iff [of pre k] map_of_eq_None_iff [of mid k] map_of_eq_None_iff [of post k]
    by (auto simp: map_add_def mid split: option.splits)
qed

subsection \<open>Completing jobs\<close>

lemma remove_jobs_eq:
  assumes "btm_wf jobs" "distinct bs" "\<forall>b \<in> set bs. btm_get jobs b \<noteq> None"
  shows "remove_jobs bs jobs = Some (fold btm_remove bs jobs, map (\<lambda>b. the (btm_get jobs b)) bs)"
  using assms
proof (induction bs arbitrary: jobs)
  case (Cons b bs)
  then obtain e where e: "btm_get jobs b = Some e" by auto
  have "remove_jobs bs (btm_remove b jobs) = Some (fold btm_remove bs (btm_remove b jobs), map (\<lambda>b'. the (btm_get (btm_remove b jobs) b')) bs)"
    by (rule Cons.IH) (use Cons.prems in \<open>auto simp: btm.wf_remove btm_get_remove\<close>)
  moreover have "map (\<lambda>b'. the (btm_get (btm_remove b jobs) b')) bs = map (\<lambda>b'. the (btm_get jobs b')) bs"
    using Cons.prems by (auto simp: btm_get_remove)
  ultimately show ?case using e by simp
qed simp

lemma complete_many_jobs_spec:
  assumes wf: "jobs_wf m" and le: "a \<le> b"
  shows "complete_many_jobs now a b m =
    (if \<forall>k \<in> {a..b}. btm_get (pj_jobs m) k \<noteq> None
     then Some (m \<lparr> pj_jobs := fold btm_remove [a..<b + 1] (pj_jobs m) \<rparr>,
                Some (map (\<lambda>k. je_batch_envelope (the (btm_get (pj_jobs m) k))) [a..<b + 1]))
     else Some (m, None))"
proof -
  have all: "list_all (btm_contains_key (pj_jobs m)) [a..<b + 1] \<longleftrightarrow> (\<forall>k \<in> {a..b}. btm_get (pj_jobs m) k \<noteq> None)"
    by (auto simp: list_all_iff btm_contains_key_def)
  show ?thesis
  proof (cases "\<forall>k \<in> {a..b}. btm_get (pj_jobs m) k \<noteq> None")
    case True
    then have "remove_jobs [a..<b + 1] (pj_jobs m) =
        Some (fold btm_remove [a..<b + 1] (pj_jobs m), map (\<lambda>k. the (btm_get (pj_jobs m) k)) [a..<b + 1])"
      using wf by (intro remove_jobs_eq) (auto simp: jobs_wf_def)
    with True all le show ?thesis
      by (simp add: complete_many_jobs_def job_batch_stats_new_def comp_def Let_def del: upt_Suc)
  qed (use all in \<open>auto simp: complete_many_jobs_def Let_def simp del: upt_Suc\<close>)
qed

lemma remove_all_wf: "jobs_wf m \<Longrightarrow> jobs_wf (m \<lparr> pj_jobs := fold btm_remove ks (pj_jobs m) \<rparr>)"
proof (induction ks arbitrary: m)
  case (Cons k ks)
  have "jobs_wf (m \<lparr> pj_jobs := btm_remove k (pj_jobs m) \<rparr>)"
    using Cons.prems by (auto simp: jobs_wf_def btm_remove_wf, auto simp: btm_remove_def)
  from Cons.IH [OF this] show ?case by simp
qed simp

lemma successively_Suc_upt:
  assumes "successively (\<lambda>a b. Suc a = b) ks" "ks \<noteq> []"
  shows "ks = [hd ks..<Suc (last ks)]"
  using assms
proof (induction ks rule: rev_induct)
  case (snoc k ks)
  show ?case
  proof (cases "ks = []")
    case False
    with snoc have ks: "ks = [hd ks..<Suc (last ks)]" and k: "k = Suc (last ks)"
      by (auto simp: successively_snoc)
    have "hd ks \<le> last ks" using arg_cong [OF ks, of length] False by (cases "hd ks \<le> last ks") simp_all
    with ks k False show ?thesis by simp
  qed simp
qed simp

lemma picked_keys:
  assumes "successively follows (metas (reassign_all now p mid))" "\<forall>(k, e) \<in> set mid. entry_wf k e" "mid \<noteq> []"
  shows "map fst mid = [fst (hd mid)..<Suc (fst (last mid))]"
proof -
  have "map jm_batch_number (metas (reassign_all now p mid)) = map fst mid"
    using assms(2) by (auto simp: metas_def reassign_all_def reassigned_def entry_wf_def)
  moreover have "successively (\<lambda>a b. Suc a = b) (map jm_batch_number (metas (reassign_all now p mid)))"
    unfolding successively_map by (rule successively_mono [OF assms(1)]) (simp add: follows_def)
  ultimately have "successively (\<lambda>a b. Suc a = b) (map fst mid)" by simp
  from successively_Suc_upt [OF this] assms(3) show ?thesis by (simp add: hd_map last_map)
qed

lemma has_assignable_job_iff:
  "has_assignable_job now P m \<longleftrightarrow> (\<exists>(k, e) \<in> set (pj_jobs m). assignable m now e \<and> P e)"
  by (auto simp: has_assignable_job_def list_ex_iff is_job_eligible_iff)

lemma fold_btm_remove_length:
  assumes "btm_wf m" "btm_get m k \<noteq> None"
  shows "length (fold btm_remove (k # ks) m) < length m"
proof -
  have le: "length (fold btm_remove ks m') \<le> length m'" for m' :: "('a::linorder, 'b) btm"
    by (induction ks arbitrary: m') (auto simp: btm_remove_def intro: le_trans length_filter_le)
  from le [of "btm_remove k m"] btm_remove_length [OF assms(2)] show ?thesis by simp
qed

lemma jobs_wf_get: "jobs_wf m \<Longrightarrow> btm_get (pj_jobs m) k = Some e \<Longrightarrow> entry_wf k e"
  by (auto simp: jobs_wf_def btm_get_iff)

lemma range_batch_numbers:
  assumes wf: "jobs_wf m" and "\<forall>k \<in> {a..b}. btm_get (pj_jobs m) k \<noteq> None"
  shows "map be_batch_number (map (\<lambda>k. je_batch_envelope (the (btm_get (pj_jobs m) k))) [a..<b + 1]) = [a..<b + 1]"
  unfolding map_map
proof (intro map_idI)
  fix k assume "k \<in> set [a..<b + 1]"
  with assms(2) obtain e where "btm_get (pj_jobs m) k = Some e" by force
  with jobs_wf_get [OF wf this] show "(be_batch_number \<circ> (\<lambda>k. je_batch_envelope (the (btm_get (pj_jobs m) k)))) k = k"
    by (simp add: entry_wf_def)
qed

text \<open>Completing a range moves its keys out of the map and loses none.\<close>

lemma pj_jobs_update: "pj_jobs (m \<lparr> pj_jobs := x \<rparr>) = x"
  by simp

lemma remove_all_keys:
  assumes wf: "jobs_wf m" and present: "\<forall>k \<in> {a..b}. btm_get (pj_jobs m) k \<noteq> None"
  shows "mset (map fst (pj_jobs m)) = mset (map be_batch_number
      (map (\<lambda>k. je_batch_envelope (the (btm_get (pj_jobs m) k))) [a..<b + 1])) +
    mset (map fst (fold btm_remove [a..<b + 1] (pj_jobs m)))"
proof -
  let ?f = "fold btm_remove [a..<b + 1] (pj_jobs m)"
  have bwf: "btm_wf (pj_jobs m)" using wf by (simp add: jobs_wf_def)
  note f = btm.lookup_remove_all [OF bwf, of "[a..<b + 1]"]
  have "set (map fst ?f) = set (map fst (pj_jobs m)) - {a..b}"
    using f btm.keys_dom [OF bwf] btm.keys_dom [of ?f] by auto
  moreover have "{a..b} \<subseteq> set (map fst (pj_jobs m))" using present btm.keys_dom [OF bwf] by blast
  ultimately have u: "set (map fst (pj_jobs m)) = set [a..<b + 1] \<union> set (map fst ?f)" "set [a..<b + 1] \<inter> set (map fst ?f) = {}"
    by auto
  have d: "distinct (map fst (pj_jobs m))" "distinct ([a..<b + 1] @ map fst ?f)"
    using u(2) f btm_wf_distinct [OF bwf] btm_wf_distinct [of ?f] by auto
  have "set (map fst (pj_jobs m)) = set ([a..<b + 1] @ map fst ?f)" using u(1) by simp
  then have "mset (map fst (pj_jobs m)) = mset ([a..<b + 1] @ map fst ?f)"
    by (rule set_eq_iff_mset_eq_distinct [OF d, THEN iffD1])
  then show ?thesis unfolding range_batch_numbers [OF assms] by (simp only: mset_append)
qed

text \<open>One round of the fake prover: some batches are picked, all of them are completed, and the
  map gets smaller.\<close>

lemma pick_complete_round:
  assumes wf: "jobs_wf m" and "has_assignable_job now P m" "limit > 0"
  obtains m1 outs m2 batches where
    "pick_jobs_while_with_limit now limit p P m = Some (m1, outs)" "outs \<noteq> []"
    "complete_many_jobs now (fj_batch_number (fst (hd outs))) (fj_batch_number (fst (last outs))) m1 = Some (m2, Some batches)"
    "jobs_wf m2" "length (pj_jobs m2) < length (pj_jobs m)"
    "mset (map fst (pj_jobs m)) = mset (map be_batch_number batches) + mset (map fst (pj_jobs m2))"
proof -
  obtain pre mid post where
    h: "pj_jobs m = pre @ mid @ post" "pick_jobs_while_with_limit now limit p P m =
        Some (m \<lparr> pj_jobs := pre @ reassign_all now p mid @ post \<rparr>, map job_output mid)"
      "successively follows (metas (reassign_all now p mid))"
      "\<forall>(k, e) \<in> set pre. limit > 0 \<longrightarrow> \<not> (assignable m now e \<and> P e)" "mid = [] \<longrightarrow> post = []"
    by (rule pick_jobs_spec [OF wf, of now limit p P])
  have ne: "mid \<noteq> []"
    using assms(2,3) h(1,4,5) by (auto simp: has_assignable_job_iff)
  let ?m1 = "m \<lparr> pj_jobs := pre @ reassign_all now p mid @ post \<rparr>"
  have wf1: "jobs_wf ?m1" by (rule jobs_wf_pick [OF wf h(1)])
  have entries: "\<forall>(k, e) \<in> set mid. entry_wf k e" using wf h(1) by (auto simp: jobs_wf_def)
  note keys = picked_keys [OF h(3) entries ne]
  let ?a = "fst (hd mid)" and ?b = "fst (last mid)"
  have ab: "?a \<le> ?b" using arg_cong [OF keys, of length] ne by (cases "?a \<le> ?b") simp_all
  have present: "\<forall>k \<in> {?a..?b}. btm_get (pj_jobs ?m1) k \<noteq> None"
  proof
    fix k assume "k \<in> {?a..?b}"
    then have "k \<in> set (map fst mid)" unfolding keys by auto
    then show "btm_get (pj_jobs ?m1) k \<noteq> None" unfolding btm_get_None by (simp del: set_map)
  qed
  have outs: "fj_batch_number (fst (hd (map job_output mid))) = ?a" "fj_batch_number (fst (last (map job_output mid))) = ?b"
    using ne by (simp_all add: hd_map last_map job_output_def split: prod.splits)
  let ?m2 = "?m1 \<lparr> pj_jobs := fold btm_remove [?a..<?b + 1] (pj_jobs ?m1) \<rparr>"
  have "length (pj_jobs ?m2) < length (pj_jobs ?m1)"
    using fold_btm_remove_length [of "pj_jobs ?m1" ?a "[Suc ?a..<?b + 1]"] present ab wf1
    by (simp add: jobs_wf_def upt_conv_Cons del: upt_Suc)
  then have len: "length (pj_jobs ?m2) < length (pj_jobs m)" using h(1) by (simp add: reassign_all_def)
  let ?es = "map (\<lambda>k. je_batch_envelope (the (btm_get (pj_jobs ?m1) k))) [?a..<?b + 1]"
  have "map fst (pj_jobs ?m1) = map fst (pj_jobs m)" using h(1) by (auto simp: reassign_all_def)
  with remove_all_keys [OF wf1 present]
  have keys: "mset (map fst (pj_jobs m)) = mset (map be_batch_number ?es) + mset (map fst (pj_jobs ?m2))"
    by (simp only: pj_jobs_update)
  have complete: "complete_many_jobs now ?a ?b ?m1 = Some (?m2, Some ?es)"
    using complete_many_jobs_spec [OF wf1 ab, of now] present by (simp del: upt_Suc)
  have "map job_output mid \<noteq> []" using ne by simp
  from that [OF h(2) this _ remove_all_wf [OF wf1] len keys] complete outs show ?thesis by simp
qed

subsection \<open>Operations preserve well-formedness\<close>

lemma jobs_wf_update_jobs:
  "jobs_wf (m \<lparr> pj_jobs := js \<rparr>) \<longleftrightarrow> btm_wf js \<and> (\<forall>(k, e) \<in> set js. entry_wf k e)"
  by (simp add: jobs_wf_def)

lemma btm_insert_subset: "set (btm_insert k v m) \<subseteq> insert (k, v) (set m)"
  by (induction k v m rule: btm_insert.induct) auto

lemma add_job_wf:
  assumes "jobs_wf m" "add_job now e m = Added m'"
  shows "jobs_wf m'"
proof -
  obtain md where md: "new_from_batch now e = Some md"
    "m' = m \<lparr> pj_jobs := btm_insert (be_batch_number e) \<lparr> je_batch_envelope = e, je_metadata = md \<rparr> (pj_jobs m) \<rparr>"
    using assms(2) by (auto simp: add_job_def split: if_splits option.splits)
  have "entry_wf (be_batch_number e) \<lparr> je_batch_envelope = e, je_metadata = md \<rparr>"
    using md(1) by (auto simp: new_from_batch_def entry_wf_def split: sum.splits)
  with assms(1) btm_insert_subset [of "be_batch_number e" "\<lparr> je_batch_envelope = e, je_metadata = md \<rparr>" "pj_jobs m"]
  show ?thesis unfolding md(2) jobs_wf_update_jobs by (auto simp: jobs_wf_def btm_insert_wf)
qed

lemma unassign_job_wf: "jobs_wf m \<Longrightarrow> jobs_wf (unassign_job b p m)"
proof -
  assume wf: "jobs_wf m"
  have "jobs_wf (m \<lparr> pj_jobs := btm_update b (\<lambda>e. e \<lparr> je_metadata := unassign (je_metadata e) \<rparr>) (pj_jobs m) \<rparr>)"
    unfolding jobs_wf_update_jobs btm_update_wf
    using wf unfolding jobs_wf_def by (auto simp: btm_update_def entry_wf_def unassign_def)
  with wf show ?thesis by (auto simp: unassign_job_def split: option.split)
qed

definition span :: "'d prover_job_map \<Rightarrow> nat" where
  "span m = (case pj_jobs m of [] \<Rightarrow> 0 | (lo, _) # _ \<Rightarrow> fst (last (pj_jobs m)) - lo)"

lemma sorted_le_last: "sorted xs \<Longrightarrow> \<forall>x \<in> set xs. x \<le> (last xs :: 'a::linorder)"
  by (induction xs) auto

lemma job_output_metas:
  "\<forall>(k, e) \<in> set js. entry_wf k e \<Longrightarrow> map fst (map job_output js) =
    map (\<lambda>md. \<lparr> fj_batch_number = jm_batch_number md, fj_vk_hash = vk_hash (jm_proving_version md) \<rparr>)
      (metas (reassign_all now p js))"
  by (induction js) (auto simp: job_output_def metas_def reassign_all_def reassigned_def entry_wf_def)

subsection \<open>Properties\<close>

text \<open>C11.  A pick never panics.  It returns at most \<open>limit\<close> jobs, which form a gapless run of
  batch numbers with one verification key; every one of them was pending or had timed out and
  passed the predicate, and is now assigned to the caller.  All other jobs are left as they were,
  so a job is never handed to a second prover before its assignment has timed out.\<close>

theorem pick_jobs_assigns_run:
  assumes wf: "jobs_wf m"
  shows "\<exists>m' outs. pick_jobs_while_with_limit now limit prover_id P m = Some (m', outs) \<and> jobs_wf m' \<and>
    length outs \<le> limit \<and>
    successively (\<lambda>a b. fj_batch_number a + 1 = fj_batch_number b \<and> fj_vk_hash a = fj_vk_hash b) (map fst outs) \<and>
    (\<forall>k. btm_get (pj_jobs m') k =
      (if k \<in> fj_batch_number ` fst ` set outs
       then map_option (reassigned now prover_id) (btm_get (pj_jobs m) k) else btm_get (pj_jobs m) k)) \<and>
    (\<forall>j d. (j, d) \<in> set outs \<longrightarrow>
      (\<exists>e. btm_get (pj_jobs m) (fj_batch_number j) = Some e \<and> assignable m now e \<and> P e \<and>
        d = be_data (je_batch_envelope e)))"
proof -
  obtain pre mid post where
    h: "pj_jobs m = pre @ mid @ post" "pick_jobs_while_with_limit now limit prover_id P m =
        Some (m \<lparr> pj_jobs := pre @ reassign_all now prover_id mid @ post \<rparr>, map job_output mid)"
      "length mid \<le> limit" "successively follows (metas (reassign_all now prover_id mid))"
      "\<forall>(k, e) \<in> set mid. assignable m now e \<and> P e"
    by (rule pick_jobs_spec [OF wf, of now limit prover_id P])
  let ?outs = "map job_output mid"
  have wf': "jobs_wf (m \<lparr> pj_jobs := pre @ reassign_all now prover_id mid @ post \<rparr>)"
    by (rule jobs_wf_pick [OF wf h(1)])
  have entries: "\<forall>(k, e) \<in> set mid. entry_wf k e \<and> btm_get (pj_jobs m) k = Some e"
    using wf h(1) by (auto simp: jobs_wf_def btm_get_iff)
  have wfs: "\<forall>(k, e) \<in> set mid. entry_wf k e" using wf h(1) by (auto simp: jobs_wf_def)
  have run: "successively (\<lambda>a b. fj_batch_number a + 1 = fj_batch_number b \<and> fj_vk_hash a = fj_vk_hash b) (map fst ?outs)"
    unfolding job_output_metas [OF wfs, of now prover_id]
    by (subst successively_map, rule successively_mono [OF h(4)]) (simp add: follows_def)
  have keys: "fj_batch_number ` fst ` set ?outs = set (map fst mid)"
    by (simp add: image_image job_output_def case_prod_beta)
  have served: "\<forall>j d. (j, d) \<in> set ?outs \<longrightarrow> (\<exists>e. btm_get (pj_jobs m) (fj_batch_number j) = Some e \<and>
      assignable m now e \<and> P e \<and> d = be_data (je_batch_envelope e))"
  proof (intro allI impI)
    fix j d assume "(j, d) \<in> set ?outs"
    then obtain k e where ke: "(k, e) \<in> set mid" "job_output (k, e) = (j, d)" by auto
    from bspec [OF entries ke(1)] bspec [OF h(5) ke(1)] ke(2)
    show "\<exists>e. btm_get (pj_jobs m) (fj_batch_number j) = Some e \<and> assignable m now e \<and> P e \<and> d = be_data (je_batch_envelope e)"
      by (auto simp: job_output_def)
  qed
  have upd: "\<forall>k. btm_get (pj_jobs (m \<lparr> pj_jobs := pre @ reassign_all now prover_id mid @ post \<rparr>)) k =
      (if k \<in> fj_batch_number ` fst ` set ?outs
       then map_option (reassigned now prover_id) (btm_get (pj_jobs m) k) else btm_get (pj_jobs m) k)"
    unfolding keys by (simp add: reassign_all_get [OF wf h(1)] del: set_map)
  have len: "length ?outs \<le> limit" using h(3) by simp
  show ?thesis using h(2) wf' len run upd served by blast
qed

definition sample_entry :: "u64 \<Rightarrow> 'd \<Rightarrow> 'd job_entry" where
  "sample_entry n d = \<lparr> je_batch_envelope = sample_envelope n d,
     je_metadata = \<lparr> jm_batch_number = n, jm_proving_version = PV6, jm_tx_count = 1,
       jm_computational_native_used = None, jm_added_at = 0, jm_assigned_to_prover_id = None,
       jm_assigned_at = None, jm_current_attempt = 0 \<rparr> \<rparr>"

definition sample_map :: "'d \<Rightarrow> 'd prover_job_map" where
  "sample_map d = \<lparr> pj_jobs = [(1, sample_entry 1 d), (2, sample_entry 2 d), (4, sample_entry 4 d)],
     pj_assignment_timeout = 10, pj_max_assigned_batch_range = 5 \<rparr>"

lemma sample_entry_wf: "entry_wf n (sample_entry n d)"
  by (simp add: entry_wf_def sample_entry_def)

lemma sample_map_wf: "jobs_wf (sample_map d)"
  by (simp add: jobs_wf_def sample_map_def btm_wf_def sample_entry_wf)

theorem pick_jobs_assigns_run_witness:
  "\<exists>m' outs. pick_jobs_while_with_limit 3 2 ''p'' (\<lambda>_. True) (sample_map ()) = Some (m', outs) \<and>
    jobs_wf m' \<and> length outs \<le> 2"
  using pick_jobs_assigns_run [OF sample_map_wf, of 3 2 "''p''" "\<lambda>_. True" "()"] by blast

text \<open>No eligible job is overlooked: when some job is pending or timed out and passes the
  predicate, a pick with a positive limit returns a job, and the first one returned has the lowest
  batch number among the eligible ones.\<close>

theorem pick_serves_lowest:
  assumes wf: "jobs_wf m" and "limit > 0" and "btm_get (pj_jobs m) k = Some e" "assignable m now e" "P e"
  shows "\<exists>m' j d rest. pick_jobs_while_with_limit now limit prover_id P m = Some (m', (j, d) # rest) \<and>
    fj_batch_number j \<le> k \<and>
    (\<forall>k' < fj_batch_number j. \<forall>e'. btm_get (pj_jobs m) k' = Some e' \<longrightarrow> \<not> (assignable m now e' \<and> P e'))"
proof -
  obtain pre mid post where
    h: "pj_jobs m = pre @ mid @ post" "pick_jobs_while_with_limit now limit prover_id P m =
        Some (m \<lparr> pj_jobs := pre @ reassign_all now prover_id mid @ post \<rparr>, map job_output mid)"
      "\<forall>(k, e) \<in> set pre. limit > 0 \<longrightarrow> \<not> (assignable m now e \<and> P e)" "mid = [] \<longrightarrow> post = []"
    by (rule pick_jobs_spec [OF wf, of now limit prover_id P])
  have bwf: "btm_wf (pj_jobs m)" using wf by (simp add: jobs_wf_def)
  have ke: "(k, e) \<in> set (pj_jobs m)" "(k, e) \<notin> set pre"
    using assms(3) btm_get_iff [OF bwf] assms(2,4,5) bspec [OF h(3), of "(k, e)"] by auto
  with h(1,4) obtain k0 e0 mid' where mid: "mid = (k0, e0) # mid'" by (cases mid) auto
  have sorted: "sorted_wrt (<) (map fst (pre @ (k0, e0) # mid' @ post))"
    using bwf h(1) mid by (simp add: btm_wf_def)
  then have after: "\<forall>k \<in> fst ` set (mid' @ post). k0 < k" by (auto simp: sorted_wrt_append image_Un)
  have "(k, e) \<in> set ((k0, e0) # mid' @ post)" using ke h(1) mid by simp
  then have "k = k0 \<or> k \<in> fst ` set (mid' @ post)" by force
  with after have "k0 \<le> k" by (auto dest: bspec intro: less_imp_le)
  moreover have "\<not> (assignable m now e' \<and> P e')" if "k' < k0" "btm_get (pj_jobs m) k' = Some e'" for k' e'
  proof -
    have "(k', e') \<in> set (pre @ (k0, e0) # mid' @ post)"
      using that(2) btm_get_iff [OF bwf] h(1) mid by simp
    moreover have "(k', e') \<notin> set (mid' @ post)" using after that(1) by force
    ultimately have "(k', e') \<in> set pre" using that(1) by auto
    from bspec [OF h(3) this] assms(2) show ?thesis by simp
  qed
  ultimately show ?thesis unfolding h(2) mid by (simp add: job_output_def)
qed

theorem pick_serves_lowest_witness:
  "\<exists>m' j d rest. pick_jobs_while_with_limit 3 1 ''p'' (\<lambda>_. True) (sample_map ()) = Some (m', (j, d) # rest) \<and>
    fj_batch_number j \<le> 4"
proof -
  have e: "btm_get (pj_jobs (sample_map ())) 4 = Some (sample_entry 4 ())"
    by (simp add: sample_map_def btm_get_def)
  have a: "assignable (sample_map ()) 3 (sample_entry 4 ())" by (simp add: assignable_def sample_entry_def)
  from pick_serves_lowest [OF sample_map_wf _ e a, of 1 "\<lambda>_. True" "''p''"] show ?thesis by auto
qed

text \<open>C31.  Completing a range of jobs is all or nothing: if every job of the range is in the map,
  exactly these jobs are removed and their envelopes are returned in batch order; otherwise nothing
  changes.  So of two overlapping submissions only one succeeds.\<close>

theorem complete_many_jobs_all_or_nothing:
  assumes wf: "jobs_wf m" and le: "a \<le> b"
  shows "\<exists>m' r. complete_many_jobs now a b m = Some (m', r) \<and> jobs_wf m' \<and>
    (case r of
       None \<Rightarrow> m' = m \<and> (\<exists>k \<in> {a..b}. btm_get (pj_jobs m) k = None)
     | Some es \<Rightarrow> map be_batch_number es = [a..<b + 1] \<and>
         (\<forall>k. btm_get (pj_jobs m') k = (if a \<le> k \<and> k \<le> b then None else btm_get (pj_jobs m) k)) \<and>
         (\<forall>k \<in> {a..b}. \<exists>e. btm_get (pj_jobs m) k = Some e \<and> es ! (k - a) = je_batch_envelope e))"
proof (cases "\<forall>k \<in> {a..b}. btm_get (pj_jobs m) k \<noteq> None")
  case False
  with complete_many_jobs_spec [OF wf le, of now] wf show ?thesis by auto
next
  case True
  let ?es = "map (\<lambda>k. je_batch_envelope (the (btm_get (pj_jobs m) k))) [a..<b + 1]"
  let ?m = "m \<lparr> pj_jobs := fold btm_remove [a..<b + 1] (pj_jobs m) \<rparr>"
  have bwf: "btm_wf (pj_jobs m)" using wf by (simp add: jobs_wf_def)
  have numbers: "map be_batch_number ?es = [a..<b + 1]" by (rule range_batch_numbers [OF wf True])
  have get: "btm_get (pj_jobs ?m) k = (if a \<le> k \<and> k \<le> b then None else btm_get (pj_jobs m) k)" for k
    using btm.lookup_remove_all [OF bwf, of "[a..<b + 1]" k] by auto
  have es: "\<exists>e. btm_get (pj_jobs m) k = Some e \<and> ?es ! (k - a) = je_batch_envelope e" if "k \<in> {a..b}" for k
  proof -
    have "?es ! (k - a) = je_batch_envelope (the (btm_get (pj_jobs m) k))"
      using that le by (subst nth_map) (auto simp del: upt_Suc)
    with True that show ?thesis by force
  qed
  show ?thesis
    by (rule exI [of _ ?m], rule exI [of _ "Some ?es"])
      (use complete_many_jobs_spec [OF wf le, of now] True remove_all_wf [OF wf] numbers get es in \<open>simp del: upt_Suc\<close>)
qed

theorem complete_many_jobs_all_or_nothing_witness:
  "\<exists>m' r. complete_many_jobs 5 1 2 (sample_map ()) = Some (m', r) \<and> jobs_wf m'"
  using complete_many_jobs_all_or_nothing [OF sample_map_wf, of 1 2 5 "()"] by auto

text \<open>Backpressure: as long as a new batch is at most one past the newest one in the map, adding
  jobs never makes the distance between the oldest and the newest batch exceed the configured range.\<close>

theorem add_job_respects_range:
  assumes wf: "jobs_wf m" and span: "span m \<le> pj_max_assigned_batch_range m"
    and order: "pj_jobs m \<noteq> [] \<Longrightarrow> be_batch_number e = fst (last (pj_jobs m)) + 1"
    and added: "add_job now e m = Added m'"
  shows "span m' \<le> pj_max_assigned_batch_range m' \<and> btm_get (pj_jobs m') (be_batch_number e) \<noteq> None"
proof -
  obtain md where md: "m' = m \<lparr> pj_jobs := btm_insert (be_batch_number e) \<lparr> je_batch_envelope = e, je_metadata = md \<rparr> (pj_jobs m) \<rparr>"
    and nf: "\<not> is_queue_full m"
    using added by (auto simp: add_job_def split: if_splits option.splits)
  let ?e = "(be_batch_number e, \<lparr> je_batch_envelope = e, je_metadata = md \<rparr>)"
  have bwf: "btm_wf (pj_jobs m)" using wf by (simp add: jobs_wf_def)
  have "pj_jobs m' = pj_jobs m @ [?e]"
  proof (cases "pj_jobs m = []")
    case False
    then have "\<forall>k \<in> set (map fst (pj_jobs m)). k \<le> fst (last (pj_jobs m))"
      using bwf sorted_le_last [of "map fst (pj_jobs m)"] by (simp add: btm_wf_def strict_sorted_iff last_map)
    with order [OF False] have "\<forall>k \<in> set (map fst (pj_jobs m)). k < be_batch_number e" by auto
    with md show ?thesis by (simp add: btm_insert_last)
  qed (simp add: md)
  then have "span m' \<le> pj_max_assigned_batch_range m"
    using nf order by (cases "pj_jobs m") (auto simp: span_def is_queue_full_def)
  moreover have "btm_get (pj_jobs m') (be_batch_number e) \<noteq> None"
    using bwf by (simp add: md btm_get_insert)
  ultimately show ?thesis by (simp add: md)
qed

theorem add_job_respects_range_witness:
  "\<exists>m'. add_job 7 (sample_envelope 5 ()) (sample_map ()) = Added m' \<and> span m' \<le> 5"
proof -
  have "add_job 7 (sample_envelope 5 ()) (sample_map ()) \<noteq> Waits" "add_job 7 (sample_envelope 5 ()) (sample_map ()) \<noteq> Panics"
    by (simp_all add: add_job_def is_queue_full_def sample_map_def new_from_batch_def)
  then obtain m' where m': "add_job 7 (sample_envelope 5 ()) (sample_map ()) = Added m'"
    by (cases "add_job 7 (sample_envelope 5 ()) (sample_map ())") auto
  then have "pj_max_assigned_batch_range m' = 5"
    by (auto simp: add_job_def sample_map_def split: if_splits option.splits)
  with add_job_respects_range [OF sample_map_wf _ _ m'] m' show ?thesis
    by (auto simp: span_def sample_map_def)
qed

end
