(* ===== verification/ProverManagers.thy ===== *)
theory ProverManagers
  imports ProverJobs
begin

text \<open>
  The components around the job map (\<open>node/bin/src/prover_api\<close>): the FRI and the SNARK job
  manager, and the two components that put results back into batch order,
  \<open>GaplessCommitter\<close> and \<open>GaplessL1ProofSender\<close>.

  A request to a job manager is a sequence of operations on the job map, each of them under
  its mutex.  Channels are bounded queues.
\<close>

subsection \<open>FRI jobs\<close>

datatype submit_error =
    FriProofVerificationError "32 word list" "32 word list"
  | UnknownJob u64
  | DeserializationFailed
  | ProvingVersionMismatch proving_version proving_version
  | ShuttingDown
  | OtherError string

record failed_fri_proof =
  ff_batch_number :: u64
  ff_expected_hash_u32s :: "32 word list"
  ff_proof_final_register_values :: "32 word list"
  ff_vk_hash :: string
  ff_proof_bytes :: "byte list"

text \<open>A bounded channel: the messages in it, its capacity, and whether the receiver is gone.\<close>

record 'a channel =
  ch_queue :: "'a list"
  ch_capacity :: nat
  ch_closed :: bool

record fri_job_manager =
  fm_jobs :: "prover_input prover_job_map"
  fm_sender :: "fri_proof signed_batch_envelope channel"
  fm_failed_proofs :: "failed_fri_proof list"

definition fri_try_reserve :: "'a channel \<Rightarrow> submit_error + unit" where
  "fri_try_reserve c =
     (if ch_closed c then Inl ShuttingDown
      else if length (ch_queue c) \<ge> ch_capacity c then Inl (OtherError ''downstream backpressure'')
      else Inr ())"

definition channel_send :: "'a \<Rightarrow> 'a channel \<Rightarrow> 'a channel" where
  "channel_send x c = c \<lparr> ch_queue := ch_queue c @ [x] \<rparr>"

definition fri_pick_next_job ::
    "nat \<Rightarrow> nat \<Rightarrow> string \<Rightarrow> proving_version list option \<Rightarrow> fri_job_manager \<Rightarrow>
     (fri_job_manager \<times> (fri_job \<times> prover_input) option) option" where
  "fri_pick_next_job now min_age prover_id supported s = do {
     (jobs, r) \<leftarrow> pick_job now min_age prover_id
       (\<lambda>job. case supported of None \<Rightarrow> True
              | Some vs \<Rightarrow> jm_proving_version (je_metadata job) \<in> set vs) (fm_jobs s);
     Some (s \<lparr> fm_jobs := jobs \<rparr>, r) }"

text \<open>The blocking verification task: it returns a verdict, panics, or cannot be joined.  The
  cryptographic verifier and the expected public input are parameters.\<close>

datatype verify_task = Returned "submit_error + unit" | TaskPanicked | TaskFailed string

definition verify_proof ::
    "(batch_metadata \<Rightarrow> byte list \<Rightarrow> verify_task) \<Rightarrow>
     (batch_metadata \<Rightarrow> 32 word list) \<Rightarrow>
     batch_metadata \<Rightarrow> byte list \<Rightarrow> fri_job_manager \<Rightarrow>
     fri_job_manager \<times> (submit_error + unit)" where
  "verify_proof verify_task_of expected_registers batch_metadata proof_bytes s =
     (case verify_task_of batch_metadata proof_bytes of
        TaskFailed e \<Rightarrow> (s, Inl (OtherError e))
      | outcome \<Rightarrow>
          (let result = (case outcome of
                           Returned r \<Rightarrow> r
                         | _ \<Rightarrow> Inl (FriProofVerificationError (expected_registers batch_metadata) (replicate 16 0)))
           in case result of
                Inl (FriProofVerificationError e v) \<Rightarrow>
                  (s \<lparr> fm_failed_proofs := fm_failed_proofs s @
                     [\<lparr> ff_batch_number = bm_batch_number batch_metadata, ff_expected_hash_u32s = e,
                        ff_proof_final_register_values = v,
                        ff_vk_hash = (case verification_key_hash batch_metadata of Inr vk \<Rightarrow> vk | Inl _ \<Rightarrow> []),
                        ff_proof_bytes = proof_bytes \<rparr>] \<rparr>, Inl (FriProofVerificationError e v))
              | Inl err \<Rightarrow> (s, Inl err)
              | Inr u \<Rightarrow> (s, Inr u)))"

text \<open>\<open>submit_proof\<close> releases the lock between looking the job up and completing it; \<open>others\<close> is
  what concurrent requests do to the manager in between.\<close>

definition fri_submit_proof ::
    "(batch_metadata \<Rightarrow> byte list \<Rightarrow> verify_task) \<Rightarrow>
     (batch_metadata \<Rightarrow> 32 word list) \<Rightarrow> (fri_job_manager \<Rightarrow> fri_job_manager) \<Rightarrow>
     nat \<Rightarrow> u64 \<Rightarrow> byte list \<Rightarrow> proving_version \<Rightarrow> string \<Rightarrow> fri_job_manager \<Rightarrow>
     (fri_job_manager \<times> (submit_error + unit)) option" where
  "fri_submit_proof verify_task_of expected_registers others now batch_number proof_bytes
       version prover_id s =
     (case get_job_batch_metadata batch_number (fm_jobs s) of
        None \<Rightarrow> Some (s, Inl (UnknownJob batch_number))
      | Some batch_metadata \<Rightarrow>
          (case bm_proving_version batch_metadata of
             Inl _ \<Rightarrow> None
           | Inr server_proving_version \<Rightarrow>
               (let (s, verdict) =
                  (if server_proving_version \<noteq> version
                   then (s, Inl (ProvingVersionMismatch server_proving_version version))
                   else verify_proof verify_task_of expected_registers batch_metadata proof_bytes s);
                    s = others s
                in case verdict of
                     Inl err \<Rightarrow> Some (s \<lparr> fm_jobs := unassign_job batch_number prover_id (fm_jobs s) \<rparr>, Inl err)
                   | Inr _ \<Rightarrow>
                       (case fri_try_reserve (fm_sender s) of
                          Inl err \<Rightarrow> Some (s, Inl err)
                        | Inr _ \<Rightarrow> do {
                            (jobs, removed) \<leftarrow> complete_job now batch_number (fm_jobs s);
                            Some (case removed of
                                    None \<Rightarrow> (s \<lparr> fm_jobs := jobs \<rparr>, Inr ())
                                  | Some removed_job \<Rightarrow>
                                      (s \<lparr> fm_jobs := jobs,
                                         fm_sender := channel_send
                                           (with_data (RealFri (FriV2 proof_bytes (proving_version_repr version))) removed_job) (fm_sender s) \<rparr>,
                                       Inr ())) }))))"

definition fri_submit_fake_proof ::
    "nat \<Rightarrow> u64 \<Rightarrow> fri_job_manager \<Rightarrow> (fri_job_manager \<times> (submit_error + unit)) option" where
  "fri_submit_fake_proof now batch_number s =
     (case fri_try_reserve (fm_sender s) of
        Inl err \<Rightarrow> Some (s, Inl err)
      | Inr _ \<Rightarrow> do {
          (jobs, removed) \<leftarrow> complete_job now batch_number (fm_jobs s);
          Some (case removed of
                  None \<Rightarrow> (s \<lparr> fm_jobs := jobs \<rparr>, Inl (UnknownJob batch_number))
                | Some job \<Rightarrow>
                    (s \<lparr> fm_jobs := jobs, fm_sender := channel_send (with_data FakeFri job) (fm_sender s) \<rparr>,
                     Inr ())) })"

subsection \<open>SNARK jobs\<close>

record proof_command =
  pc_batches :: "fri_proof signed_batch_envelope list"
  pc_proof :: snark_proof

record snark_job_manager =
  sm_jobs :: "fri_proof prover_job_map"
  sm_sender :: "proof_command channel"
  sm_max_fris_per_snark :: usize

definition snark_try_reserve :: "'a channel \<Rightarrow> string + unit" where
  "snark_try_reserve c =
     (if ch_closed c then Inl ''server is shutting down''
      else if length (ch_queue c) \<ge> ch_capacity c then Inl ''downstream backpressure''
      else Inr ())"

definition is_fake_or_timed_out :: "nat \<Rightarrow> nat option \<Rightarrow> fri_proof job_entry \<Rightarrow> bool" where
  "is_fake_or_timed_out now timeout_for_real_fris job =
     (is_fake (be_data (je_batch_envelope job)) \<or>
      (case timeout_for_real_fris of None \<Rightarrow> False
       | Some timeout \<Rightarrow> now - jm_added_at (je_metadata job) \<ge> timeout))"

text \<open>The loop that turns fake (or, for the fake prover, overdue) FRI proofs into fake SNARK
  proofs.  \<^term>\<open>None\<close> is a panic or a loop that does not end.\<close>

partial_function (option) process_pending_fake_or_timed_out_fri_proofs ::
    "nat \<Rightarrow> nat option \<Rightarrow> snark_job_manager \<Rightarrow> (snark_job_manager \<times> (string + unit)) option" where
  "process_pending_fake_or_timed_out_fri_proofs now timeout s =
     (if \<not> has_assignable_job now (is_fake_or_timed_out now timeout) (sm_jobs s) then Some (s, Inr ())
      else case snark_try_reserve (sm_sender s) of
             Inl err \<Rightarrow> Some (s, Inl err)
           | Inr _ \<Rightarrow>
               Option.bind (pick_jobs_while_with_limit now (sm_max_fris_per_snark s) ''fake_prover''
                   (is_fake_or_timed_out now timeout) (sm_jobs s)) (\<lambda>(jobs, assigned).
                 if assigned = [] then Some (s \<lparr> sm_jobs := jobs \<rparr>, Inr ())
                 else Option.bind (complete_many_jobs now (fj_batch_number (fst (hd assigned)))
                     (fj_batch_number (fst (last assigned))) jobs) (\<lambda>(jobs, completed).
                   case completed of
                     None \<Rightarrow> process_pending_fake_or_timed_out_fri_proofs now timeout (s \<lparr> sm_jobs := jobs \<rparr>)
                   | Some batches \<Rightarrow>
                       process_pending_fake_or_timed_out_fri_proofs now timeout
                         (s \<lparr> sm_jobs := jobs,
                            sm_sender := channel_send \<lparr> pc_batches = batches, pc_proof = FakeSnark \<rparr> (sm_sender s) \<rparr>))))"

definition snark_pick_real_job ::
    "nat \<Rightarrow> string \<Rightarrow> proving_version list option \<Rightarrow> snark_job_manager \<Rightarrow>
     (snark_job_manager \<times> (string + (fri_job \<times> fri_proof) list option)) option" where
  "snark_pick_real_job now prover_id supported s = do {
     (s, r) \<leftarrow> process_pending_fake_or_timed_out_fri_proofs now None s;
     (case r of
        Inl err \<Rightarrow> Some (s, Inl err)
      | Inr _ \<Rightarrow> do {
          (jobs, outs) \<leftarrow> pick_jobs_while_with_limit now (sm_max_fris_per_snark s) prover_id
            (\<lambda>job. \<not> is_fake (be_data (je_batch_envelope job)) \<and>
               (case supported of None \<Rightarrow> True | Some vs \<Rightarrow> jm_proving_version (je_metadata job) \<in> set vs)) (sm_jobs s);
          Some (s \<lparr> sm_jobs := jobs \<rparr>, Inr (if outs = [] then None else Some outs)) }) }"

definition snark_submit_proof ::
    "nat \<Rightarrow> u64 \<Rightarrow> u64 \<Rightarrow> proving_version \<Rightarrow> byte list \<Rightarrow> snark_job_manager \<Rightarrow>
     (snark_job_manager \<times> (string + unit)) option" where
  "snark_submit_proof now batch_from batch_to version payload s =
     (case get_job_batch_metadata batch_from (sm_jobs s) of
        None \<Rightarrow> Some (s, Inl ''race condition: some batches were completed earlier'')
      | Some batch_metadata \<Rightarrow>
          (case verification_key_hash batch_metadata of
             Inl _ \<Rightarrow> None
           | Inr server_vk \<Rightarrow>
               if server_vk \<noteq> vk_hash version then Some (s, Inl ''Verification key hash mismatch'')
               else (case snark_try_reserve (sm_sender s) of
                      Inl err \<Rightarrow> Some (s, Inl err)
                    | Inr _ \<Rightarrow> do {
                        (jobs, completed) \<leftarrow> complete_many_jobs now batch_from batch_to (sm_jobs s);
                        Some (case completed of
                                None \<Rightarrow> (s \<lparr> sm_jobs := jobs \<rparr>, Inl ''race condition: some batches were completed earlier'')
                              | Some batches \<Rightarrow>
                                  (s \<lparr> sm_jobs := jobs,
                                     sm_sender := channel_send
                                       \<lparr> pc_batches = batches, pc_proof = RealSnark payload (proving_version_repr version) \<rparr> (sm_sender s) \<rparr>,
                                   Inr ())) })))"

subsection \<open>Restoring the order\<close>

text \<open>The flush loop of \<open>GaplessCommitter\<close>: it takes the next expected batch out of the buffer
  as long as it is there.\<close>

function flush_ready :: "(u64, 'a) btm \<Rightarrow> u64 \<Rightarrow> (u64, 'a) btm \<times> u64 \<times> 'a list" where
  "flush_ready buffer next_expected =
     (case btm_get buffer next_expected of
        None \<Rightarrow> (buffer, next_expected, [])
      | Some batch \<Rightarrow>
          (let (buffer', n, ready) = flush_ready (btm_remove next_expected buffer) (next_expected + 1)
           in (buffer', n, batch # ready)))"
  by pat_completeness auto

termination flush_ready
  by (relation "measure (\<lambda>(buffer, _). length buffer)") (auto simp: btm_remove_length)

declare flush_ready.simps [simp del]

datatype commit_l1_command = CommitPassthrough "fri_proof signed_batch_envelope" | CommitToL1 commit_command

record gapless_committer =
  gc_buffer :: "(u64, fri_proof signed_batch_envelope) btm"
  gc_next_expected_batch_number :: u64
  gc_last_committed_batch_number :: u64
  gc_config :: batch_verification_sl
  gc_stored :: "fri_proof signed_batch_envelope list"
  gc_output :: "commit_l1_command list"

definition commit_one ::
    "fri_proof signed_batch_envelope \<Rightarrow> gapless_committer \<Rightarrow> commit_error + gapless_committer" where
  "commit_one batch g =
     (let g = g \<lparr> gc_stored := gc_stored g @ [batch] \<rparr> in
      if be_batch_number batch \<le> gc_last_committed_batch_number g
      then Inr (g \<lparr> gc_output := gc_output g @ [CommitPassthrough batch] \<rparr>)
      else case commit_command_try_new (gc_config g) batch of
             Inl err \<Rightarrow> Inl err
           | Inr cmd \<Rightarrow> Inr (g \<lparr> gc_output := gc_output g @ [CommitToL1 cmd] \<rparr>))"

fun commit_all ::
    "fri_proof signed_batch_envelope list \<Rightarrow> gapless_committer \<Rightarrow> commit_error + gapless_committer" where
  "commit_all [] g = Inr g"
| "commit_all (b # bs) g = (case commit_one b g of Inl err \<Rightarrow> Inl err | Inr g' \<Rightarrow> commit_all bs g')"

definition committer_receive ::
    "fri_proof signed_batch_envelope \<Rightarrow> gapless_committer \<Rightarrow> commit_error + gapless_committer" where
  "committer_receive batch g =
     (let (buffer, n, ready) =
        flush_ready (btm_insert (be_batch_number batch) batch (gc_buffer g)) (gc_next_expected_batch_number g)
      in commit_all ready (g \<lparr> gc_buffer := buffer, gc_next_expected_batch_number := n \<rparr>))"

text \<open>\<open>GaplessL1ProofSender\<close>: commands cover several batches; the loop advances by their count.\<close>

datatype proof_l1_command = ProofPassthrough "fri_proof signed_batch_envelope" | ProofToL1 proof_command

definition first_batch_number :: "proof_l1_command \<Rightarrow> u64 option" where
  "first_batch_number c =
     (case c of ProofPassthrough e \<Rightarrow> Some (be_batch_number e)
      | ProofToL1 cmd \<Rightarrow> map_option be_batch_number (get (pc_batches cmd) 0))"

definition batch_count :: "proof_l1_command \<Rightarrow> usize" where
  "batch_count c = (case c of ProofPassthrough _ \<Rightarrow> 1 | ProofToL1 cmd \<Rightarrow> length (pc_batches cmd))"

function flush_commands ::
    "(u64, proof_l1_command) btm \<Rightarrow> u64 \<Rightarrow> (u64, proof_l1_command) btm \<times> u64 \<times> proof_l1_command list" where
  "flush_commands buffer next_expected =
     (case btm_get buffer next_expected of
        None \<Rightarrow> (buffer, next_expected, [])
      | Some c \<Rightarrow>
          (let (buffer', n, ready) = flush_commands (btm_remove next_expected buffer) (next_expected + batch_count c)
           in (buffer', n, c # ready)))"
  by pat_completeness auto

termination flush_commands
  by (relation "measure (\<lambda>(buffer, _). length buffer)") (auto simp: btm_remove_length)

declare flush_commands.simps [simp del]

record gapless_l1_proof_sender =
  gs_buffer :: "(u64, proof_l1_command) btm"
  gs_next_expected_batch_number :: u64
  gs_output :: "proof_l1_command list"

definition sender_receive :: "proof_l1_command \<Rightarrow> gapless_l1_proof_sender \<Rightarrow> gapless_l1_proof_sender option" where
  "sender_receive c g = do {
     arrived_batch \<leftarrow> first_batch_number c;
     let (buffer, n, ready) = flush_commands (btm_insert arrived_batch c (gs_buffer g)) (gs_next_expected_batch_number g);
     Some (g \<lparr> gs_buffer := buffer, gs_next_expected_batch_number := n, gs_output := gs_output g @ ready \<rparr>) }"

subsection \<open>The fake prover\<close>

text \<open>The batches a SNARK manager is responsible for: those in its job map and those it has sent.\<close>

definition sent_batches :: "proof_command list \<Rightarrow> u64 list" where
  "sent_batches cs = concat (map (map be_batch_number \<circ> pc_batches) cs)"

definition snark_batches :: "snark_job_manager \<Rightarrow> u64 multiset" where
  "snark_batches s = mset (map fst (pj_jobs (sm_jobs s))) + mset (sent_batches (ch_queue (sm_sender s)))"

lemma snark_batches_send:
  assumes "mset (map fst (pj_jobs (sm_jobs s))) = mset (map be_batch_number batches) + mset (map fst (pj_jobs m2))"
  shows "snark_batches (s \<lparr> sm_jobs := m2, sm_sender := channel_send \<lparr> pc_batches = batches, pc_proof = p \<rparr> (sm_sender s) \<rparr>) =
    snark_batches s"
  unfolding snark_batches_def assms by (simp add: channel_send_def sent_batches_def)

lemma process_pending_total:
  assumes "jobs_wf (sm_jobs s)" "sm_max_fris_per_snark s > 0"
  shows "\<exists>s' r. process_pending_fake_or_timed_out_fri_proofs now timeout s = Some (s', r) \<and>
    jobs_wf (sm_jobs s') \<and> sm_max_fris_per_snark s' = sm_max_fris_per_snark s \<and> snark_batches s' = snark_batches s \<and>
    (r = Inr () \<longrightarrow> \<not> has_assignable_job now (is_fake_or_timed_out now timeout) (sm_jobs s'))"
  using assms
proof (induction "length (pj_jobs (sm_jobs s))" arbitrary: s rule: less_induct)
  case less
  let ?P = "is_fake_or_timed_out now timeout"
  show ?case
  proof (cases "has_assignable_job now ?P (sm_jobs s)")
    case False
    with less.prems show ?thesis by (subst process_pending_fake_or_timed_out_fri_proofs.simps) simp
  next
    case True
    show ?thesis
    proof (cases "snark_try_reserve (sm_sender s)")
      case (Inl err)
      with True less.prems show ?thesis by (subst process_pending_fake_or_timed_out_fri_proofs.simps) simp
    next
      case (Inr u)
      obtain m1 outs m2 batches where
        r: "pick_jobs_while_with_limit now (sm_max_fris_per_snark s) ''fake_prover'' ?P (sm_jobs s) = Some (m1, outs)"
          "outs \<noteq> []"
          "complete_many_jobs now (fj_batch_number (fst (hd outs))) (fj_batch_number (fst (last outs))) m1 = Some (m2, Some batches)"
          "jobs_wf m2" "length (pj_jobs m2) < length (pj_jobs (sm_jobs s))"
          "mset (map fst (pj_jobs (sm_jobs s))) = mset (map be_batch_number batches) + mset (map fst (pj_jobs m2))"
        by (rule pick_complete_round [OF less.prems(1) True less.prems(2), of "''fake_prover''"])
      let ?s = "s \<lparr> sm_jobs := m2,
        sm_sender := channel_send \<lparr> pc_batches = batches, pc_proof = FakeSnark \<rparr> (sm_sender s) \<rparr>"
      from less.hyps [of ?s] r(4,5) less.prems(2) snark_batches_send [OF r(6), of FakeSnark] True Inr r(1-3)
      show ?thesis by (subst process_pending_fake_or_timed_out_fri_proofs.simps) simp
    qed
  qed
qed

subsection \<open>Gapless output\<close>

definition buffer_ok :: "(u64, ('d, 's) batch_envelope) btm \<Rightarrow> bool" where
  "buffer_ok buf \<longleftrightarrow> btm_wf buf \<and> (\<forall>k e. btm_get buf k = Some e \<longrightarrow> be_batch_number e = k)"

lemma flush_ready_spec:
  assumes "flush_ready buf n = (buf', n', ready)" "buffer_ok buf"
  shows "map be_batch_number ready = [n..<n'] \<and> n \<le> n' \<and> buffer_ok buf' \<and> btm_get buf' n' = None \<and>
    (\<forall>k. btm_get buf' k = (if n \<le> k \<and> k < n' then None else btm_get buf k))"
  using assms
proof (induction buf n arbitrary: buf' n' ready rule: flush_ready.induct)
  case (1 buf n)
  show ?case
  proof (cases "btm_get buf n")
    case None
    with 1 show ?thesis by (auto simp: flush_ready.simps [of buf n])
  next
    case (Some b)
    obtain r where r: "flush_ready (btm_remove n buf) (n + 1) = (buf', n', r)" "ready = b # r"
      using "1.prems"(1) Some by (auto simp: flush_ready.simps [of buf n] split: prod.splits)
    have ok: "buffer_ok (btm_remove n buf)"
      using "1.prems"(2) by (auto simp: buffer_ok_def btm.wf_remove btm_get_remove)
    note ih = "1.IH" [OF Some r(1) ok]
    have "be_batch_number b = n" using Some "1.prems"(2) by (simp add: buffer_ok_def)
    with ih r(2) show ?thesis by (auto simp: upt_conv_Cons btm_get_remove)
  qed
qed

definition out_batch :: "commit_l1_command \<Rightarrow> fri_proof signed_batch_envelope" where
  "out_batch c = (case c of CommitPassthrough e \<Rightarrow> e | CommitToL1 cmd \<Rightarrow> cc_input cmd)"

lemma commit_one_ok:
  assumes "commit_one b g = Inr g'"
  shows "map out_batch (gc_output g') = map out_batch (gc_output g) @ [b]"
    "gc_stored g' = gc_stored g @ [b]" "gc_buffer g' = gc_buffer g"
    "gc_next_expected_batch_number g' = gc_next_expected_batch_number g"
    "gc_last_committed_batch_number g' = gc_last_committed_batch_number g" "gc_config g' = gc_config g"
  using assms
  by (auto simp: commit_one_def commit_command_try_new_def out_batch_def Let_def
      split: if_splits sum.splits batch_verification_sl.splits batch_signature_data.splits)

lemma commit_all_ok:
  assumes "commit_all bs g = Inr g'"
  shows "map out_batch (gc_output g') = map out_batch (gc_output g) @ bs \<and>
    gc_stored g' = gc_stored g @ bs \<and> gc_buffer g' = gc_buffer g \<and>
    gc_next_expected_batch_number g' = gc_next_expected_batch_number g"
  using assms
proof (induction bs arbitrary: g)
  case (Cons b bs)
  then obtain g1 where g1: "commit_one b g = Inr g1" "commit_all bs g1 = Inr g'" by (auto split: sum.splits)
  from Cons.IH [OF g1(2)] commit_one_ok [OF g1(1)] show ?case by simp
qed simp

fun run_committer ::
    "fri_proof signed_batch_envelope list \<Rightarrow> gapless_committer \<Rightarrow> commit_error + gapless_committer" where
  "run_committer [] g = Inr g"
| "run_committer (b # bs) g = (case committer_receive b g of Inl err \<Rightarrow> Inl err | Inr g' \<Rightarrow> run_committer bs g')"

definition committer_inv :: "u64 \<Rightarrow> u64 set \<Rightarrow> gapless_committer \<Rightarrow> bool" where
  "committer_inv n0 received g \<longleftrightarrow>
     (let n = gc_next_expected_batch_number g in
      n0 \<le> n \<and> buffer_ok (gc_buffer g) \<and> btm_get (gc_buffer g) n = None \<and>
      map (be_batch_number \<circ> out_batch) (gc_output g) = [n0..<n] \<and>
      map be_batch_number (gc_stored g) = [n0..<n] \<and>
      (\<forall>k \<in> received. k \<ge> n \<longrightarrow> btm_get (gc_buffer g) k \<noteq> None))"

lemma committer_receive_inv:
  assumes "committer_receive b g = Inr g'" "committer_inv n0 R g"
  shows "committer_inv n0 (insert (be_batch_number b) R) g'"
proof -
  let ?n = "gc_next_expected_batch_number g"
  let ?buf = "btm_insert (be_batch_number b) b (gc_buffer g)"
  obtain buf n' ready where f: "flush_ready ?buf ?n = (buf, n', ready)" by (metis prod_cases3)
  have c: "commit_all ready (g \<lparr> gc_buffer := buf, gc_next_expected_batch_number := n' \<rparr>) = Inr g'"
    using assms(1) f by (simp add: committer_receive_def)
  have ok: "buffer_ok ?buf" using assms(2) by (auto simp: committer_inv_def buffer_ok_def Let_def btm.wf_insert btm_get_insert)
  have fl: "map be_batch_number ready = [?n..<n']" "?n \<le> n'" "buffer_ok buf" "btm_get buf n' = None"
    and get: "btm_get buf k = (if ?n \<le> k \<and> k < n' then None else btm_get ?buf k)" for k
    using flush_ready_spec [OF f ok] by blast+
  note ca = commit_all_ok [OF c]
  have inv: "n0 \<le> ?n" "btm_wf (gc_buffer g)"
    "map (be_batch_number \<circ> out_batch) (gc_output g) = [n0..<?n]" "map be_batch_number (gc_stored g) = [n0..<?n]"
    "\<And>k. k \<in> R \<Longrightarrow> ?n \<le> k \<Longrightarrow> btm_get (gc_buffer g) k \<noteq> None"
    using assms(2) unfolding committer_inv_def Let_def buffer_ok_def by blast+
  have app: "[n0..<?n] @ [?n..<n'] = [n0..<n']"
    using upt_add_eq_append [OF inv(1), of "n' - ?n"] fl(2) by simp
  have "map (be_batch_number \<circ> out_batch) (gc_output g') = map be_batch_number (map out_batch (gc_output g'))" by simp
  also have "\<dots> = map (be_batch_number \<circ> out_batch) (gc_output g) @ map be_batch_number ready"
    using ca by simp
  also have "\<dots> = [n0..<n']" unfolding inv(3) fl(1) app ..
  finally have out: "map (be_batch_number \<circ> out_batch) (gc_output g') = [n0..<n']" .
  have stored: "map be_batch_number (gc_stored g') = [n0..<n']" using ca inv(4) fl(1) app by simp
  have rest: "btm_get buf k \<noteq> None" if "k \<in> insert (be_batch_number b) R" "n' \<le> k" for k
    using that inv(5) [of k] fl(2) inv(2) unfolding get by (auto simp: btm_get_insert)
  have "gc_next_expected_batch_number g' = n'" "gc_buffer g' = buf" using ca by simp_all
  then show ?thesis
    unfolding committer_inv_def Let_def using out stored rest fl(2-4) inv(1) by simp
qed

lemma run_committer_inv:
  assumes "run_committer bs g = Inr g'" "committer_inv n0 R g"
  shows "committer_inv n0 (R \<union> be_batch_number ` set bs) g'"
  using assms
proof (induction bs arbitrary: g R)
  case (Cons b bs)
  then obtain g1 where g1: "committer_receive b g = Inr g1" "run_committer bs g1 = Inr g'"
    by (auto split: sum.splits)
  from Cons.IH [OF g1(2) committer_receive_inv [OF g1(1) Cons.prems(2)]] show ?case by simp
qed simp

text \<open>A sequence of proof commands is contiguous from \<open>a\<close> to \<open>b\<close>.\<close>

fun contiguous :: "u64 \<Rightarrow> proof_l1_command list \<Rightarrow> u64 \<Rightarrow> bool" where
  "contiguous a [] b = (a = b)"
| "contiguous a (c # cs) b = (first_batch_number c = Some a \<and> contiguous (a + batch_count c) cs b)"

lemma contiguous_append: "contiguous a (xs @ ys) c \<longleftrightarrow> (\<exists>b. contiguous a xs b \<and> contiguous b ys c)"
  by (induction xs arbitrary: a) auto

definition sender_buffer_ok :: "(u64, proof_l1_command) btm \<Rightarrow> bool" where
  "sender_buffer_ok buf \<longleftrightarrow> btm_wf buf \<and> (\<forall>k c. btm_get buf k = Some c \<longrightarrow> first_batch_number c = Some k)"

lemma flush_commands_spec:
  assumes "flush_commands buf n = (buf', n', ready)" "sender_buffer_ok buf"
  shows "contiguous n ready n' \<and> sender_buffer_ok buf' \<and> btm_get buf' n' = None"
  using assms
proof (induction buf n arbitrary: buf' n' ready rule: flush_commands.induct)
  case (1 buf n)
  show ?case
  proof (cases "btm_get buf n")
    case None
    with 1 show ?thesis by (auto simp: flush_commands.simps [of buf n])
  next
    case (Some c)
    obtain r where r: "flush_commands (btm_remove n buf) (n + batch_count c) = (buf', n', r)" "ready = c # r"
      using "1.prems"(1) Some by (auto simp: flush_commands.simps [of buf n] split: prod.splits)
    have "sender_buffer_ok (btm_remove n buf)"
      using "1.prems"(2) by (auto simp: sender_buffer_ok_def btm.wf_remove btm_get_remove)
    from "1.IH" [OF Some r(1) this] Some r(2) "1.prems"(2) show ?thesis by (simp add: sender_buffer_ok_def)
  qed
qed

fun run_sender :: "proof_l1_command list \<Rightarrow> gapless_l1_proof_sender \<Rightarrow> gapless_l1_proof_sender option" where
  "run_sender [] g = Some g"
| "run_sender (c # cs) g = Option.bind (sender_receive c g) (run_sender cs)"

definition sender_inv :: "u64 \<Rightarrow> gapless_l1_proof_sender \<Rightarrow> bool" where
  "sender_inv n0 g \<longleftrightarrow>
     contiguous n0 (gs_output g) (gs_next_expected_batch_number g) \<and> sender_buffer_ok (gs_buffer g) \<and>
     btm_get (gs_buffer g) (gs_next_expected_batch_number g) = None"

lemma sender_receive_inv:
  assumes "sender_receive c g = Some g'" "sender_inv n0 g"
  shows "sender_inv n0 g'"
proof -
  obtain k buf n' ready where f: "first_batch_number c = Some k"
    "flush_commands (btm_insert k c (gs_buffer g)) (gs_next_expected_batch_number g) = (buf, n', ready)"
    and g': "g' = g \<lparr> gs_buffer := buf, gs_next_expected_batch_number := n', gs_output := gs_output g @ ready \<rparr>"
    using assms(1) by (auto simp: sender_receive_def Let_def split: bind_splits prod.splits)
  have "sender_buffer_ok (btm_insert k c (gs_buffer g))"
    using assms(2) f(1) by (auto simp: sender_inv_def sender_buffer_ok_def btm.wf_insert btm_get_insert)
  from flush_commands_spec [OF f(2) this] assms(2) show ?thesis
    by (auto simp: g' sender_inv_def contiguous_append)
qed

lemma run_sender_inv: "run_sender cs g = Some g' \<Longrightarrow> sender_inv n0 g \<Longrightarrow> sender_inv n0 g'"
  by (induction cs arbitrary: g) (auto split: bind_splits intro: sender_receive_inv)

subsection \<open>Every output was received\<close>

lemma flush_ready_values:
  "flush_ready buf n = (buf', n', ready) \<Longrightarrow> set ready \<union> snd ` set buf' \<subseteq> snd ` set buf"
proof (induction buf n arbitrary: buf' n' ready rule: flush_ready.induct)
  case (1 buf n)
  show ?case
  proof (cases "btm_get buf n")
    case None
    with 1 show ?thesis by (auto simp: flush_ready.simps [of buf n])
  next
    case (Some b)
    obtain r where r: "flush_ready (btm_remove n buf) (n + 1) = (buf', n', r)" "ready = b # r"
      using "1.prems"(1) Some by (auto simp: flush_ready.simps [of buf n] split: prod.splits)
    have "snd ` set (btm_remove n buf) \<subseteq> snd ` set buf" by (auto simp: btm_remove_def)
    moreover have "b \<in> snd ` set buf" using btm_get_Some_in [OF Some] by force
    moreover note ih = "1.IH" [OF Some r(1)]
    ultimately show ?thesis unfolding r(2) by simp blast
  qed
qed

definition committer_batches :: "gapless_committer \<Rightarrow> fri_proof signed_batch_envelope set" where
  "committer_batches g = set (map out_batch (gc_output g)) \<union> snd ` set (gc_buffer g)"

lemma committer_receive_batches:
  assumes "committer_receive b g = Inr g'"
  shows "committer_batches g' \<subseteq> insert b (committer_batches g)"
proof -
  let ?buf = "btm_insert (be_batch_number b) b (gc_buffer g)"
  obtain buf n' ready where f: "flush_ready ?buf (gc_next_expected_batch_number g) = (buf, n', ready)"
    by (metis prod_cases3)
  have c: "commit_all ready (g \<lparr> gc_buffer := buf, gc_next_expected_batch_number := n' \<rparr>) = Inr g'"
    using assms(1) f by (simp add: committer_receive_def)
  from commit_all_ok [OF c] have
    out: "map out_batch (gc_output g') = map out_batch (gc_output g) @ ready" and buf: "gc_buffer g' = buf" by simp_all
  have "snd ` set ?buf \<subseteq> snd ` insert (be_batch_number b, b) (set (gc_buffer g))"
    by (rule image_mono [OF btm_insert_subset])
  then have "set ready \<union> snd ` set buf \<subseteq> insert b (snd ` set (gc_buffer g))"
    using flush_ready_values [OF f] by simp blast
  then show ?thesis unfolding committer_batches_def out buf by simp blast
qed

lemma run_committer_batches:
  "run_committer bs g = Inr g' \<Longrightarrow> committer_batches g' \<subseteq> set bs \<union> committer_batches g"
proof (induction bs arbitrary: g)
  case (Cons b bs)
  then obtain g1 where g1: "committer_receive b g = Inr g1" "run_committer bs g1 = Inr g'"
    by (auto split: sum.splits)
  from Cons.IH [OF g1(2)] committer_receive_batches [OF g1(1)] show ?case by auto
qed simp

subsection \<open>Submitting FRI proofs\<close>

lemma complete_job_spec:
  assumes "jobs_wf m"
  shows "complete_job now b m = Some
    (case btm_get (pj_jobs m) b of
       None \<Rightarrow> (m, None)
     | Some e \<Rightarrow> (m \<lparr> pj_jobs := btm_remove b (pj_jobs m) \<rparr>, Some (je_batch_envelope e)))"
  using complete_many_jobs_spec [OF assms, of b b now] by (auto simp: complete_job_def split: option.split)

lemma verify_proof_ok:
  "verify_proof vt er e proof_bytes s = (s', Inr u) \<Longrightarrow>
    vt e proof_bytes = Returned (Inr ()) \<and> fm_jobs s' = fm_jobs s"
  by (auto simp: verify_proof_def Let_def split: verify_task.splits sum.splits submit_error.splits)

lemma fri_try_reserve_ok:
  "fri_try_reserve c = Inr u \<longleftrightarrow> \<not> ch_closed c \<and> length (ch_queue c) < ch_capacity c"
  by (auto simp: fri_try_reserve_def)

text \<open>The part of \<open>submit_proof\<close> after the verdict.\<close>

lemma fri_submit_finish:
  assumes "fri_submit_proof vt er others now b proof_bytes version prover_id s = Some (s', r)"
  obtains "s' = s" "get_job_batch_metadata b (fm_jobs s) = None"
  | e pv t where "get_job_batch_metadata b (fm_jobs s) = Some e" "bm_proving_version e = Inr pv"
      "s' = others t \<lparr> fm_jobs := unassign_job b prover_id (fm_jobs (others t)) \<rparr>" "isl r"
  | e t where "get_job_batch_metadata b (fm_jobs s) = Some e" "bm_proving_version e = Inr version"
      "vt e proof_bytes = Returned (Inr ())" "s' = others t" "fri_try_reserve (fm_sender (others t)) = r" "isl r"
  | e t m removed where "get_job_batch_metadata b (fm_jobs s) = Some e" "bm_proving_version e = Inr version"
      "vt e proof_bytes = Returned (Inr ())" "fri_try_reserve (fm_sender (others t)) = Inr ()" "r = Inr ()"
      "fm_jobs t = fm_jobs s" "complete_job now b (fm_jobs (others t)) = Some (m, removed)"
      "s' = (others t) \<lparr> fm_jobs := m, fm_sender := (case removed of None \<Rightarrow> fm_sender (others t)
         | Some j \<Rightarrow> channel_send (with_data (RealFri (FriV2 proof_bytes (proving_version_repr version))) j) (fm_sender (others t))) \<rparr>"
proof (cases "get_job_batch_metadata b (fm_jobs s)")
  case None
  with assms that(1) show ?thesis by (simp add: fri_submit_proof_def)
next
  case (Some e)
  with assms obtain pv where pv: "bm_proving_version e = Inr pv" by (auto simp: fri_submit_proof_def split: sum.splits)
  obtain t v where tv: "(if pv \<noteq> version then (s, Inl (ProvingVersionMismatch pv version))
      else verify_proof vt er e proof_bytes s) = (t, v)" by fastforce
  show ?thesis
  proof (cases v)
    case (Inl err)
    then have "s' = others t \<lparr> fm_jobs := unassign_job b prover_id (fm_jobs (others t)) \<rparr> \<and> isl r"
      using assms Some pv tv by (auto simp: fri_submit_proof_def Let_def)
    with that(2) Some pv show ?thesis by blast
  next
    case (Inr u)
    have ok: "pv = version" "vt e proof_bytes = Returned (Inr ())" "fm_jobs t = fm_jobs s"
      using tv Inr verify_proof_ok [of vt er e proof_bytes s t] by (auto split: if_splits)
    show ?thesis
    proof (cases "fri_try_reserve (fm_sender (others t))")
      case (Inl err)
      then have "s' = others t \<and> r = Inl err"
        using assms Some pv tv ok \<open>v = Inr u\<close> by (auto simp: fri_submit_proof_def Let_def)
      with that(3) [of e t] Some pv ok Inl show ?thesis by simp
    next
      case rs: (Inr u')
      then obtain m removed where c: "complete_job now b (fm_jobs (others t)) = Some (m, removed)"
        using assms Some pv tv ok Inr by (auto simp: fri_submit_proof_def Let_def split: bind_splits)
      with rs that(4) [OF Some, of t m removed] pv ok assms Some tv Inr show ?thesis
        by (auto simp: fri_submit_proof_def Let_def split: option.splits)
    qed
  qed
qed

subsection \<open>Properties\<close>

definition committer_start :: "u64 \<Rightarrow> u64 \<Rightarrow> batch_verification_sl \<Rightarrow> gapless_committer" where
  "committer_start n0 last_committed config =
     \<lparr> gc_buffer = [], gc_next_expected_batch_number = n0, gc_last_committed_batch_number = last_committed,
       gc_config = config, gc_stored = [], gc_output = [] \<rparr>"

text \<open>C9.  The committer restores the batch order.  Whatever the order in which proven batches
  arrive, with duplicates or not, the commands it emits are for the batches \<open>n0, n0 + 1, \<dots>\<close> without
  gap or repetition, every one of them was received, the same batches were stored before, and it
  stops exactly at the first batch that has not arrived yet.\<close>

theorem committer_is_gapless:
  assumes "run_committer bs (committer_start n0 lc cfg) = Inr g"
  shows "\<exists>n \<ge> n0. map (be_batch_number \<circ> out_batch) (gc_output g) = [n0..<n] \<and>
    map be_batch_number (gc_stored g) = [n0..<n] \<and> set (map out_batch (gc_output g)) \<subseteq> set bs \<and>
    n \<notin> be_batch_number ` set bs"
proof -
  let ?n = "gc_next_expected_batch_number g"
  have "committer_inv n0 {} (committer_start n0 lc cfg)"
    by (simp add: committer_inv_def committer_start_def buffer_ok_def btm_get_def)
  from run_committer_inv [OF assms this]
  have inv: "n0 \<le> ?n" "btm_get (gc_buffer g) ?n = None" "map (be_batch_number \<circ> out_batch) (gc_output g) = [n0..<?n]"
    "map be_batch_number (gc_stored g) = [n0..<?n]"
    "\<And>k. k \<in> be_batch_number ` set bs \<Longrightarrow> ?n \<le> k \<Longrightarrow> btm_get (gc_buffer g) k \<noteq> None"
    unfolding committer_inv_def Let_def by auto
  have "?n \<notin> be_batch_number ` set bs" using inv(2) inv(5) [of ?n] by auto
  moreover have "set (map out_batch (gc_output g)) \<subseteq> set bs"
    using run_committer_batches [OF assms] by (simp add: committer_batches_def committer_start_def)
  ultimately show ?thesis using inv(1,3,4) by blast
qed

definition sample_proven :: "u64 \<Rightarrow> fri_proof signed_batch_envelope" where
  "sample_proven n = sample_envelope n FakeFri"

lemma sample_run_committer:
  "\<exists>g. run_committer [sample_proven 3, sample_proven 1] (committer_start 1 5 SlDisabled) = Inr g"
proof -
  have "\<not> isl (run_committer [sample_proven 3, sample_proven 1] (committer_start 1 5 SlDisabled))" by code_simp
  then show ?thesis by (simp add: isl_def) (meson sum.exhaust)
qed

theorem committer_is_gapless_witness:
  "\<exists>g n. run_committer [sample_proven 3, sample_proven 1] (committer_start 1 5 SlDisabled) = Inr g \<and>
    n \<ge> 1 \<and> map (be_batch_number \<circ> out_batch) (gc_output g) = [1..<n]"
proof -
  from sample_run_committer obtain g where
    g: "run_committer [sample_proven 3, sample_proven 1] (committer_start 1 5 SlDisabled) = Inr g" ..
  from committer_is_gapless [OF g] g show ?thesis by blast
qed

definition sender_start :: "u64 \<Rightarrow> gapless_l1_proof_sender" where
  "sender_start n0 = \<lparr> gs_buffer = [], gs_next_expected_batch_number = n0, gs_output = [] \<rparr>"

text \<open>Proof commands reach the settlement layer as one gapless sequence of batch ranges that
  starts at the first expected batch, in whatever order the provers finish.\<close>

theorem proof_sender_is_contiguous:
  assumes "run_sender cs (sender_start n0) = Some g"
  shows "contiguous n0 (gs_output g) (gs_next_expected_batch_number g)"
proof -
  have "sender_inv n0 (sender_start n0)"
    by (simp add: sender_inv_def sender_start_def sender_buffer_ok_def btm_get_def)
  from run_sender_inv [OF assms this] show ?thesis by (simp add: sender_inv_def)
qed

theorem proof_sender_is_contiguous_witness:
  "\<exists>g. run_sender [ProofPassthrough (sample_proven 2), ProofPassthrough (sample_proven 1)] (sender_start 1) = Some g \<and>
    contiguous 1 (gs_output g) (gs_next_expected_batch_number g)"
proof -
  have "\<exists>g. run_sender [ProofPassthrough (sample_proven 2), ProofPassthrough (sample_proven 1)] (sender_start 1) = Some g"
    by (simp add: sender_receive_def first_batch_number_def sample_proven_def Let_def case_prod_beta)
  then obtain g where
    g: "run_sender [ProofPassthrough (sample_proven 2), ProofPassthrough (sample_proven 1)] (sender_start 1) = Some g" ..
  from proof_sender_is_contiguous [OF g] g show ?thesis by blast
qed

text \<open>C32.  A FRI proof is passed on only if it was verified for the batch's own data and proving
  version.  Let \<open>t\<close> be the state after the verification and whatever other requests did meanwhile.
  A request then sends at most one message; if it does, the downstream channel had room, the job
  was still there, and the same step removes it, so no batch is sent twice.\<close>

theorem fri_submit_sends_only_verified:
  assumes "fri_submit_proof verify_task_of expected_registers others now b proof_bytes version prover_id s = Some (s', r)"
    and "jobs_wf (fm_jobs s)" "\<And>u. jobs_wf (fm_jobs u) \<Longrightarrow> jobs_wf (fm_jobs (others u))"
  shows "\<exists>t msgs. (t = s \<or> t \<in> range others) \<and> ch_queue (fm_sender s') = ch_queue (fm_sender t) @ msgs \<and>
    (msgs = [] \<or>
      (\<exists>e job. get_job_batch_metadata b (fm_jobs s) = Some e \<and> bm_proving_version e = Inr version \<and>
        verify_task_of e proof_bytes = Returned (Inr ()) \<and> r = Inr () \<and>
        length (ch_queue (fm_sender t)) < ch_capacity (fm_sender t) \<and> \<not> ch_closed (fm_sender t) \<and>
        btm_get (pj_jobs (fm_jobs t)) b = Some job \<and>
        msgs = [with_data (RealFri (FriV2 proof_bytes (proving_version_repr version))) (je_batch_envelope job)] \<and>
        btm_get (pj_jobs (fm_jobs s')) b = None))"
  using assms(1)
proof (cases rule: fri_submit_finish)
  case (4 e t m removed)
  let ?t = "others t"
  show ?thesis
  proof (cases removed)
    case None
    with 4(8) show ?thesis by (intro exI [of _ ?t] exI [of _ "[]"]) simp
  next
    case (Some j)
    have "jobs_wf (fm_jobs ?t)" using assms(2,3) 4(6) by simp
    with Some 4(7) complete_job_spec [OF this, of now b] obtain job where
      job: "btm_get (pj_jobs (fm_jobs ?t)) b = Some job" "j = je_batch_envelope job"
        "m = (fm_jobs ?t) \<lparr> pj_jobs := btm_remove b (pj_jobs (fm_jobs ?t)) \<rparr>" by (auto split: option.splits)
    with Some 4 show ?thesis
      by (intro exI [of _ ?t] exI [of _ "[with_data (RealFri (FriV2 proof_bytes (proving_version_repr version))) j]"])
        (simp add: channel_send_def fri_try_reserve_ok btm_get_remove)
  qed
next
  case (2 e pv t)
  then show ?thesis by (intro exI [of _ "others t"] exI [of _ "[]"]) simp
qed (metis append_Nil2 rangeI)+

definition sample_fri_manager :: fri_job_manager where
  "sample_fri_manager = \<lparr> fm_jobs = sample_map FakeInput,
     fm_sender = \<lparr> ch_queue = [], ch_capacity = 2, ch_closed = False \<rparr>, fm_failed_proofs = [] \<rparr>"

theorem fri_submit_sends_only_verified_witness:
  "\<exists>s' r (t :: fri_job_manager) msgs. fri_submit_proof (\<lambda>_ _. Returned (Inr ())) (\<lambda>_. []) id 3 2 [7] PV6 ''p'' sample_fri_manager = Some (s', r) \<and>
    r = Inr () \<and> ch_queue (fm_sender s') = ch_queue (fm_sender t) @ msgs \<and> length (ch_queue (fm_sender s')) = 1"
proof -
  let ?sub = "fri_submit_proof (\<lambda>_ _. Returned (Inr ())) (\<lambda>_. []) id 3 2 [7] PV6 ''p'' sample_fri_manager"
  have ev: "(case ?sub of Some (s', Inr u) \<Rightarrow> length (ch_queue (fm_sender s')) = 1 | _ \<Rightarrow> False)" by code_simp
  then obtain s' where s': "?sub = Some (s', Inr ())" "length (ch_queue (fm_sender s')) = 1"
    by (cases ?sub) (auto split: sum.splits)
  have "jobs_wf (fm_jobs sample_fri_manager)" by (simp add: sample_fri_manager_def sample_map_wf)
  from fri_submit_sends_only_verified [OF s'(1) this] obtain t :: fri_job_manager and msgs where
    t: "ch_queue (fm_sender s') = ch_queue (fm_sender t) @ msgs" by (simp only: id_apply) blast
  with s' show ?thesis by blast
qed

text \<open>C33.  Draining the fake proofs ends, without a panic, for every state of the job map.  No batch is
  lost or duplicated on the way: each one is afterwards either still in the map or in exactly one
  sent command.  If the channel accepted everything, no job that the fake prover may take is left,
  so fake proofs never reach a real SNARK prover.\<close>

theorem fake_proofs_are_drained:
  assumes "jobs_wf (sm_jobs s)" "sm_max_fris_per_snark s > 0"
  shows "\<exists>s' r. process_pending_fake_or_timed_out_fri_proofs now timeout s = Some (s', r) \<and>
    snark_batches s' = snark_batches s \<and>
    (r = Inr () \<longrightarrow> \<not> has_assignable_job now (is_fake_or_timed_out now timeout) (sm_jobs s'))"
  using process_pending_total [OF assms, of now timeout] by blast

definition sample_snark_manager :: snark_job_manager where
  "sample_snark_manager = \<lparr> sm_jobs = sample_map FakeFri,
     sm_sender = \<lparr> ch_queue = [], ch_capacity = 5, ch_closed = False \<rparr>, sm_max_fris_per_snark = 2 \<rparr>"

theorem fake_proofs_are_drained_witness:
  "\<exists>s' r. process_pending_fake_or_timed_out_fri_proofs 3 None sample_snark_manager = Some (s', r) \<and>
    snark_batches s' = {#1, 2, 4#}"
proof -
  have "snark_batches sample_snark_manager = {#1, 2, 4#}"
    by (simp add: snark_batches_def sample_snark_manager_def sample_map_def sent_batches_def)
  with fake_proofs_are_drained [of sample_snark_manager 3 None] show ?thesis
    by (auto simp: sample_snark_manager_def sample_map_wf)
qed

text \<open>C34.  A SNARK proof submission for a range whose end lies before its start is not rejected: if
  the first batch is in the map with the submitted verification key and the channel has room, the
  request panics while it collects the statistics of an empty range.\<close>

theorem snark_submit_inverted_range_panics:
  assumes "get_job_batch_metadata from_batch (sm_jobs s) = Some e" "verification_key_hash e = Inr (vk_hash version)"
    and "snark_try_reserve (sm_sender s) = Inr ()" "to_batch < from_batch"
  shows "snark_submit_proof now from_batch to_batch version payload s = None"
  using assms by (simp add: snark_submit_proof_def complete_many_jobs_def job_batch_stats_new_def)

theorem snark_submit_inverted_range_panics_witness:
  "snark_submit_proof 3 2 1 PV6 [] sample_snark_manager = None"
  by (rule snark_submit_inverted_range_panics [of _ _ "sample_metadata 2"])
    (simp_all add: sample_snark_manager_def sample_map_def get_job_batch_metadata_def btm_get_def sample_entry_def
      sample_envelope_def sample_metadata_def verification_key_hash_def proving_version_try_from_def snark_try_reserve_def)

end
