(* ===== verification/BatchVerification.thy ===== *)
theory BatchVerification
  imports NativeBatch BatchWire ProverManagers
begin

text \<open>
  Multi-signature verification of batches (\<open>lib/batch_verification\<close>).  The sequencer's side
  (\<open>main_node/component.rs\<close>) broadcasts a request and collects the signatures of distinct accepted
  validators until the threshold is met; the validator's side (\<open>verifier\<close>) recomputes the commit
  data from its own blocks and signs it if it matches.

  The signature scheme is the record \<open>signatures\<close>.  What the network delivers to the collecting
  loop is a list of events; a loop whose events are used up is still waiting.
\<close>

subsection \<open>Reading and printing numbers\<close>

definition be_nat :: "byte list \<Rightarrow> nat" where
  "be_nat bs = foldl (\<lambda>n b. n * 256 + unat b) 0 bs"

fun show_nat :: "nat \<Rightarrow> string" where
  "show_nat n = (if n < 10 then [char_of (48 + n)] else show_nat (n div 10) @ [char_of (48 + n mod 10)])"

declare show_nat.simps [simp del]

subsection \<open>Signatures over a batch\<close>

record commit_batches_multisig =
  mg_chainAddress :: address
  mg_processBatchFrom :: nat
  mg_processBatchTo :: nat
  mg_batchData :: "byte list"

record eip712_domain =
  dm_name :: string
  dm_version :: string
  dm_chain_id :: nat
  dm_verifying_contract :: address

record signatures =
  sg_signing_hash :: "commit_batches_multisig \<Rightarrow> eip712_domain \<Rightarrow> b256"
  sg_from_raw :: "byte list \<Rightarrow> byte list option"
  sg_into_raw :: "byte list \<Rightarrow> byte list"
  sg_recover :: "byte list \<Rightarrow> b256 \<Rightarrow> address option"

text \<open>Unsupported protocol versions panic in \<open>encode_commit_batch_data\<close>.\<close>

definition eip712_multisig_digest ::
    "signatures \<Rightarrow> abi \<Rightarrow> stored_batch_info \<Rightarrow> commit_batch_info \<Rightarrow> address \<Rightarrow> u64 \<Rightarrow> address \<Rightarrow>
     protocol_semantic_version \<Rightarrow> b256 option" where
  "eip712_multisig_digest sg abi prev_batch_info commit_batch_info diamond_proxy sl_chain_id multisig_committer
       protocol_version = do {
     batch_data \<leftarrow> encode_commit_batch_data abi prev_batch_info commit_batch_info (minor protocol_version);
     Some (sg_signing_hash sg
       \<lparr> mg_chainAddress = diamond_proxy, mg_processBatchFrom = ci_batch_number commit_batch_info,
         mg_processBatchTo = ci_batch_number commit_batch_info, mg_batchData = batch_data \<rparr>
       \<lparr> dm_name = ''MultisigCommitter'', dm_version = ''1'', dm_chain_id = sl_chain_id,
         dm_verifying_contract = multisig_committer \<rparr>) }"

definition sign_batch ::
    "signatures \<Rightarrow> abi \<Rightarrow> stored_batch_info \<Rightarrow> commit_batch_info \<Rightarrow> address \<Rightarrow> u64 \<Rightarrow> address \<Rightarrow>
     protocol_semantic_version \<Rightarrow> (b256 \<Rightarrow> byte list option) \<Rightarrow> byte list option" where
  "sign_batch sg abi prev ci diamond_proxy sl_chain_id multisig_committer pv sign_hash = do {
     digest \<leftarrow> eip712_multisig_digest sg abi prev ci diamond_proxy sl_chain_id multisig_committer pv;
     sign_hash digest }"

definition verify_signature ::
    "signatures \<Rightarrow> abi \<Rightarrow> byte list \<Rightarrow> stored_batch_info \<Rightarrow> commit_batch_info \<Rightarrow> address \<Rightarrow> u64 \<Rightarrow> address \<Rightarrow>
     protocol_semantic_version \<Rightarrow> validated_batch_signature option option" where
  "verify_signature sg abi signature prev ci diamond_proxy sl_chain_id multisig_committer pv = do {
     digest \<leftarrow> eip712_multisig_digest sg abi prev ci diamond_proxy sl_chain_id multisig_committer pv;
     Some (case sg_recover sg signature digest of
             None \<Rightarrow> None
           | Some signer \<Rightarrow> Some \<lparr> vs_signature = signature, vs_signer = signer \<rparr>) }"

subsection \<open>The collecting side\<close>

record batch_verification_config =
  bv_server_enabled :: bool
  bv_threshold :: u64
  bv_accepted_signers :: "string list"

text \<open>The configured signers are parsed in every case; a malformed one panics.\<close>

definition effective_verification_policy ::
    "(string \<Rightarrow> address option) \<Rightarrow> batch_verification_config \<Rightarrow> batch_verification_sl \<Rightarrow> (u64 \<times> address list) option" where
  "effective_verification_policy parse config l1_state = do {
     config_validators \<leftarrow> unwrap_all (map parse (bv_accepted_signers config));
     Some (case l1_state of
             SlEnabled l1_config \<Rightarrow>
               if sl_validators l1_config \<noteq> [] \<or> sl_threshold l1_config > 0
               then (max (bv_threshold config) (sl_threshold l1_config), sl_validators l1_config)
               else (bv_threshold config, config_validators)
           | SlDisabled \<Rightarrow> (bv_threshold config, config_validators)) }"

datatype verify_batch_outcome = Approved "byte list" | Refused string

record verify_batch_result =
  vs_request_id :: u64
  vs_batch_number :: u64
  vs_result :: verify_batch_outcome

datatype bv_error =
    NotEnoughSigners u64 u64 | VerifyRequestChannelClosed | VerifyResultChannelClosed | BvInternal string

record runner =
  rn_accepted_signers :: "address list"
  rn_threshold :: u64
  rn_request_id_counter :: u64
  rn_sent_requests :: "verify_batch list"
  rn_request_channel_closed :: bool
  rn_l1_chain_id :: u64
  rn_diamond_proxy :: address
  rn_multisig_committer :: address
  rn_last_committed_batch_number :: u64

record l1_state =
  ls_validator_timelock :: address
  ls_batch_verification :: batch_verification_sl
  ls_l1_chain_id :: u64
  ls_diamond_proxy :: address

text \<open>\<open>BatchVerificationPipelineStep::new\<close> followed by \<open>BatchVerificationRunner::new\<close>.\<close>

definition pipeline_step_new ::
    "(string \<Rightarrow> address option) \<Rightarrow> batch_verification_config \<Rightarrow> l1_state \<Rightarrow> u64 \<Rightarrow> runner option" where
  "pipeline_step_new parse config l1_state last_committed_batch_number = do {
     (threshold, validators) \<leftarrow> effective_verification_policy parse config (ls_batch_verification l1_state);
     Some \<lparr> rn_accepted_signers = validators, rn_threshold = threshold, rn_request_id_counter = 1,
       rn_sent_requests = [], rn_request_channel_closed = False, rn_l1_chain_id = ls_l1_chain_id l1_state,
       rn_diamond_proxy = ls_diamond_proxy l1_state, rn_multisig_committer = ls_validator_timelock l1_state,
       rn_last_committed_batch_number = last_committed_batch_number \<rparr> }"

definition process_response ::
    "signatures \<Rightarrow> abi \<Rightarrow> runner \<Rightarrow> batch_metadata \<Rightarrow> verify_batch_result \<Rightarrow> validated_batch_signature option option" where
  "process_response sg abi r batch response =
     (case vs_result response of
        Refused _ \<Rightarrow> Some None
      | Approved bytes \<Rightarrow>
          if length bytes \<noteq> 65 then Some None
          else (case sg_from_raw sg bytes of
                 None \<Rightarrow> Some None
               | Some signature \<Rightarrow> do {
                   v \<leftarrow> verify_signature sg abi signature (bm_previous_stored_batch_info batch)
                     (pb_commit_info (bm_batch_info batch)) (rn_diamond_proxy r) (rn_l1_chain_id r)
                     (rn_multisig_committer r) (pb_protocol_version (bm_batch_info batch));
                   Some (case v of
                           None \<Rightarrow> None
                         | Some validated \<Rightarrow>
                             if vs_signer validated \<in> set (rn_accepted_signers r) then Some validated else None) }))"

datatype rx_event = RxResponse verify_batch_result | RxClosed | RxTimeout

datatype collect_result = CollectOk batch_signature_set | CollectErr bv_error | CollectPending

fun collect_loop ::
    "signatures \<Rightarrow> abi \<Rightarrow> runner \<Rightarrow> batch_metadata \<Rightarrow> u64 \<Rightarrow> batch_signature_set \<Rightarrow> rx_event list \<Rightarrow>
     (collect_result \<times> rx_event list) option" where
  "collect_loop sg abi r batch request_id responses [] = Some (CollectPending, [])"
| "collect_loop sg abi r batch request_id responses (RxTimeout # evs) =
     Some (CollectErr (NotEnoughSigners (length responses) (rn_threshold r)), evs)"
| "collect_loop sg abi r batch request_id responses (RxClosed # evs) = Some (CollectErr VerifyResultChannelClosed, evs)"
| "collect_loop sg abi r batch request_id responses (RxResponse response # evs) =
     (if vs_request_id response \<noteq> request_id then collect_loop sg abi r batch request_id responses evs
      else case process_response sg abi r batch response of
             None \<Rightarrow> None
           | Some None \<Rightarrow> collect_loop sg abi r batch request_id responses evs
           | Some (Some validated_signature) \<Rightarrow>
               (case signature_set_push responses validated_signature of
                  Inl _ \<Rightarrow> collect_loop sg abi r batch request_id responses evs
                | Inr responses' \<Rightarrow>
                    if length responses' \<ge> rn_threshold r then Some (CollectOk responses', evs)
                    else collect_loop sg abi r batch request_id responses' evs))"

text \<open>\<open>AtomicU64::fetch_add\<close> wraps around, unlike \<open>+\<close>.\<close>

definition collect_batch_verification_signatures ::
    "signatures \<Rightarrow> abi \<Rightarrow> runner \<Rightarrow> batch_metadata \<Rightarrow> rx_event list \<Rightarrow> (runner \<times> collect_result \<times> rx_event list) option" where
  "collect_batch_verification_signatures sg abi r batch evs =
     (let request_id = rn_request_id_counter r;
          r = r \<lparr> rn_request_id_counter := (request_id + 1) mod 2 ^ 64 \<rparr>
      in do {
        encoded \<leftarrow> encode_verify_batch_request abi batch request_id;
        (case encoded of
           Inl err \<Rightarrow> Some (r, CollectErr (BvInternal err), evs)
         | Inr request \<Rightarrow>
             if rn_request_channel_closed r then Some (r, CollectErr VerifyRequestChannelClosed, evs)
             else do {
               (res, evs') \<leftarrow> collect_loop sg abi r batch request_id [] evs;
               Some (r \<lparr> rn_sent_requests := rn_sent_requests r @ [request] \<rparr>, res, evs') }) })"

text \<open>The retry loop of one batch.  The code retries without a limit; \<open>attempts\<close> bounds how many
  attempts are looked at.\<close>

datatype signing_result = SignedBy batch_signature_set | RunnerExits | WaitingForEvents | StillRetrying

fun sign_with_retries ::
    "signatures \<Rightarrow> abi \<Rightarrow> nat \<Rightarrow> runner \<Rightarrow> batch_metadata \<Rightarrow> rx_event list \<Rightarrow> (runner \<times> signing_result \<times> rx_event list) option" where
  "sign_with_retries sg abi 0 r batch evs = Some (r, StillRetrying, evs)"
| "sign_with_retries sg abi (Suc attempts) r batch evs = do {
     (r', res, evs') \<leftarrow> collect_batch_verification_signatures sg abi r batch evs;
     (case res of
        CollectOk sigs \<Rightarrow> Some (r', SignedBy sigs, evs')
      | CollectPending \<Rightarrow> Some (r', WaitingForEvents, evs')
      | CollectErr VerifyRequestChannelClosed \<Rightarrow> Some (r', RunnerExits, evs')
      | CollectErr VerifyResultChannelClosed \<Rightarrow> Some (r', RunnerExits, evs')
      | CollectErr _ \<Rightarrow> sign_with_retries sg abi attempts r' batch evs') }"

text \<open>The body of the runner for one received batch; \<^term>\<open>None\<close> in the result is a batch that has not
  been sent downstream.\<close>

definition run_batch ::
    "signatures \<Rightarrow> abi \<Rightarrow> nat \<Rightarrow> runner \<Rightarrow> 'd batch_for_signing \<Rightarrow> rx_event list \<Rightarrow>
     (runner \<times> 'd signed_batch_envelope option \<times> rx_event list) option" where
  "run_batch sg abi attempts r batch_envelope evs =
     (if be_batch_number batch_envelope \<le> rn_last_committed_batch_number r
      then Some (r, Some (with_signatures AlreadyCommitted batch_envelope), evs)
      else do {
        (r', res, evs') \<leftarrow> sign_with_retries sg abi attempts r (be_batch batch_envelope) evs;
        Some (r', case res of SignedBy sigs \<Rightarrow> Some (with_signatures (Signed sigs) batch_envelope) | _ \<Rightarrow> None, evs') })"

definition pipeline_step ::
    "signatures \<Rightarrow> abi \<Rightarrow> batch_verification_config \<Rightarrow> nat \<Rightarrow> runner \<Rightarrow> 'd batch_for_signing \<Rightarrow> rx_event list \<Rightarrow>
     (runner \<times> 'd signed_batch_envelope option \<times> rx_event list) option" where
  "pipeline_step sg abi config attempts r batch evs =
     (if \<not> bv_server_enabled config then Some (r, Some (with_signatures NotNeeded batch), evs)
      else run_batch sg abi attempts r batch evs)"

subsection \<open>The blocks of a validator\<close>

record 'b block_cache =
  kc_data :: "u64 \<rightharpoonup> 'b"
  kc_range :: "(u64 \<times> u64) option"

definition block_cache_new :: "'b block_cache" where
  "block_cache_new = \<lparr> kc_data = Map.empty, kc_range = None \<rparr>"

definition remove_lower_then :: "u64 \<Rightarrow> 'b block_cache \<Rightarrow> 'b block_cache" where
  "remove_lower_then block_number c =
     (case kc_range c of
        None \<Rightarrow> c
      | Some (low, high) \<Rightarrow>
          if block_number \<le> low then c
          else if block_number > high then c \<lparr> kc_data := Map.empty, kc_range := None \<rparr>
          else c \<lparr> kc_data := (\<lambda>n. if n \<ge> block_number then kc_data c n else None),
                  kc_range := Some (block_number, high) \<rparr>)"

definition block_cache_insert :: "u64 \<Rightarrow> u64 \<Rightarrow> 'b \<Rightarrow> 'b block_cache \<Rightarrow> string + 'b block_cache" where
  "block_cache_insert last_committed_block block_number block c =
     (case kc_range c of
        Some (low, high) \<Rightarrow>
          if block_number \<noteq> high + 1 then Inl ''Out of order block received. This should never happen''
          else Inr (remove_lower_then (last_committed_block + 1)
            (c \<lparr> kc_range := Some (low, block_number), kc_data := (kc_data c)(block_number \<mapsto> block) \<rparr>))
      | None \<Rightarrow>
          Inr (remove_lower_then (last_committed_block + 1)
            (c \<lparr> kc_range := Some (block_number, block_number), kc_data := (kc_data c)(block_number \<mapsto> block) \<rparr>)))"

subsection \<open>The multichain root\<close>

definition n_dim_array_key_in_layout :: "externals \<Rightarrow> b256 \<Rightarrow> b256 list \<Rightarrow> b256" where
  "n_dim_array_key_in_layout ex array_key indices =
     foldl (\<lambda>key index. be_bytes 32 ((be_nat (ex_keccak256 ex key) + be_nat index) mod 2 ^ 256)) array_key indices"

definition L2_MESSAGE_ROOT_ADDRESS :: address where
  "L2_MESSAGE_ROOT_ADDRESS = be_bytes 20 0x10005"

definition read_multichain_root :: "externals \<Rightarrow> (address \<Rightarrow> b256 \<Rightarrow> b256) \<Rightarrow> (b256 \<Rightarrow> b256 option) \<Rightarrow> b256" where
  "read_multichain_root ex derive_flat_storage_key state =
     (let agg_tree_height = (case state (derive_flat_storage_key L2_MESSAGE_ROOT_ADDRESS (be_bytes 32 4)) of
            Some v \<Rightarrow> v | None \<Rightarrow> B256_ZERO);
          agg_tree_root_hash_key = n_dim_array_key_in_layout ex (be_bytes 32 6) [agg_tree_height, B256_ZERO]
      in case state (derive_flat_storage_key L2_MESSAGE_ROOT_ADDRESS agg_tree_root_hash_key) of
           Some v \<Rightarrow> v | None \<Rightarrow> B256_ZERO)"

subsection \<open>The responding side\<close>

datatype state_error = StateNotFound u64

datatype responder_internal = ProvingVersionErr proving_version_error | NativeRunErr string

datatype responder_error = MissingBlock u64 | BatchDataMismatch | StateErr state_error | ResponderInternal responder_internal

definition proving_version_error_display :: "proving_version_error \<Rightarrow> string" where
  "proving_version_error_display err =
     (case err of
        PvUnsupportedVersion v \<Rightarrow> ''Protocol version does not correspond to a known proving version: '' @
          show_nat (major v) @ ''.'' @ show_nat (minor v) @ ''.'' @ show_nat (patch v)
      | UnsupportedVkHash h \<Rightarrow> ''Verification key hash does not correspond to a known proving version: '' @ h)"

definition responder_error_display :: "responder_error \<Rightarrow> string" where
  "responder_error_display err =
     (case err of
        MissingBlock n \<Rightarrow> ''Missing records for block '' @ show_nat n
      | BatchDataMismatch \<Rightarrow> ''Batch data mismatch''
      | StateErr (StateNotFound n) \<Rightarrow> ''State error: block '' @ show_nat n @ '' not found''
      | ResponderInternal (ProvingVersionErr e) \<Rightarrow> proving_version_error_display e
      | ResponderInternal (NativeRunErr msg) \<Rightarrow> msg)"

record responder =
  rs_externals :: externals
  rs_abi :: abi
  rs_signatures :: signatures
  rs_sign_hash :: "b256 \<Rightarrow> byte list option"
  rs_chain_id :: u64
  rs_diamond_proxy :: address
  rs_l1_chain_id :: u64
  rs_validator_timelock :: address
  rs_derive_flat_storage_key :: "address \<Rightarrow> b256 \<Rightarrow> b256"
  rs_state_view_at :: "u64 \<Rightarrow> state_error + (b256 \<Rightarrow> b256 option)"
  rs_v32_run :: "tree_block list \<Rightarrow> pubdata_mode \<Rightarrow> string + native_batch_run_output"
  rs_chain_config_hash :: "u64 \<Rightarrow> string + b256"
  rs_block_cache :: "tree_block block_cache"

fun collect_cached :: "(u64 \<rightharpoonup> 'b) \<Rightarrow> u64 list \<Rightarrow> responder_error + 'b list" where
  "collect_cached data [] = Inr []"
| "collect_cached data (n # ns) =
     (case data n of
        None \<Rightarrow> Inl (MissingBlock n)
      | Some b \<Rightarrow> (case collect_cached data ns of Inl err \<Rightarrow> Inl err | Inr bs \<Rightarrow> Inr (b # bs)))"

definition recompute_batch_info ::
    "responder \<Rightarrow> verification_request \<Rightarrow> tree_block list \<Rightarrow> b256 \<Rightarrow> (responder_error + pending_batch_info) option" where
  "recompute_batch_info rs request blocks multichain_root = do {
     assert_that (blocks \<noteq> []);
     let protocol_version = rr_protocol_version (tb_record (hd blocks));
     (case proving_version_try_from protocol_version of
        Inl err \<Rightarrow> Some (Inl (ResponderInternal (ProvingVersionErr err)))
      | Inr proving_version \<Rightarrow>
          if proving_version_repr proving_version \<ge> proving_version_repr PV8
          then (case generate_batch_run (rs_v32_run rs) proving_version blocks (vr_pubdata_mode request) of
                  Inl err \<Rightarrow> Some (Inl (ResponderInternal (NativeRunErr err)))
                | Inr run \<Rightarrow> do {
                    built \<leftarrow> build_batch_info (rs_externals rs) (rs_chain_config_hash rs) run (vr_batch_number request)
                      (vr_first_block_number request) (vr_last_block_number request) (vr_pubdata_mode request)
                      protocol_version (rs_chain_id rs) (rs_l1_chain_id rs);
                    Some (case built of Inl err \<Rightarrow> Inl (ResponderInternal (NativeRunErr err)) | Inr (info, _) \<Rightarrow> Inr info) })
          else do {
            (info, _) \<leftarrow> build (rs_externals rs)
              (map (\<lambda>b. (tb_output b, rr_transactions (tb_record b), tb_tree_output b)) blocks)
              (rs_chain_id rs) (vr_batch_number request) (vr_pubdata_mode request) (rs_l1_chain_id rs)
              multichain_root protocol_version (bc_block_hashes (rr_block_context (tb_record (last blocks))));
            Some (Inr info) }) }"

definition handle_verification_request ::
    "responder \<Rightarrow> verification_request \<Rightarrow> (responder_error + byte list) option" where
  "handle_verification_request rs request =
     (case collect_cached (kc_data (rs_block_cache rs)) [vr_first_block_number request..<vr_last_block_number request + 1] of
        Inl err \<Rightarrow> Some (Inl err)
      | Inr blocks \<Rightarrow>
          (case rs_state_view_at rs (vr_last_block_number request) of
             Inl err \<Rightarrow> Some (Inl (StateErr err))
           | Inr state_view \<Rightarrow> do {
               recomputed \<leftarrow> recompute_batch_info rs request blocks
                 (read_multichain_root (rs_externals rs) (rs_derive_flat_storage_key rs) state_view);
               (case recomputed of
                  Inl err \<Rightarrow> Some (Inl err)
                | Inr info \<Rightarrow>
                    if normalized_commit_data (pb_commit_info info) (vr_execution_protocol_version request)
                       \<noteq> vr_commit_data request
                    then Some (Inl BatchDataMismatch)
                    else do {
                      signature \<leftarrow> sign_batch (rs_signatures rs) (rs_abi rs) (vr_prev_commit_data request)
                        (pb_commit_info info) (rs_diamond_proxy rs) (rs_l1_chain_id rs) (rs_validator_timelock rs)
                        (rr_protocol_version (tb_record (hd blocks))) (rs_sign_hash rs);
                      Some (Inr signature) }) }))"

definition handle_verification_message ::
    "responder \<Rightarrow> verify_batch \<Rightarrow> (string + verify_batch_result) option" where
  "handle_verification_message rs message = do {
     decoded \<leftarrow> verification_request_try_from (rs_abi rs) message;
     (case decoded of
        Inl err \<Rightarrow> Some (Inl err)
      | Inr request \<Rightarrow> do {
          handled \<leftarrow> handle_verification_request rs request;
          Some (Inr \<lparr> vs_request_id = vb_request_id message, vs_batch_number = vb_batch_number message,
            vs_result = (case handled of Inr signature \<Rightarrow> Approved (sg_into_raw (rs_signatures rs) signature)
              | Inl reason \<Rightarrow> Refused (responder_error_display reason)) \<rparr>) }) }"

text \<open>One round of the responder's \<open>select!\<close>; \<open>last_committed_block\<close> is the finality status then.\<close>

datatype responder_event = BlockReceived tree_block | RequestReceived verify_batch

definition responder_step ::
    "u64 \<Rightarrow> responder_event \<Rightarrow> responder \<Rightarrow> (string + responder \<times> verify_batch_result list) option" where
  "responder_step last_committed_block ev rs =
     (case ev of
        BlockReceived b \<Rightarrow>
          Some (case block_cache_insert last_committed_block (bc_block_number (rr_block_context (tb_record b))) b
                       (rs_block_cache rs) of
                  Inl err \<Rightarrow> Inl err
                | Inr cache \<Rightarrow> Inr (rs \<lparr> rs_block_cache := cache \<rparr>, []))
      | RequestReceived message \<Rightarrow> do {
          handled \<leftarrow> handle_verification_message rs message;
          Some (case handled of Inl err \<Rightarrow> Inl err | Inr result \<Rightarrow> Inr (rs, [result])) })"

subsection \<open>The collecting side is sound\<close>

text \<open>A signature the runner may count: of an accepted signer, over this batch.\<close>

definition counts_for :: "signatures \<Rightarrow> abi \<Rightarrow> runner \<Rightarrow> batch_metadata \<Rightarrow> validated_batch_signature \<Rightarrow> bool" where
  "counts_for sg abi r batch s \<longleftrightarrow> vs_signer s \<in> set (rn_accepted_signers r) \<and>
     (\<exists>digest. eip712_multisig_digest sg abi (bm_previous_stored_batch_info batch) (pb_commit_info (bm_batch_info batch))
        (rn_diamond_proxy r) (rn_l1_chain_id r) (rn_multisig_committer r) (pb_protocol_version (bm_batch_info batch))
        = Some digest \<and> sg_recover sg (vs_signature s) digest = Some (vs_signer s))"

lemma process_response_counts:
  "process_response sg abi r batch response = Some (Some s) \<Longrightarrow> counts_for sg abi r batch s"
  by (auto simp: process_response_def verify_signature_def counts_for_def
      split: verify_batch_outcome.splits if_splits option.splits bind_splits)

lemma push_response_counts:
  assumes "process_response sg abi r batch response = Some (Some s)" "signature_set_push responses s = Inr responses'"
    and "distinct_signers responses" "\<forall>s \<in> set responses. counts_for sg abi r batch s"
  shows "distinct_signers responses'" "\<forall>s \<in> set responses'. counts_for sg abi r batch s" "responses' \<noteq> []"
  using signature_set_push_distinct [OF assms(2,3)] process_response_counts [OF assms(1)] assms(2,4)
  by (auto simp: signature_set_push_cases split: if_splits)

text \<open>A response either leaves the loop where it was, or adds one signature.\<close>

lemma collect_loop_response:
  assumes "collect_loop sg abi r batch request_id responses (RxResponse response # evs) = Some x"
  obtains "collect_loop sg abi r batch request_id responses evs = Some x"
  | s responses' where "process_response sg abi r batch response = Some (Some s)"
      "signature_set_push responses s = Inr responses'"
      "x = (if rn_threshold r \<le> length responses' then (CollectOk responses', evs)
            else the (collect_loop sg abi r batch request_id responses' evs))"
      "rn_threshold r \<le> length responses' \<or> collect_loop sg abi r batch request_id responses' evs = Some x"
proof (cases "vs_request_id response = request_id")
  case True
  with assms that show ?thesis
    by (cases "process_response sg abi r batch response")
      (simp_all split: option.splits sum.splits if_splits)
qed (use assms that(1) in simp)

lemma collect_loop_sound:
  assumes "collect_loop sg abi r batch request_id responses evs = Some (CollectOk sigs, evs')"
    and "distinct_signers responses" "\<forall>s \<in> set responses. counts_for sg abi r batch s"
  shows "sigs \<noteq> [] \<and> distinct_signers sigs \<and> rn_threshold r \<le> length sigs \<and> (\<forall>s \<in> set sigs. counts_for sg abi r batch s)"
  using assms
proof (induction evs arbitrary: responses)
  case (Cons ev evs)
  note prems = Cons.prems
  show ?case
  proof (cases ev)
    case (RxResponse response)
    from prems(1) [unfolded RxResponse] show ?thesis
    proof (rule collect_loop_response)
      assume "collect_loop sg abi r batch request_id responses evs = Some (CollectOk sigs, evs')"
      from Cons.IH [OF this prems(2,3)] show ?thesis .
    next
      fix s responses'
      assume got: "process_response sg abi r batch response = Some (Some s)" "signature_set_push responses s = Inr responses'"
        and x: "(CollectOk sigs, evs') = (if rn_threshold r \<le> length responses' then (CollectOk responses', evs)
            else the (collect_loop sg abi r batch request_id responses' evs))"
        and l: "rn_threshold r \<le> length responses' \<or>
          collect_loop sg abi r batch request_id responses' evs = Some (CollectOk sigs, evs')"
      note ok = push_response_counts [OF got prems(2,3)]
      show ?thesis
      proof (cases "rn_threshold r \<le> length responses'")
        case True
        with x ok show ?thesis by simp
      next
        case False
        with l have "collect_loop sg abi r batch request_id responses' evs = Some (CollectOk sigs, evs')" by simp
        from Cons.IH [OF this ok(1,2)] show ?thesis .
      qed
    qed
  qed (use prems(1) in simp_all)
qed simp

text \<open>What an attempt leaves of the runner: only the request counter and the sent requests change.\<close>

definition same_policy :: "runner \<Rightarrow> runner \<Rightarrow> bool" where
  "same_policy r r' \<longleftrightarrow> rn_accepted_signers r' = rn_accepted_signers r \<and> rn_threshold r' = rn_threshold r \<and>
     rn_diamond_proxy r' = rn_diamond_proxy r \<and> rn_l1_chain_id r' = rn_l1_chain_id r \<and>
     rn_multisig_committer r' = rn_multisig_committer r"

lemma same_policy_counts: "same_policy r r' \<Longrightarrow> counts_for sg abi r' batch s = counts_for sg abi r batch s"
  by (simp add: same_policy_def counts_for_def)

lemma same_policy_threshold: "same_policy r r' \<Longrightarrow> rn_threshold r' = rn_threshold r"
  by (simp add: same_policy_def)

lemma collect_sound:
  assumes "collect_batch_verification_signatures sg abi r batch evs = Some (r', res, evs')"
  shows "same_policy r r'"
    and "res = CollectOk sigs \<Longrightarrow> sigs \<noteq> [] \<and> distinct_signers sigs \<and> rn_threshold r \<le> length sigs \<and>
      (\<forall>s \<in> set sigs. counts_for sg abi r batch s)"
proof -
  let ?r = "r \<lparr> rn_request_id_counter := (rn_request_id_counter r + 1) mod 2 ^ 64 \<rparr>"
  have same: "same_policy r ?r" by (simp add: same_policy_def)
  show "same_policy r r'"
    using assms by (auto simp: collect_batch_verification_signatures_def Let_def same_policy_def
        split: bind_splits sum.splits if_splits prod.splits)
  assume "res = CollectOk sigs"
  with assms have "collect_loop sg abi ?r batch (rn_request_id_counter r) [] evs = Some (CollectOk sigs, evs')"
    by (auto simp: collect_batch_verification_signatures_def Let_def split: bind_splits sum.splits if_splits prod.splits)
  from collect_loop_sound [OF this] show "sigs \<noteq> [] \<and> distinct_signers sigs \<and> rn_threshold r \<le> length sigs \<and>
      (\<forall>s \<in> set sigs. counts_for sg abi r batch s)"
    unfolding same_policy_counts [OF same] by (simp add: distinct_signers_def)
qed

lemma sign_with_retries_sound:
  assumes "sign_with_retries sg abi attempts r batch evs = Some (r', SignedBy sigs, evs')"
  shows "sigs \<noteq> [] \<and> distinct_signers sigs \<and> rn_threshold r \<le> length sigs \<and> (\<forall>s \<in> set sigs. counts_for sg abi r batch s)"
  using assms
proof (induction attempts arbitrary: r evs)
  case (Suc attempts)
  then obtain r1 res evs1 where c: "collect_batch_verification_signatures sg abi r batch evs = Some (r1, res, evs1)"
    by (auto split: bind_splits)
  note same = collect_sound(1) [OF c]
  show ?case
  proof (cases res)
    case (CollectOk x1)
    with Suc.prems c collect_sound(2) [OF c] show ?thesis by auto
  next
    case (CollectErr err)
    with Suc.prems c have "sign_with_retries sg abi attempts r1 batch evs1 = Some (r', SignedBy sigs, evs')"
      by (cases err) auto
    from Suc.IH [OF this] show ?thesis
      by (simp add: same_policy_counts [OF same] same_policy_threshold [OF same])
  next
    case CollectPending
    with Suc.prems c show ?thesis by simp
  qed
qed simp

subsection \<open>The block cache\<close>

definition cache_ok :: "'b block_cache \<Rightarrow> bool" where
  "cache_ok c \<longleftrightarrow> (case kc_range c of
     None \<Rightarrow> kc_data c = Map.empty | Some (low, high) \<Rightarrow> low \<le> high \<and> dom (kc_data c) = {low..high})"

lemma cache_ok_new: "cache_ok block_cache_new"
  by (simp add: cache_ok_def block_cache_new_def)

lemma cache_range:
  "cache_ok c \<Longrightarrow> kc_range c = Some (low, high) \<Longrightarrow> kc_data c n = None \<longleftrightarrow> \<not> (low \<le> n \<and> n \<le> high)"
  unfolding cache_ok_def using domIff [of n "kc_data c"] by auto

lemma remove_lower_then_spec:
  assumes "cache_ok c"
  shows "cache_ok (remove_lower_then m c)" "kc_data (remove_lower_then m c) n = (if n < m then None else kc_data c n)"
proof -
  show "cache_ok (remove_lower_then m c)"
    using assms by (auto simp: remove_lower_then_def cache_ok_def dom_def set_eq_iff split: option.splits)
  show "kc_data (remove_lower_then m c) n = (if n < m then None else kc_data c n)"
  proof (cases "kc_range c")
    case None
    with assms show ?thesis by (simp add: remove_lower_then_def cache_ok_def)
  next
    case (Some range)
    then obtain low high where r: "kc_range c = Some (low, high)" by (cases range) simp
    with cache_range [OF assms r, of n] show ?thesis by (auto simp: remove_lower_then_def)
  qed
qed

subsection \<open>Digests and requests\<close>

lemma collect_cached_Inr: "collect_cached data ns = Inr bs \<Longrightarrow> map data ns = map Some bs"
  by (induction ns arbitrary: bs) (auto split: option.splits sum.splits)

text \<open>The digest depends on the commit data only up to what the request transmits, and not on the
  timestamp of the previous batch.\<close>

lemma stored_to_sol_timestamp [simp]: "stored_to_sol (p \<lparr> si_last_block_timestamp := t \<rparr>) = stored_to_sol p"
  by (simp add: stored_to_sol_def)

lemma encode_normalized [simp]:
  "encode_commit_batch_data abi p (normalized_commit_data ci v) v = encode_commit_batch_data abi p ci v"
  by (auto simp: normalized_commit_data_def encode_commit_batch_data_def commit_to_sol_v29_def commit_to_sol_v30_def Let_def)

lemma encode_scheme_v29 [simp]:
  "encode_commit_batch_data abi p (ci \<lparr> ci_l2_da_commitment_scheme := s \<rparr>) 29 = encode_commit_batch_data abi p ci 29"
  by (simp add: encode_commit_batch_data_def commit_to_sol_v29_def)

lemma normalized_batch_number [simp]: "ci_batch_number (normalized_commit_data ci v) = ci_batch_number ci"
  by (simp add: normalized_commit_data_def)

lemma encode_commit_batch_data_normalized:
  assumes "normalized_commit_data ci v = (if v = 29
       then (normalized_commit_data ci' v) \<lparr> ci_l2_da_commitment_scheme := s \<rparr> else normalized_commit_data ci' v)"
  shows "encode_commit_batch_data abi p ci v = encode_commit_batch_data abi p ci' v"
    and "ci_batch_number ci = ci_batch_number ci'"
proof -
  have "encode_commit_batch_data abi p (normalized_commit_data ci v) v = encode_commit_batch_data abi p ci' v"
    unfolding assms by (cases "v = 29") simp_all
  then show "encode_commit_batch_data abi p ci v = encode_commit_batch_data abi p ci' v" by simp
  have "ci_batch_number (normalized_commit_data ci v) = ci_batch_number ci'" unfolding assms by simp
  then show "ci_batch_number ci = ci_batch_number ci'" by simp
qed

lemma digest_normalized:
  assumes "normalized_commit_data ci (minor pv) = (if minor pv = 29
       then (normalized_commit_data ci' (minor pv)) \<lparr> ci_l2_da_commitment_scheme := s \<rparr>
       else normalized_commit_data ci' (minor pv))"
  shows "eip712_multisig_digest sg abi (p \<lparr> si_last_block_timestamp := t \<rparr>) ci dp chain mc pv =
    eip712_multisig_digest sg abi p ci' dp chain mc pv"
proof -
  have "encode_commit_batch_data abi (p \<lparr> si_last_block_timestamp := t \<rparr>) ci (minor pv) =
    encode_commit_batch_data abi p ci (minor pv)"
    by (simp add: encode_commit_batch_data_def)
  with encode_commit_batch_data_normalized [OF assms] show ?thesis
    by (simp add: eip712_multisig_digest_def)
qed

lemma handle_verification_request_Approved:
  assumes "handle_verification_request rs request = Some (Inr signature)"
  obtains blocks info digest state_view where
    "map (kc_data (rs_block_cache rs)) [vr_first_block_number request..<vr_last_block_number request + 1] = map Some blocks"
    "blocks \<noteq> []" "rs_state_view_at rs (vr_last_block_number request) = Inr state_view"
    "recompute_batch_info rs request blocks
       (read_multichain_root (rs_externals rs) (rs_derive_flat_storage_key rs) state_view) = Some (Inr info)"
    "normalized_commit_data (pb_commit_info info) (vr_execution_protocol_version request) = vr_commit_data request"
    "eip712_multisig_digest (rs_signatures rs) (rs_abi rs) (vr_prev_commit_data request) (pb_commit_info info)
       (rs_diamond_proxy rs) (rs_l1_chain_id rs) (rs_validator_timelock rs)
       (rr_protocol_version (tb_record (hd blocks))) = Some digest"
    "rs_sign_hash rs digest = Some signature"
proof -
  from assms obtain blocks where c: "collect_cached (kc_data (rs_block_cache rs))
      [vr_first_block_number request..<vr_last_block_number request + 1] = Inr blocks"
    by (auto simp: handle_verification_request_def split: sum.splits)
  from assms c obtain state_view where sv: "rs_state_view_at rs (vr_last_block_number request) = Inr state_view"
    by (auto simp: handle_verification_request_def split: sum.splits)
  let ?root = "read_multichain_root (rs_externals rs) (rs_derive_flat_storage_key rs) state_view"
  from assms c sv obtain info where r: "recompute_batch_info rs request blocks ?root = Some (Inr info)"
    "normalized_commit_data (pb_commit_info info) (vr_execution_protocol_version request) = vr_commit_data request"
    "sign_batch (rs_signatures rs) (rs_abi rs) (vr_prev_commit_data request) (pb_commit_info info) (rs_diamond_proxy rs)
       (rs_l1_chain_id rs) (rs_validator_timelock rs) (rr_protocol_version (tb_record (hd blocks))) (rs_sign_hash rs)
       = Some signature"
    by (auto simp: handle_verification_request_def split: sum.splits if_splits bind_splits)
  from r(1) have "blocks \<noteq> []" by (auto simp: recompute_batch_info_def assert_that_def split: if_splits)
  from r(3) obtain digest where "eip712_multisig_digest (rs_signatures rs) (rs_abi rs) (vr_prev_commit_data request)
      (pb_commit_info info) (rs_diamond_proxy rs) (rs_l1_chain_id rs) (rs_validator_timelock rs)
      (rr_protocol_version (tb_record (hd blocks))) = Some digest" "rs_sign_hash rs digest = Some signature"
    by (auto simp: sign_batch_def split: bind_splits)
  with that c sv r(1,2) \<open>blocks \<noteq> []\<close> show ?thesis by (blast dest: collect_cached_Inr)
qed

subsection \<open>Properties\<close>

text \<open>C6.  A batch that leaves the collecting side signed carries a quorum: at least the threshold of
  signatures, at least one, by pairwise distinct accepted validators, each over this very batch.  A
  threshold of zero therefore still waits for one response.\<close>

theorem signed_batch_has_quorum:
  assumes "run_batch sg abi attempts r batch evs = Some (r', Some env, evs')"
    and "rn_last_committed_batch_number r < be_batch_number batch"
  shows "\<exists>sigs. be_signature_data env = Signed sigs \<and> be_batch env = be_batch batch \<and> sigs \<noteq> [] \<and>
    rn_threshold r \<le> card (vs_signer ` set sigs) \<and> vs_signer ` set sigs \<subseteq> set (rn_accepted_signers r) \<and>
    (\<forall>s \<in> set sigs. counts_for sg abi r (be_batch batch) s)"
proof -
  from assms obtain sigs r1 evs1 where sigs: "sign_with_retries sg abi attempts r (be_batch batch) evs = Some (r1, SignedBy sigs, evs1)"
    "env = with_signatures (Signed sigs) batch"
    by (auto simp: run_batch_def split: bind_splits signing_result.splits)
  note q = sign_with_retries_sound [OF sigs(1)]
  then have "card (vs_signer ` set sigs) = length sigs"
    by (metis distinct_card distinct_signers_def length_map set_map)
  moreover from q have "vs_signer ` set sigs \<subseteq> set (rn_accepted_signers r)" by (auto simp: counts_for_def)
  ultimately show ?thesis using q sigs(2) by auto
qed

text \<open>The policy the collecting side merges from the configuration and the settlement layer is enough
  for the committer: a batch it signs is never refused by the commit command, whatever the proof.\<close>

theorem signed_batch_is_committable:
  assumes "pipeline_step_new parse config l1 last_committed = Some r0" "same_policy r0 r"
    and "run_batch sg abi attempts r batch evs = Some (r', Some env, evs')"
    and "rn_last_committed_batch_number r < be_batch_number batch"
  shows "\<exists>cmd. commit_command_try_new (ls_batch_verification l1) (with_data proof env) = Inr cmd \<and>
    cc_input cmd = with_data proof env"
proof -
  from assms(3,4) obtain sigs r1 evs1 where sigs: "sign_with_retries sg abi attempts r (be_batch batch) evs = Some (r1, SignedBy sigs, evs1)"
    "env = with_signatures (Signed sigs) batch"
    by (auto simp: run_batch_def split: bind_splits signing_result.splits)
  have q: "rn_threshold r0 \<le> length sigs" "vs_signer ` set sigs \<subseteq> set (rn_accepted_signers r0)"
    using sign_with_retries_sound [OF sigs(1)] assms(2) by (auto simp: same_policy_def counts_for_def)
  show ?thesis
  proof (cases "ls_batch_verification l1")
    case SlDisabled
    then show ?thesis by (simp add: commit_command_try_new_def)
  next
    case (SlEnabled cfg)
    then have "sl_validators cfg = [] \<and> sl_threshold cfg = 0 \<or>
        rn_accepted_signers r0 = sl_validators cfg \<and> sl_threshold cfg \<le> rn_threshold r0"
      using assms(1) by (auto simp: pipeline_step_new_def effective_verification_policy_def split: bind_splits if_splits)
    then show ?thesis
      using q SlEnabled sigs(2) by (auto simp: commit_command_try_new_def Let_def signature_set_filter_all)
  qed
qed

text \<open>C14.  A validator signs nothing but data it recomputed: a signature is produced only over commit
  data built from its own cached blocks of exactly the requested range, and only if that data is the
  requested one.\<close>

theorem verifier_signs_only_recomputed:
  assumes "handle_verification_request rs request = Some (Inr signature)"
  shows "\<exists>blocks info digest state_view.
    map (kc_data (rs_block_cache rs)) [vr_first_block_number request..<vr_last_block_number request + 1] = map Some blocks \<and>
    blocks \<noteq> [] \<and> rs_state_view_at rs (vr_last_block_number request) = Inr state_view \<and>
    recompute_batch_info rs request blocks
      (read_multichain_root (rs_externals rs) (rs_derive_flat_storage_key rs) state_view) = Some (Inr info) \<and>
    normalized_commit_data (pb_commit_info info) (vr_execution_protocol_version request) = vr_commit_data request \<and>
    eip712_multisig_digest (rs_signatures rs) (rs_abi rs) (vr_prev_commit_data request) (pb_commit_info info)
      (rs_diamond_proxy rs) (rs_l1_chain_id rs) (rs_validator_timelock rs)
      (rr_protocol_version (tb_record (hd blocks))) = Some digest \<and>
    rs_sign_hash rs digest = Some signature"
  by (rule handle_verification_request_Approved [OF assms]) blast

text \<open>A validator keeps every uncommitted block: inserting the next block keeps the cache contiguous,
  drops the blocks up to the last committed one and nothing else.\<close>

theorem block_cache_keeps_uncommitted:
  assumes "cache_ok c" "block_cache_insert last_committed_block n b c = Inr c'"
  shows "cache_ok c' \<and> (\<forall>m. kc_data c' m =
    (if m \<le> last_committed_block then None else if m = n then Some b else kc_data c m))"
proof -
  obtain low where i: "c' = remove_lower_then (last_committed_block + 1)
      (c \<lparr> kc_range := Some (low, n), kc_data := (kc_data c)(n \<mapsto> b) \<rparr>)"
    and "cache_ok (c \<lparr> kc_range := Some (low, n), kc_data := (kc_data c)(n \<mapsto> b) \<rparr>)"
    using assms
    by (fastforce simp: block_cache_insert_def cache_ok_def atLeastAtMostSuc_conv split: option.splits if_splits)
  from remove_lower_then_spec [OF this(2)] show ?thesis unfolding i by auto
qed

text \<open>C7.  The two sides agree: whatever an accepted validator approves, for a request of this
  sequencer, is counted by the sequencer.  The signature scheme recovers the signer of a hash and
  reads its own encoding back; the two nodes know the same contracts, and the first block of the
  batch has the protocol version of the batch.\<close>

theorem honest_approval_is_counted:
  assumes "encode_verify_batch_request (rs_abi rs) batch request_id = Some (Inr req)"
    and "ci = pb_commit_info (bm_batch_info batch)" "prev = bm_previous_stored_batch_info batch"
    and "commit_fits ci" "si_number_of_layer1_txs prev < 2 ^ 64" "abi_structs_ok (rs_abi rs) prev ci"
    and "ci_first_block_number ci = Some (bm_first_block_number batch)"
    and "ci_last_block_number ci = Some (bm_last_block_number batch)"
    and "handle_verification_message rs req = Some (Inr res)" "vs_result res = Approved bytes"
    and "kc_data (rs_block_cache rs) (bm_first_block_number batch) = Some b"
    and "rr_protocol_version (tb_record b) = pb_protocol_version (bm_batch_info batch)"
    and "rn_diamond_proxy r = rs_diamond_proxy rs" "rn_l1_chain_id r = rs_l1_chain_id rs"
    and "rn_multisig_committer r = rs_validator_timelock rs" "signer \<in> set (rn_accepted_signers r)"
    and sig: "\<And>h s. rs_sign_hash rs h = Some s \<Longrightarrow> sg_recover (rs_signatures rs) s h = Some signer \<and>
      length (sg_into_raw (rs_signatures rs) s) = 65 \<and>
      sg_from_raw (rs_signatures rs) (sg_into_raw (rs_signatures rs) s) = Some s"
  shows "vs_request_id res = request_id \<and> (\<exists>s. process_response (rs_signatures rs) (rs_abi rs) r batch res =
    Some (Some \<lparr> vs_signature = s, vs_signer = signer \<rparr>))"
proof -
  let ?pv = "pb_protocol_version (bm_batch_info batch)"
  from verify_request_decodes [OF assms(1-8)] obtain vr where
    vr: "verification_request_try_from (rs_abi rs) req = Some (Inr vr)" "vr_execution_protocol_version vr = minor ?pv"
      "vr_commit_data vr = (if minor ?pv = 29
         then (normalized_commit_data ci (minor ?pv)) \<lparr> ci_l2_da_commitment_scheme := BlobsAndPubdataKeccak256 \<rparr>
         else normalized_commit_data ci (minor ?pv))"
      "vr_prev_commit_data vr = prev \<lparr> si_last_block_timestamp := Some 0 \<rparr>"
      "vr_first_block_number vr = bm_first_block_number batch" by blast
  from assms(9,10) vr(1) obtain s where h: "handle_verification_request rs vr = Some (Inr s)"
    and res: "bytes = sg_into_raw (rs_signatures rs) s" "vs_request_id res = vb_request_id req"
    by (auto simp: handle_verification_message_def split: bind_splits sum.splits)
  have id: "vb_request_id req = request_id" using assms(1)
    by (auto simp: encode_verify_batch_request_def Let_def split: if_splits bind_splits sum.splits)
  from h obtain blocks and info :: pending_batch_info and digest where bl:
    "map (kc_data (rs_block_cache rs)) [vr_first_block_number vr..<vr_last_block_number vr + 1] = map Some blocks" "blocks \<noteq> []"
    and n: "normalized_commit_data (pb_commit_info info) (vr_execution_protocol_version vr) = vr_commit_data vr"
    and d: "eip712_multisig_digest (rs_signatures rs) (rs_abi rs) (vr_prev_commit_data vr) (pb_commit_info info)
       (rs_diamond_proxy rs) (rs_l1_chain_id rs) (rs_validator_timelock rs)
       (rr_protocol_version (tb_record (hd blocks))) = Some digest" and s: "rs_sign_hash rs digest = Some s"
    by (rule handle_verification_request_Approved) blast
  have "hd blocks = b" using bl assms(11) vr(5)
    by (cases blocks) (auto simp: upt_rec split: if_splits)
  with d have "eip712_multisig_digest (rs_signatures rs) (rs_abi rs) prev ci (rs_diamond_proxy rs) (rs_l1_chain_id rs)
      (rs_validator_timelock rs) ?pv = Some digest"
    unfolding vr(4) using digest_normalized [OF n [unfolded vr(2,3)]] assms(12) by simp
  with sig [OF s] res id assms(2,3,10,13-16) show ?thesis
    by (simp add: process_response_def verify_signature_def)
qed

text \<open>C37.  A request for an empty range of blocks crashes the validator instead of being refused.\<close>

theorem empty_range_request_panics:
  assumes "vr_last_block_number request < vr_first_block_number request"
    and "rs_state_view_at rs (vr_last_block_number request) = Inr state_view"
  shows "handle_verification_request rs request = None"
  using assms by (simp add: handle_verification_request_def recompute_batch_info_def assert_that_def)

subsection \<open>Samples\<close>

definition sample_signature :: "byte list" where
  "sample_signature = replicate 65 7"

definition sample_signer :: address where
  "sample_signer = replicate 20 7"

definition sample_signatures :: signatures where
  "sample_signatures = \<lparr> sg_signing_hash = (\<lambda>m d. mg_batchData m), sg_from_raw = Some, sg_into_raw = (\<lambda>s. s),
     sg_recover = (\<lambda>s h. if s = sample_signature then Some sample_signer else None) \<rparr>"

definition sample_l1_state :: l1_state where
  "sample_l1_state = \<lparr> ls_validator_timelock = [],
     ls_batch_verification = SlEnabled \<lparr> sl_threshold = 1, sl_validators = [sample_signer] \<rparr>,
     ls_l1_chain_id = 1, ls_diamond_proxy = [] \<rparr>"

definition sample_runner :: runner where
  "sample_runner = \<lparr> rn_accepted_signers = [sample_signer], rn_threshold = 1, rn_request_id_counter = 1,
     rn_sent_requests = [], rn_request_channel_closed = False, rn_l1_chain_id = 1, rn_diamond_proxy = [],
     rn_multisig_committer = [], rn_last_committed_batch_number = 4 \<rparr>"

abbreviation sample_abi5 :: abi where
  "sample_abi5 \<equiv> sample_abi (sample_stored_info 4) (sample_commit_info 5)"

definition sample_for_signing :: "unit batch_for_signing" where
  "sample_for_signing = \<lparr> be_batch = sample_metadata 5, be_data = (), be_signature_data = () \<rparr>"

text \<open>A refusal, a stale response and a timeout first; the second attempt succeeds.\<close>

definition sample_events :: "rx_event list" where
  "sample_events =
     [RxResponse \<lparr> vs_request_id = 1, vs_batch_number = 5, vs_result = Refused [] \<rparr>, RxTimeout,
      RxResponse \<lparr> vs_request_id = 1, vs_batch_number = 5, vs_result = Approved sample_signature \<rparr>,
      RxResponse \<lparr> vs_request_id = 2, vs_batch_number = 5, vs_result = Approved sample_signature \<rparr>]"

lemma sample_for_signing_number: "be_batch_number sample_for_signing = 5"
  by (simp add: sample_for_signing_def be_batch_number_def bm_batch_number_def sample_metadata_def sample_commit_info_def)

lemma sample_process_response:
  "process_response sample_signatures sample_abi5 (sample_runner \<lparr> rn_request_id_counter := n, rn_sent_requests := q \<rparr>)
     (sample_metadata 5) \<lparr> vs_request_id = i, vs_batch_number = 5, vs_result = Approved sample_signature \<rparr> =
   Some (Some \<lparr> vs_signature = sample_signature, vs_signer = sample_signer \<rparr>)"
  by (simp add: process_response_def verify_signature_def eip712_multisig_digest_def sample_signatures_def
      encode_commit_batch_data_def sample_metadata_def commit_to_sol_v30_def sample_commit_info_def sample_runner_def
      sample_signature_def)

lemma sample_encode_request:
  "\<exists>req. encode_verify_batch_request sample_abi5 (sample_metadata 5) i = Some (Inr req)"
  by (simp add: encode_verify_batch_request_def sample_metadata_def encode_commit_data_def commit_to_sol_v30_def
      sample_commit_info_def Let_def)

lemma sample_run_batch:
  "\<exists>r' env. run_batch sample_signatures sample_abi5 2 sample_runner sample_for_signing sample_events =
    Some (r', Some env, []) \<and> be_signature_data env = Signed [\<lparr> vs_signature = sample_signature, vs_signer = sample_signer \<rparr>]"
proof -
  obtain q1 where q1: "encode_verify_batch_request sample_abi5 (sample_metadata 5) 1 = Some (Inr q1)"
    using sample_encode_request by blast
  obtain q2 where q2: "encode_verify_batch_request sample_abi5 (sample_metadata 5) 2 = Some (Inr q2)"
    using sample_encode_request by blast
  let ?r1 = "sample_runner \<lparr> rn_request_id_counter := 2, rn_sent_requests := [q1] \<rparr>"
  let ?r2 = "sample_runner \<lparr> rn_request_id_counter := 3, rn_sent_requests := [q1, q2] \<rparr>"
  have 1: "collect_batch_verification_signatures sample_signatures sample_abi5 sample_runner (sample_metadata 5) sample_events =
    Some (?r1, CollectErr (NotEnoughSigners 0 1), drop 2 sample_events)"
    using q1 by (simp add: collect_batch_verification_signatures_def sample_runner_def sample_events_def process_response_def)
  have 2: "collect_batch_verification_signatures sample_signatures sample_abi5 ?r1 (sample_metadata 5) (drop 2 sample_events) =
    Some (?r2, CollectOk [\<lparr> vs_signature = sample_signature, vs_signer = sample_signer \<rparr>], [])"
    using q2 sample_process_response [where n = 3 and q = "[q1]" and i = 2]
    by (simp add: collect_batch_verification_signatures_def sample_runner_def sample_events_def signature_set_push_def)
  have "sign_with_retries sample_signatures sample_abi5 2 sample_runner (sample_metadata 5) sample_events =
    Some (?r2, SignedBy [\<lparr> vs_signature = sample_signature, vs_signer = sample_signer \<rparr>], [])"
    using sign_with_retries.simps(2) [of sample_signatures sample_abi5 1 sample_runner "sample_metadata 5" sample_events]
      sign_with_retries.simps(2) [of sample_signatures sample_abi5 0 ?r1 "sample_metadata 5" "drop 2 sample_events"]
    unfolding 1 2 by (simp add: numeral_2_eq_2)
  moreover have "be_batch sample_for_signing = sample_metadata 5" "rn_last_committed_batch_number sample_runner = 4"
    by (simp_all add: sample_for_signing_def sample_runner_def)
  ultimately show ?thesis by (simp add: run_batch_def sample_for_signing_number)
qed

theorem signed_batch_has_quorum_witness:
  "\<exists>r' env sigs. run_batch sample_signatures sample_abi5 2 sample_runner sample_for_signing sample_events =
     Some (r', Some env, []) \<and> be_signature_data env = Signed sigs \<and> 1 \<le> card (vs_signer ` set sigs)"
proof -
  obtain r' env where run: "run_batch sample_signatures sample_abi5 2 sample_runner sample_for_signing sample_events =
     Some (r', Some env, [])" using sample_run_batch by blast
  have "rn_last_committed_batch_number sample_runner < be_batch_number sample_for_signing" "rn_threshold sample_runner = 1"
    by (simp_all add: sample_runner_def sample_for_signing_number)
  with signed_batch_has_quorum [OF run] run show ?thesis by auto
qed

theorem signed_batch_is_committable_witness:
  "\<exists>r' env cmd. run_batch sample_signatures sample_abi5 2 sample_runner sample_for_signing sample_events =
     Some (r', Some env, []) \<and>
     commit_command_try_new (ls_batch_verification sample_l1_state) (with_data FakeFri env) = Inr cmd"
proof -
  obtain r' env where run: "run_batch sample_signatures sample_abi5 2 sample_runner sample_for_signing sample_events =
     Some (r', Some env, [])" using sample_run_batch by blast
  let ?config = "\<lparr> bv_server_enabled = True, bv_threshold = 1, bv_accepted_signers = [] \<rparr>"
  have "pipeline_step_new Map.empty ?config sample_l1_state 4 = Some sample_runner"
    by (simp add: pipeline_step_new_def effective_verification_policy_def sample_l1_state_def sample_runner_def)
  moreover have "same_policy sample_runner sample_runner" by (simp add: same_policy_def)
  moreover have "rn_last_committed_batch_number sample_runner < be_batch_number sample_for_signing"
    by (simp add: sample_runner_def sample_for_signing_number)
  ultimately show ?thesis using signed_batch_is_committable [OF _ _ run] run by blast
qed

text \<open>A validator with the blocks 5 and 6, and the batch the sequencer made of them.\<close>

definition sample_native_info :: pending_batch_info where
  "sample_native_info = \<lparr> pb_commit_info =
     \<lparr> ci_batch_number = 3, ci_new_state_commitment = [], ci_number_of_layer1_txs = 0, ci_number_of_layer2_txs = 1,
       ci_priority_operations_hash = [], ci_dependency_roots_rolling_hash = [], ci_l2_to_l1_logs_root_hash = [],
       ci_l2_da_commitment_scheme = EmptyNoDA, ci_da_commitment = B256_ZERO, ci_first_block_timestamp = 1,
       ci_first_block_number = Some 5, ci_last_block_timestamp = 2, ci_last_block_number = Some 6, ci_chain_id = 270,
       ci_operator_da_input = B256_ZERO, ci_sl_chain_id = 1 \<rparr>,
     pb_upgrade_tx_hash = None, pb_protocol_version = ProtocolSemanticVersion 0 32 0 \<rparr>"

lemma sample_native_build:
  "\<exists>sidecar. build_batch_info sample_externals (\<lambda>_. Inr []) sample_native_run 3 5 6 Validium
      (ProtocolSemanticVersion 0 32 0) 270 1 = Some (Inr (sample_native_info, sidecar))"
  by (simp add: build_batch_info_def sample_native_run_def build_from_canonical_output_def calculate_da_fields_def
      canonical_commit_data_def sample_externals_def native_public_input_hash_def v32_batch_output_hash_def Let_def
      sample_native_info_def da_commitment_scheme_of_def B256_ZERO_def)

definition sample_tree_block :: "u64 \<Rightarrow> tree_block" where
  "sample_tree_block n = \<lparr> tb_output = fst (sample_built_block n []),
     tb_record = \<lparr> rr_block_context = \<lparr> bc_chain_id = 270, bc_block_number = n, bc_block_hashes = [], bc_timestamp = n,
         bc_eip1559_basefee = 0, bc_pubdata_price = 0, bc_native_price = 0, bc_coinbase = [], bc_gas_limit = 0,
         bc_pubdata_limit = 0, bc_mix_hash = 0, bc_execution_version = 0, bc_blob_fee = 0 \<rparr>,
       rr_transactions = [], rr_previous_block_timestamp = 0, rr_node_version = (0, 0, 0),
       rr_protocol_version = ProtocolSemanticVersion 0 32 0, rr_block_output_hash = [], rr_force_preimages = [],
       rr_starting_cursors = \<lparr> l1_priority_id = 0, interop_root_id = 0, migration_number = 0, interop_fee_number = 0 \<rparr> \<rparr>,
     tb_tree_output = snd (snd (sample_built_block n [])) \<rparr>"

definition sample_native_metadata :: batch_metadata where
  "sample_native_metadata = (sample_metadata 3)
     \<lparr> bm_batch_info := sample_native_info, bm_first_block_number := 5, bm_last_block_number := 6 \<rparr>"

abbreviation sample_native_abi :: abi where
  "sample_native_abi \<equiv> sample_abi (sample_stored_info 2) (pb_commit_info sample_native_info)"

definition sample_responder :: responder where
  "sample_responder = \<lparr> rs_externals = sample_externals, rs_abi = sample_native_abi, rs_signatures = sample_signatures,
     rs_sign_hash = (\<lambda>_. Some sample_signature), rs_chain_id = 270, rs_diamond_proxy = [], rs_l1_chain_id = 1,
     rs_validator_timelock = [], rs_derive_flat_storage_key = (\<lambda>a k. k), rs_state_view_at = (\<lambda>_. Inr Map.empty),
     rs_v32_run = (\<lambda>_ _. Inr sample_native_run), rs_chain_config_hash = (\<lambda>_. Inr []),
     rs_block_cache = \<lparr> kc_data = [5 \<mapsto> sample_tree_block 5, 6 \<mapsto> sample_tree_block 6], kc_range = Some (5, 6) \<rparr> \<rparr>"

definition sample_native_request :: verification_request where
  "sample_native_request = \<lparr> vr_execution_protocol_version = 32, vr_batch_number = 3, vr_first_block_number = 5,
     vr_last_block_number = 6, vr_pubdata_mode = Validium, vr_request_id = 9,
     vr_commit_data = pb_commit_info sample_native_info, vr_prev_commit_data = sample_stored_info 2 \<rparr>"

lemma sample_responder_simps [simp]:
  "rs_abi sample_responder = sample_native_abi" "rs_signatures sample_responder = sample_signatures"
  "rs_sign_hash sample_responder = (\<lambda>_. Some sample_signature)" "rs_diamond_proxy sample_responder = []"
  "rs_l1_chain_id sample_responder = 1" "rs_validator_timelock sample_responder = []"
  "rs_state_view_at sample_responder n = Inr Map.empty"
  "vr_commit_data sample_native_request = pb_commit_info sample_native_info"
  "vr_prev_commit_data sample_native_request = sample_stored_info 2"
  "vr_execution_protocol_version sample_native_request = 32"
  "rr_protocol_version (tb_record (sample_tree_block n)) = ProtocolSemanticVersion 0 32 0"
  by (simp_all add: sample_responder_def sample_native_request_def sample_tree_block_def)

lemma sample_recompute:
  "recompute_batch_info sample_responder sample_native_request [sample_tree_block 5, sample_tree_block 6] root =
     Some (Inr sample_native_info)"
  using sample_native_build
  by (auto simp: recompute_batch_info_def sample_responder_def sample_native_request_def sample_tree_block_def
      proving_version_try_from_def generate_batch_run_def proving_version_repr_def)

lemma sample_handle: "handle_verification_request sample_responder sample_native_request = Some (Inr sample_signature)"
proof -
  have "collect_cached (kc_data (rs_block_cache sample_responder)) [vr_first_block_number sample_native_request..<
      vr_last_block_number sample_native_request + 1] = Inr [sample_tree_block 5, sample_tree_block 6]"
    by (simp add: sample_responder_def sample_native_request_def upt_rec)
  moreover have "sign_batch sample_signatures sample_native_abi (sample_stored_info 2) (pb_commit_info sample_native_info) []
      1 [] (ProtocolSemanticVersion 0 32 0) (\<lambda>_. Some sample_signature) = Some sample_signature"
    by (simp add: sign_batch_def eip712_multisig_digest_def encode_commit_batch_data_def commit_to_sol_v31_def
        sample_native_info_def)
  ultimately show ?thesis
    by (simp add: handle_verification_request_def sample_recompute normalized_commit_data_def)
qed

theorem verifier_signs_only_recomputed_witness:
  "\<exists>blocks. map (kc_data (rs_block_cache sample_responder)) [5..<6 + 1] = map Some blocks \<and> blocks \<noteq> []"
proof -
  have "vr_first_block_number sample_native_request = 5" "vr_last_block_number sample_native_request = 6"
    by (simp_all add: sample_native_request_def)
  with verifier_signs_only_recomputed [OF sample_handle] show ?thesis by metis
qed

theorem block_cache_keeps_uncommitted_witness:
  "\<exists>c'. block_cache_insert 5 7 (sample_tree_block 7) (rs_block_cache sample_responder) = Inr c' \<and> cache_ok c' \<and>
     kc_data c' 5 = None \<and> kc_data c' 6 = Some (sample_tree_block 6) \<and> kc_data c' 7 = Some (sample_tree_block 7)"
proof -
  obtain c' where i: "block_cache_insert 5 7 (sample_tree_block 7) (rs_block_cache sample_responder) = Inr c'"
    by (simp add: block_cache_insert_def sample_responder_def)
  have "cache_ok (rs_block_cache sample_responder)" by (auto simp: cache_ok_def sample_responder_def)
  from block_cache_keeps_uncommitted [OF this i] i show ?thesis by (simp add: sample_responder_def)
qed

lemma sample_native_metadata_simps [simp]:
  "bm_batch_info sample_native_metadata = sample_native_info"
  "bm_previous_stored_batch_info sample_native_metadata = sample_stored_info 2"
  "bm_first_block_number sample_native_metadata = 5" "bm_last_block_number sample_native_metadata = 6"
  "pb_protocol_version sample_native_info = ProtocolSemanticVersion 0 32 0"
  "ci_first_block_number (pb_commit_info sample_native_info) = Some 5"
  "ci_last_block_number (pb_commit_info sample_native_info) = Some 6"
  "commit_fits (pb_commit_info sample_native_info)" "si_number_of_layer1_txs (sample_stored_info 2) = 0"
  "bm_batch_number sample_native_metadata = 3" "bm_pubdata_mode sample_native_metadata = Validium"
  "(sample_stored_info 2) \<lparr> si_last_block_timestamp := Some 0 \<rparr> = sample_stored_info 2"
  by (simp_all add: bm_batch_number_def sample_native_metadata_def sample_metadata_def sample_native_info_def commit_fits_def sample_stored_info_def)

lemma sample_native_message:
  obtains req res where "encode_verify_batch_request sample_native_abi sample_native_metadata 9 = Some (Inr req)"
    "handle_verification_message sample_responder req = Some (Inr res)" "vs_result res = Approved sample_signature"
proof -
  obtain req where req: "encode_verify_batch_request sample_native_abi sample_native_metadata 9 = Some (Inr req)"
    by (auto simp: encode_verify_batch_request_def encode_commit_data_def commit_to_sol_v31_def Let_def)
  from verify_request_decodes [OF req refl refl] obtain vr where
    vr: "verification_request_try_from sample_native_abi req = Some (Inr vr)" "vr_execution_protocol_version vr = 32"
      "vr_commit_data vr = pb_commit_info sample_native_info" "vr_prev_commit_data vr = sample_stored_info 2"
      "vr_first_block_number vr = 5" "vr_last_block_number vr = 6" "vr_request_id vr = 9" "vr_batch_number vr = 3"
      "vr_pubdata_mode vr = Validium"
    by (auto simp: sample_abi_ok normalized_commit_data_def)
  then have "vr = sample_native_request" by (simp add: sample_native_request_def)
  with vr(1) sample_handle have "\<exists>res. handle_verification_message sample_responder req = Some (Inr res) \<and>
      vs_result res = Approved sample_signature"
    by (simp add: handle_verification_message_def sample_signatures_def)
  with that req show ?thesis by blast
qed

theorem honest_approval_is_counted_witness:
  "\<exists>req res s. encode_verify_batch_request sample_native_abi sample_native_metadata 9 = Some (Inr req) \<and>
     handle_verification_message sample_responder req = Some (Inr res) \<and>
     process_response sample_signatures sample_native_abi sample_runner sample_native_metadata res =
       Some (Some \<lparr> vs_signature = s, vs_signer = sample_signer \<rparr>)"
proof -
  obtain req res where m: "encode_verify_batch_request sample_native_abi sample_native_metadata 9 = Some (Inr req)"
    "handle_verification_message sample_responder req = Some (Inr res)" "vs_result res = Approved sample_signature"
    by (rule sample_native_message)
  have "vs_request_id res = 9 \<and> (\<exists>s. process_response (rs_signatures sample_responder) (rs_abi sample_responder)
      sample_runner sample_native_metadata res = Some (Some \<lparr> vs_signature = s, vs_signer = sample_signer \<rparr>))"
    by (rule honest_approval_is_counted [OF _ refl refl _ _ _ _ _ m(2,3), where b = "sample_tree_block 5"])
      (use m(1) in \<open>simp_all add: sample_abi_ok, simp_all add: sample_responder_def sample_runner_def sample_signatures_def sample_signature_def\<close>)
  with m show ?thesis by auto
qed

theorem empty_range_request_panics_witness:
  "handle_verification_request sample_responder (sample_native_request \<lparr> vr_first_block_number := 7 \<rparr>) = None"
  by (rule empty_range_request_panics [where state_view = Map.empty])
    (simp_all add: sample_native_request_def sample_responder_def)

end
