(* ===== verification/Batcher.thy ===== *)
theory Batcher
  imports NativeBatch
begin

text \<open>
  The batcher (\<open>node/bin/src/batcher\<close>): the limits that close a batch (\<open>seal_criteria.rs\<close>), its deadline
  (\<open>batch_deadline_policy.rs\<close>) and how the stream of blocks is cut into batches (\<open>mod.rs\<close>): blocks of
  executed batches are skipped, batches committed on L1 are recreated, then new ones are created.

  The limits that come from the proving system are a parameter.  Building the commit data of the
  collected blocks (\<open>batch_builder.rs\<close>) is the parameter \<open>seal\<close> of the batches.
\<close>

subsection \<open>Seal criteria\<close>

record prover_block =
  pk_output :: block_output
  pk_record :: replay_record
  pk_tree_output :: tree_batch_output

record system_limits =
  MAX_NATIVE_COMPUTATIONAL :: u64
  MAX_NUMBER_OF_LOGS :: u64

record batch_info_accumulator =
  ac_native_cycles :: u64
  ac_pubdata_bytes :: u64
  ac_l2_to_l1_logs_count :: u64
  ac_block_count :: u64
  ac_tx_count :: u64
  ac_has_upgrade_tx :: bool
  ac_interop_roots_count :: u64
  ac_should_seal_for_gateway_migration :: bool
  ac_protocol_versions :: "protocol_semantic_version set"
  ac_execution_versions :: "nat set"
  ac_tx_per_batch_limit :: u64
  ac_batch_pubdata_limit_bytes :: u64
  ac_interop_roots_per_batch_limit :: u64

definition accumulator_new :: "u64 \<Rightarrow> u64 \<Rightarrow> u64 \<Rightarrow> batch_info_accumulator" where
  "accumulator_new tx_per_batch_limit batch_pubdata_limit_bytes interop_roots_per_batch_limit =
     \<lparr> ac_native_cycles = 0, ac_pubdata_bytes = 0, ac_l2_to_l1_logs_count = 0, ac_block_count = 0, ac_tx_count = 0,
       ac_has_upgrade_tx = False, ac_interop_roots_count = 0, ac_should_seal_for_gateway_migration = False,
       ac_protocol_versions = {}, ac_execution_versions = {}, ac_tx_per_batch_limit = tx_per_batch_limit,
       ac_batch_pubdata_limit_bytes = batch_pubdata_limit_bytes,
       ac_interop_roots_per_batch_limit = interop_roots_per_batch_limit \<rparr>"

definition block_logs_count :: "block_output \<Rightarrow> nat" where
  "block_logs_count out = sum_list (map (\<lambda>r. case r of Inr logs \<Rightarrow> length logs | Inl _ \<Rightarrow> 0) (bo_tx_results out))"

definition interop_roots_of :: "zk_envelope \<Rightarrow> u64" where
  "interop_roots_of tx = (case as_system_tx_type tx of Some (ImportInteropRoots roots_count) \<Rightarrow> roots_count | _ \<Rightarrow> 0)"

definition is_set_sl_chain_id :: "zk_envelope \<Rightarrow> bool" where
  "is_set_sl_chain_id tx = (case as_system_tx_type tx of Some (SetSLChainId _ _) \<Rightarrow> True | _ \<Rightarrow> False)"

definition upgrade_block_ok :: "replay_record \<Rightarrow> bool" where
  "upgrade_block_ok r =
     (let txs = rr_transactions r in
      length txs = 1 \<or>
      length txs = 2 \<and> is_post_v31 (rr_protocol_version r) \<and>
        (case as_system_tx_type (txs ! 1) of Some (SetSLChainId _ n) \<Rightarrow> n = 2 ^ 64 - 1 | _ \<Rightarrow> False))"

text \<open>An upgrade transaction in a block with other transactions panics.\<close>

definition accumulator_add :: "block_output \<Rightarrow> replay_record \<Rightarrow> batch_info_accumulator \<Rightarrow> batch_info_accumulator option" where
  "accumulator_add block_output r a =
     (let txs = rr_transactions r;
          a = a \<lparr> ac_native_cycles := ac_native_cycles a + bo_computational_native_used block_output,
                  ac_pubdata_bytes := ac_pubdata_bytes a + pubdata_used (bo_pubdata block_output),
                  ac_l2_to_l1_logs_count := ac_l2_to_l1_logs_count a + block_logs_count block_output,
                  ac_block_count := ac_block_count a + 1,
                  ac_tx_count := ac_tx_count a + length txs,
                  ac_execution_versions := insert (bc_execution_version (rr_block_context r)) (ac_execution_versions a),
                  ac_protocol_versions := insert (rr_protocol_version r) (ac_protocol_versions a),
                  ac_interop_roots_count := ac_interop_roots_count a + sum_list (map interop_roots_of txs) \<rparr>;
          a = (if list_ex is_set_sl_chain_id txs \<and> ac_block_count a > 1
               then a \<lparr> ac_should_seal_for_gateway_migration := True \<rparr> else a)
      in if \<not> ac_has_upgrade_tx a \<and> list_ex (\<lambda>tx. tx_type tx = TyUpgrade) txs
         then do { assert_that (upgrade_block_ok r); Some (a \<lparr> ac_has_upgrade_tx := True \<rparr>) }
         else Some a)"

definition should_seal :: "system_limits \<Rightarrow> batch_info_accumulator \<Rightarrow> bool" where
  "should_seal sl a =
     (if ac_has_upgrade_tx a \<and> ac_block_count a > 1 then True
      else if card (ac_protocol_versions a) > 1 then True
      else if ac_tx_count a > ac_tx_per_batch_limit a then True
      else if ac_native_cycles a > MAX_NATIVE_COMPUTATIONAL sl then True
      else if ac_pubdata_bytes a > ac_batch_pubdata_limit_bytes a then True
      else if ac_l2_to_l1_logs_count a > MAX_NUMBER_OF_LOGS sl then True
      else if ac_interop_roots_count a > ac_interop_roots_per_batch_limit a then True
      else if ac_should_seal_for_gateway_migration a then True
      else if card (ac_execution_versions a) > 1 then True
      else False)"

subsection \<open>The deadline of a batch\<close>

text \<open>The first component is how long to sleep.\<close>

definition deadline_from_block_timestamp :: "u64 \<Rightarrow> u64 \<Rightarrow> u64 \<Rightarrow> u64 \<times> u64" where
  "deadline_from_block_timestamp now_unix block_timestamp batch_timeout =
     (let deadline_unix = min (block_timestamp + batch_timeout) (2 ^ 64 - 1) in
      if deadline_unix \<le> now_unix then (0, now_unix) else (deadline_unix - now_unix, deadline_unix))"

subsection \<open>Collecting the blocks of a batch\<close>

text \<open>What the \<open>select!\<close> of the loop can see next: a block at the head of the channel, at a point in time,
  the end of the deadline, or the closed channel.  A block that does not fit stays in the channel.\<close>

datatype batcher_event = BlockReady u64 prover_block | DeadlineReached | InputClosed

record batcher_config =
  bt_tx_per_batch_limit :: u64
  bt_pubdata_limit_bytes :: u64
  bt_interop_roots_per_batch_limit :: u64
  bt_batch_timeout :: u64
  bt_last_persisted_block :: u64

datatype collected = Sealed "prover_block list" | CollectClosed | CollectWaiting

definition arm_deadline :: "batcher_config \<Rightarrow> u64 \<Rightarrow> u64 \<Rightarrow> u64 \<Rightarrow> u64 option \<Rightarrow> u64 option" where
  "arm_deadline cfg now block_number first_block_timestamp deadline =
     (if deadline = None \<and> block_number \<ge> bt_last_persisted_block cfg
      then Some (snd (deadline_from_block_timestamp now first_block_timestamp (bt_batch_timeout cfg))) else deadline)"

fun collect_batch ::
    "system_limits \<Rightarrow> batcher_config \<Rightarrow> batch_info_accumulator \<Rightarrow> prover_block list \<Rightarrow> u64 option \<Rightarrow> u64 option \<Rightarrow>
     batcher_event list \<Rightarrow> (collected \<times> batcher_event list) option" where
  "collect_batch sl cfg acc blocks first_ts deadline [] = Some (CollectWaiting, [])"
| "collect_batch sl cfg acc blocks first_ts deadline (DeadlineReached # evs) =
     (if deadline = None then collect_batch sl cfg acc blocks first_ts deadline evs
      else Some (Sealed blocks, evs))"
| "collect_batch sl cfg acc blocks first_ts deadline (InputClosed # evs) = Some (CollectClosed, evs)"
| "collect_batch sl cfg acc blocks first_ts deadline (BlockReady now block # evs) =
     (case accumulator_add (pk_output block) (pk_record block) acc of
        None \<Rightarrow> None
      | Some acc' \<Rightarrow>
          if should_seal sl acc' \<and> blocks \<noteq> [] then Some (Sealed blocks, BlockReady now block # evs)
          else
            (let ctx = rr_block_context (pk_record block);
                 ts = (case first_ts of Some t \<Rightarrow> t | None \<Rightarrow> bc_timestamp ctx);
                 deadline' = arm_deadline cfg now (bc_block_number ctx) ts deadline
             in if should_seal sl acc' then Some (Sealed (blocks @ [block]), evs)
                else collect_batch sl cfg acc' (blocks @ [block]) (Some ts) deadline' evs))"

definition create_batch_blocks ::
    "system_limits \<Rightarrow> batcher_config \<Rightarrow> batcher_event list \<Rightarrow> (collected \<times> batcher_event list) option" where
  "create_batch_blocks sl cfg evs =
     collect_batch sl cfg (accumulator_new (bt_tx_per_batch_limit cfg) (bt_pubdata_limit_bytes cfg)
       (bt_interop_roots_per_batch_limit cfg)) [] None None evs"

text \<open>\<open>create_batch\<close>: the blocks are sealed with the pubdata mode adapted to their protocol version.\<close>

datatype 'b created = Created 'b | CreateFailed string | CreateClosed | CreateWaiting

definition create_batch ::
    "(prover_block list \<Rightarrow> stored_batch_info \<Rightarrow> u64 \<Rightarrow> pubdata_mode \<Rightarrow> string + 'b) \<Rightarrow> system_limits \<Rightarrow> batcher_config \<Rightarrow>
     pubdata_mode \<Rightarrow> stored_batch_info \<Rightarrow> batcher_event list \<Rightarrow> ('b created \<times> batcher_event list) option" where
  "create_batch seal_batch sl cfg mode prev_batch_info evs = do {
     (res, evs') \<leftarrow> create_batch_blocks sl cfg evs;
     (case res of
        Sealed blocks \<Rightarrow> do {
          assert_that (blocks \<noteq> []);
          Some (case seal_batch blocks prev_batch_info (si_batch_number prev_batch_info + 1)
                       (adapt_for_protocol_version mode (rr_protocol_version (pk_record (hd blocks)))) of
                  Inl err \<Rightarrow> CreateFailed err | Inr b \<Rightarrow> Created b, evs') }
      | CollectClosed \<Rightarrow> Some (CreateClosed, evs')
      | CollectWaiting \<Rightarrow> Some (CreateWaiting, evs')) }"

subsection \<open>Recreating committed batches\<close>

record discovered_committed_batch =
  dc_batch_info :: stored_batch_info
  dc_first_block_number :: u64
  dc_last_block_number :: u64

definition dc_block_count :: "discovered_committed_batch \<Rightarrow> u64 option" where
  "dc_block_count d = do {
     assert_that (dc_first_block_number d \<le> dc_last_block_number d);
     Some (dc_last_block_number d - dc_first_block_number d + 1) }"

text \<open>\<open>encode_params\<close> is the ABI encoding of the structure as parameters.\<close>

definition stored_batch_hash :: "externals \<Rightarrow> (sol_stored_batch_info \<Rightarrow> byte list) \<Rightarrow> stored_batch_info \<Rightarrow> b256" where
  "stored_batch_hash ex encode_params v = ex_keccak256 ex (encode_params (stored_to_sol v))"

text \<open>No deadline is armed here, so none ends.\<close>

fun receive_blocks :: "nat \<Rightarrow> batcher_event list \<Rightarrow> collected \<times> batcher_event list" where
  "receive_blocks 0 evs = (Sealed [], evs)"
| "receive_blocks (Suc n) [] = (CollectWaiting, [])"
| "receive_blocks (Suc n) (DeadlineReached # evs) = receive_blocks (Suc n) evs"
| "receive_blocks (Suc n) (InputClosed # evs) = (CollectClosed, evs)"
| "receive_blocks (Suc n) (BlockReady _ b # evs) =
     (case receive_blocks n evs of
        (Sealed bs, evs') \<Rightarrow> (Sealed (b # bs), evs')
      | (res, evs') \<Rightarrow> (res, evs'))"

definition recreate_existing_batch ::
    "(prover_block list \<Rightarrow> stored_batch_info \<Rightarrow> u64 \<Rightarrow> pubdata_mode \<Rightarrow> string + batch_metadata) \<Rightarrow> externals \<Rightarrow>
     (sol_stored_batch_info \<Rightarrow> byte list) \<Rightarrow> bool \<Rightarrow> pubdata_mode \<Rightarrow> stored_batch_info \<Rightarrow> discovered_committed_batch \<Rightarrow>
     batcher_event list \<Rightarrow> (batch_metadata created \<times> batcher_event list) option" where
  "recreate_existing_batch seal_batch ex encode_params assert_rebuilt_batch_hashes mode prev_batch_info existing_batch evs = do {
     expected_block_count \<leftarrow> dc_block_count existing_batch;
     (case receive_blocks expected_block_count evs of
        (CollectClosed, evs') \<Rightarrow> Some (CreateClosed, evs')
      | (CollectWaiting, evs') \<Rightarrow> Some (CreateWaiting, evs')
      | (Sealed blocks, evs') \<Rightarrow> do {
          assert_that (blocks \<noteq> []);
          assert_that (bh_number (bo_header (pk_output (last blocks))) = dc_last_block_number existing_batch);
          (case seal_batch blocks prev_batch_info (si_batch_number (dc_batch_info existing_batch)) mode of
             Inl err \<Rightarrow> Some (CreateFailed err, evs')
           | Inr rebuilt_batch \<Rightarrow>
               if assert_rebuilt_batch_hashes
               then do {
                 rebuilt_stored_batch_info \<leftarrow> into_stored ex (bm_batch_info rebuilt_batch);
                 Some (if stored_batch_hash ex encode_params rebuilt_stored_batch_info =
                          stored_batch_hash ex encode_params (dc_batch_info existing_batch)
                       then Created rebuilt_batch
                       else CreateFailed ''Rebuilt batch info does not match stored batch info for batch'', evs') }
               else Some (Created rebuilt_batch, evs')) }) }"

subsection \<open>The loop of the batcher\<close>

text \<open>What a batcher is started with.  \<open>br_committed_batches\<close> are the batches the watcher of L1 has found;
  \<open>wait_for_batch\<close> waits for one that is missing.\<close>

record batcher =
  br_last_committed_batch :: u64
  br_last_executed_batch :: u64
  br_config :: batcher_config
  br_assert_rebuilt_batch_hashes :: bool
  br_pubdata_mode :: pubdata_mode
  br_committed_batches :: "u64 \<Rightarrow> discovered_committed_batch option"

abbreviation block_number_of :: "prover_block \<Rightarrow> u64" where
  "block_number_of b \<equiv> bc_block_number (rr_block_context (pk_record b))"

datatype peeked = PeekBlock u64 | PeekClosed | PeekWaiting

fun peek_recv :: "batcher_event list \<Rightarrow> peeked" where
  "peek_recv [] = PeekWaiting"
| "peek_recv (DeadlineReached # evs) = peek_recv evs"
| "peek_recv (InputClosed # evs) = PeekClosed"
| "peek_recv (BlockReady _ b # evs) = PeekBlock (block_number_of b)"

text \<open>Blocks of batches that are executed on L1 are skipped.\<close>

fun skip_executed :: "u64 \<Rightarrow> batcher_event list \<Rightarrow> batcher_event list" where
  "skip_executed first_expected_block [] = []"
| "skip_executed first_expected_block (DeadlineReached # evs) = skip_executed first_expected_block evs"
| "skip_executed first_expected_block (InputClosed # evs) = InputClosed # evs"
| "skip_executed first_expected_block (BlockReady now b # evs) =
     (if block_number_of b \<ge> first_expected_block then BlockReady now b # evs else skip_executed first_expected_block evs)"

type_synonym seal_batch = "prover_block list \<Rightarrow> stored_batch_info \<Rightarrow> u64 \<Rightarrow> pubdata_mode \<Rightarrow> string + batch_metadata"

text \<open>One iteration: a batch that L1 knows is recreated, every other one is created.\<close>

definition next_batch ::
    "seal_batch \<Rightarrow> externals \<Rightarrow> (sol_stored_batch_info \<Rightarrow> byte list) \<Rightarrow> system_limits \<Rightarrow> batcher \<Rightarrow> stored_batch_info \<Rightarrow>
     batcher_event list \<Rightarrow> (batch_metadata created \<times> batcher_event list) option" where
  "next_batch seal_batch ex encode_params sl br prev_batch_info evs =
     (case peek_recv evs of
        PeekClosed \<Rightarrow> Some (CreateClosed, evs)
      | PeekWaiting \<Rightarrow> Some (CreateWaiting, evs)
      | PeekBlock next_block_number \<Rightarrow>
          if si_batch_number prev_batch_info < br_last_committed_batch br then
            (case br_committed_batches br (si_batch_number prev_batch_info + 1) of
               None \<Rightarrow> Some (CreateWaiting, evs)
             | Some committed_batch \<Rightarrow>
                 if dc_first_block_number committed_batch \<noteq> next_block_number
                 then Some (CreateFailed ''Existing batch first block'', evs)
                 else recreate_existing_batch seal_batch ex encode_params (br_assert_rebuilt_batch_hashes br)
                        (br_pubdata_mode br) prev_batch_info committed_batch evs)
          else create_batch seal_batch sl (br_config br) (br_pubdata_mode br) prev_batch_info evs)"

text \<open>At most \<open>n\<close> iterations: the batches, why the loop stopped if it did, and the events from the first
  unfinished batch on.\<close>

fun batcher_loop ::
    "seal_batch \<Rightarrow> externals \<Rightarrow> (sol_stored_batch_info \<Rightarrow> byte list) \<Rightarrow> system_limits \<Rightarrow> batcher \<Rightarrow> nat \<Rightarrow> stored_batch_info \<Rightarrow>
     batcher_event list \<Rightarrow> (batch_metadata list \<times> batch_metadata created option \<times> batcher_event list) option" where
  "batcher_loop seal_batch ex encode_params sl br 0 prev_batch_info evs = Some ([], None, evs)"
| "batcher_loop seal_batch ex encode_params sl br (Suc n) prev_batch_info evs = do {
     (res, evs') \<leftarrow> next_batch seal_batch ex encode_params sl br prev_batch_info evs;
     (case res of
        Created batch \<Rightarrow> do {
          stored \<leftarrow> into_stored ex (bm_batch_info batch);
          (batches, stop, evs'') \<leftarrow> batcher_loop seal_batch ex encode_params sl br n stored evs';
          Some (batch # batches, stop, evs'') }
      | _ \<Rightarrow> Some ([], Some res, evs)) }"

definition batcher_run ::
    "seal_batch \<Rightarrow> externals \<Rightarrow> (sol_stored_batch_info \<Rightarrow> byte list) \<Rightarrow> system_limits \<Rightarrow> batcher \<Rightarrow> nat \<Rightarrow> batcher_event list \<Rightarrow>
     (batch_metadata list \<times> batch_metadata created option \<times> batcher_event list) option" where
  "batcher_run seal_batch ex encode_params sl br n evs =
     (case br_committed_batches br (br_last_executed_batch br) of
        None \<Rightarrow> Some ([], Some CreateWaiting, evs)
      | Some last_executed_batch \<Rightarrow>
          batcher_loop seal_batch ex encode_params sl br n (dc_batch_info last_executed_batch)
            (skip_executed (dc_last_block_number last_executed_batch + 1) evs))"

subsection \<open>The accumulator as sums over the blocks\<close>

abbreviation block_txs :: "prover_block \<Rightarrow> zk_envelope list" where
  "block_txs b \<equiv> rr_transactions (pk_record b)"

definition has_upgrade :: "prover_block \<Rightarrow> bool" where
  "has_upgrade b = list_ex (\<lambda>tx. tx_type tx = TyUpgrade) (block_txs b)"

definition has_set_sl_chain_id :: "prover_block \<Rightarrow> bool" where
  "has_set_sl_chain_id b = list_ex is_set_sl_chain_id (block_txs b)"

definition totals :: "u64 \<Rightarrow> u64 \<Rightarrow> u64 \<Rightarrow> prover_block list \<Rightarrow> batch_info_accumulator" where
  "totals tx_limit pubdata_limit roots_limit bs =
     \<lparr> ac_native_cycles = sum_list (map (\<lambda>b. bo_computational_native_used (pk_output b)) bs),
       ac_pubdata_bytes = sum_list (map (\<lambda>b. pubdata_used (bo_pubdata (pk_output b))) bs),
       ac_l2_to_l1_logs_count = sum_list (map (\<lambda>b. block_logs_count (pk_output b)) bs),
       ac_block_count = length bs, ac_tx_count = length (concat (map block_txs bs)),
       ac_has_upgrade_tx = list_ex has_upgrade bs,
       ac_interop_roots_count = sum_list (map interop_roots_of (concat (map block_txs bs))),
       ac_should_seal_for_gateway_migration = list_ex has_set_sl_chain_id (tl bs),
       ac_protocol_versions = set (map (\<lambda>b. rr_protocol_version (pk_record b)) bs),
       ac_execution_versions = set (map (\<lambda>b. bc_execution_version (rr_block_context (pk_record b))) bs),
       ac_tx_per_batch_limit = tx_limit, ac_batch_pubdata_limit_bytes = pubdata_limit,
       ac_interop_roots_per_batch_limit = roots_limit \<rparr>"

lemma totals_Nil: "totals t p i [] = accumulator_new t p i"
  by (simp add: totals_def accumulator_new_def)

lemma totals_snoc:
  assumes "accumulator_add (pk_output b) (pk_record b) (totals t p i bs) = Some a"
  shows "a = totals t p i (bs @ [b])"
proof -
  have "list_ex has_set_sl_chain_id (tl (bs @ [b])) \<longleftrightarrow>
      list_ex has_set_sl_chain_id (tl bs) \<or> has_set_sl_chain_id b \<and> bs \<noteq> []"
    by (cases bs) auto
  with assms show ?thesis
    by (auto simp: accumulator_add_def totals_def Let_def assert_that_def has_upgrade_def has_set_sl_chain_id_def
        split: if_splits)
qed

fun accumulate :: "prover_block list \<Rightarrow> batch_info_accumulator \<Rightarrow> batch_info_accumulator option" where
  "accumulate [] a = Some a"
| "accumulate (b # bs) a = do { a' \<leftarrow> accumulator_add (pk_output b) (pk_record b) a; accumulate bs a' }"

lemma accumulate_totals:
  "accumulate bs (totals t p i cs) = Some a \<Longrightarrow> a = totals t p i (cs @ bs)"
proof (induction bs arbitrary: cs)
  case (Cons b bs)
  then obtain a' where a': "accumulator_add (pk_output b) (pk_record b) (totals t p i cs) = Some a'" "accumulate bs a' = Some a"
    by (auto split: bind_splits)
  from Cons.IH [of "cs @ [b]"] a'(2) show ?case unfolding totals_snoc [OF a'(1)] by simp
qed simp

subsection \<open>Cutting the stream\<close>

fun event_blocks :: "batcher_event list \<Rightarrow> prover_block list" where
  "event_blocks [] = []"
| "event_blocks (BlockReady _ b # evs) = b # event_blocks evs"
| "event_blocks (_ # evs) = event_blocks evs"

text \<open>What holds of a batch while it is collected: the deadline is armed only once there is a block, and more
  than one block is collected only within the limits.\<close>

definition within :: "system_limits \<Rightarrow> batcher_config \<Rightarrow> prover_block list \<Rightarrow> bool" where
  "within sl cfg bs = (\<not> should_seal sl (totals (bt_tx_per_batch_limit cfg) (bt_pubdata_limit_bytes cfg)
     (bt_interop_roots_per_batch_limit cfg) bs))"

abbreviation cfg_totals :: "batcher_config \<Rightarrow> prover_block list \<Rightarrow> batch_info_accumulator" where
  "cfg_totals cfg \<equiv> totals (bt_tx_per_batch_limit cfg) (bt_pubdata_limit_bytes cfg) (bt_interop_roots_per_batch_limit cfg)"

lemma collect_batch_sound:
  assumes "collect_batch sl cfg acc blocks ts deadline evs = Some (Sealed bs, evs')"
    and "acc = cfg_totals cfg blocks" "blocks = [] \<longrightarrow> deadline = None" "blocks \<noteq> [] \<longrightarrow> within sl cfg blocks"
  shows "bs \<noteq> [] \<and> (\<exists>cs. bs = blocks @ cs \<and> event_blocks evs = cs @ event_blocks evs') \<and> (length bs > 1 \<longrightarrow> within sl cfg bs)"
  using assms
proof (induction evs arbitrary: acc blocks ts deadline)
  case (Cons ev evs)
  show ?case
  proof (cases ev)
    case (BlockReady now b)
    with Cons.prems(1) obtain acc' where acc': "accumulator_add (pk_output b) (pk_record b) acc = Some acc'"
      by (auto split: option.splits)
    then have tot: "acc' = cfg_totals cfg (blocks @ [b])" using totals_snoc Cons.prems(2) by simp
    show ?thesis
    proof (cases "should_seal sl acc'")
      case True
      with Cons.prems BlockReady acc' show ?thesis by (cases "blocks = []") auto
    next
      case False
      then obtain ts' deadline' where
        "collect_batch sl cfg acc' (blocks @ [b]) ts' deadline' evs = Some (Sealed bs, evs')"
        using Cons.prems(1) BlockReady acc' by (auto simp: Let_def)
      from Cons.IH [OF this tot] False show ?thesis
        by (auto simp: within_def BlockReady tot)
    qed
  qed (use Cons in \<open>auto split: if_splits\<close>)
qed simp

lemma create_batch_blocks_sound:
  assumes "create_batch_blocks sl cfg evs = Some (Sealed bs, evs')"
  shows "bs \<noteq> []" "event_blocks evs = bs @ event_blocks evs'" "length bs > 1 \<Longrightarrow> within sl cfg bs"
  using collect_batch_sound [OF assms [unfolded create_batch_blocks_def]] by (simp_all add: totals_Nil)

lemma receive_blocks_sound:
  "receive_blocks n evs = (Sealed bs, evs') \<Longrightarrow> length bs = n \<and> event_blocks evs = bs @ event_blocks evs'"
  by (induction n evs arbitrary: bs rule: receive_blocks.induct) (auto split: prod.splits collected.splits)


lemma sealed_within_limits:
  assumes "create_batch_blocks sl cfg evs = Some (Sealed bs, evs')" "length bs > 1"
  shows "length (concat (map block_txs bs)) \<le> bt_tx_per_batch_limit cfg"
    and "sum_list (map (\<lambda>b. bo_computational_native_used (pk_output b)) bs) \<le> MAX_NATIVE_COMPUTATIONAL sl"
    and "sum_list (map (\<lambda>b. pubdata_used (bo_pubdata (pk_output b))) bs) \<le> bt_pubdata_limit_bytes cfg"
    and "sum_list (map (\<lambda>b. block_logs_count (pk_output b)) bs) \<le> MAX_NUMBER_OF_LOGS sl"
    and "sum_list (map interop_roots_of (concat (map block_txs bs))) \<le> bt_interop_roots_per_batch_limit cfg"
    and "card (set (map (\<lambda>b. rr_protocol_version (pk_record b)) bs)) = 1"
    and "card (set (map (\<lambda>b. bc_execution_version (rr_block_context (pk_record b))) bs)) = 1"
    and "\<not> list_ex has_upgrade bs" and "\<not> list_ex has_set_sl_chain_id (tl bs)"
proof -
  have w: "\<not> should_seal sl (cfg_totals cfg bs)" and ne: "bs \<noteq> []"
    using create_batch_blocks_sound [OF assms(1)] assms(2) by (simp_all add: within_def)
  have one: "0 < card (set (map f bs))" for f :: "prover_block \<Rightarrow> 'a" using ne by (simp add: card_gt_0_iff)
  show "length (concat (map block_txs bs)) \<le> bt_tx_per_batch_limit cfg"
    "sum_list (map (\<lambda>b. bo_computational_native_used (pk_output b)) bs) \<le> MAX_NATIVE_COMPUTATIONAL sl"
    "sum_list (map (\<lambda>b. pubdata_used (bo_pubdata (pk_output b))) bs) \<le> bt_pubdata_limit_bytes cfg"
    "sum_list (map (\<lambda>b. block_logs_count (pk_output b)) bs) \<le> MAX_NUMBER_OF_LOGS sl"
    "sum_list (map interop_roots_of (concat (map block_txs bs))) \<le> bt_interop_roots_per_batch_limit cfg"
    "\<not> list_ex has_upgrade bs" "\<not> list_ex has_set_sl_chain_id (tl bs)"
    using w assms(2) by (simp_all add: should_seal_def totals_def split: if_splits)
  have "card (set (map (\<lambda>b. rr_protocol_version (pk_record b)) bs)) \<le> 1"
    "card (set (map (\<lambda>b. bc_execution_version (rr_block_context (pk_record b))) bs)) \<le> 1"
    using w by (simp_all add: should_seal_def totals_def split: if_splits)
  with one show "card (set (map (\<lambda>b. rr_protocol_version (pk_record b)) bs)) = 1"
    "card (set (map (\<lambda>b. bc_execution_version (rr_block_context (pk_record b))) bs)) = 1"
    by (metis le_antisym Suc_leI One_nat_def)+
qed

lemma recreate_existing_batch_Created:
  assumes "recreate_existing_batch seal_batch ex encode_params check mode prev existing evs = Some (Created b, evs')"
  shows "\<exists>blocks. event_blocks evs = blocks @ event_blocks evs' \<and> blocks \<noteq> [] \<and>
    dc_first_block_number existing \<le> dc_last_block_number existing \<and>
    length blocks = dc_last_block_number existing - dc_first_block_number existing + 1 \<and>
    bh_number (bo_header (pk_output (last blocks))) = dc_last_block_number existing \<and>
    seal_batch blocks prev (si_batch_number (dc_batch_info existing)) mode = Inr b \<and>
    (check \<longrightarrow> (\<exists>stored. into_stored ex (bm_batch_info b) = Some stored \<and>
      stored_batch_hash ex encode_params stored = stored_batch_hash ex encode_params (dc_batch_info existing)))"
proof -
  from assms obtain n where n: "dc_block_count existing = Some n" "n = dc_last_block_number existing - dc_first_block_number existing + 1"
      "dc_first_block_number existing \<le> dc_last_block_number existing"
    by (auto simp: recreate_existing_batch_def dc_block_count_def assert_that_def split: bind_splits if_splits)
  obtain res evs1 where r: "receive_blocks n evs = (res, evs1)" by fastforce
  with assms n obtain blocks where res: "res = Sealed blocks"
    by (cases res) (auto simp: recreate_existing_batch_def)
  from assms n(1) r res have
    "bh_number (bo_header (pk_output (last blocks))) = dc_last_block_number existing" "evs1 = evs'" "blocks \<noteq> []"
    "seal_batch blocks prev (si_batch_number (dc_batch_info existing)) mode = Inr b"
    "check \<longrightarrow> (\<exists>stored. into_stored ex (bm_batch_info b) = Some stored \<and>
      stored_batch_hash ex encode_params stored = stored_batch_hash ex encode_params (dc_batch_info existing))"
    by (auto simp: recreate_existing_batch_def assert_that_def split: if_splits sum.splits bind_splits)
  with receive_blocks_sound [OF r [unfolded res]] n(2,3) show ?thesis by blast
qed

lemma create_batch_Created:
  assumes "create_batch seal_batch sl cfg mode prev evs = Some (Created b, evs')"
  shows "\<exists>blocks mode'. event_blocks evs = blocks @ event_blocks evs' \<and> blocks \<noteq> [] \<and>
    seal_batch blocks prev (si_batch_number prev + 1) mode' = Inr b"
proof -
  obtain res evs1 where c: "create_batch_blocks sl cfg evs = Some (res, evs1)"
    using assms by (auto simp: create_batch_def split: bind_splits)
  with assms obtain blocks where res: "res = Sealed blocks" by (cases res) (auto simp: create_batch_def)
  have "evs1 = evs'" "seal_batch blocks prev (si_batch_number prev + 1)
      (adapt_for_protocol_version mode (rr_protocol_version (pk_record (hd blocks)))) = Inr b"
    using assms c res by (auto simp: create_batch_def split: bind_splits sum.splits)
  then show ?thesis using create_batch_blocks_sound(1,2) [OF c [unfolded res]] by blast
qed

lemma peek_recv_block: "peek_recv evs = PeekBlock n \<Longrightarrow> event_blocks evs \<noteq> [] \<and> block_number_of (hd (event_blocks evs)) = n"
  by (induction evs rule: peek_recv.induct) auto

lemma next_batch_blocks:
  assumes "next_batch seal_batch ex encode_params sl br prev evs = Some (Created b, evs')"
  shows "\<exists>blocks prev' number mode. event_blocks evs = blocks @ event_blocks evs' \<and> blocks \<noteq> [] \<and>
    seal_batch blocks prev' number mode = Inr b"
  using assms
  by (auto simp: next_batch_def split: peeked.splits if_splits option.splits
      dest!: create_batch_Created recreate_existing_batch_Created)

lemma skip_executed_blocks:
  "\<exists>skipped. event_blocks evs = skipped @ event_blocks (skip_executed n evs) \<and> (\<forall>b \<in> set skipped. block_number_of b < n)"
proof (induction n evs rule: skip_executed.induct)
  case (4 n now b evs)
  show ?case
  proof (cases "block_number_of b \<ge> n")
    case False
    with 4 obtain skipped where "event_blocks evs = skipped @ event_blocks (skip_executed n evs)"
      "\<forall>b \<in> set skipped. block_number_of b < n" by blast
    with False show ?thesis by (intro exI [of _ "b # skipped"]) auto
  qed (auto intro: exI [of _ "[]"])
qed auto

text \<open>The numbers of the blocks on the stream, which the earlier stages of the pipeline deliver in order.\<close>

definition in_order :: "prover_block list \<Rightarrow> bool" where
  "in_order bs \<longleftrightarrow> successively (\<lambda>a b. block_number_of b = block_number_of a + 1) bs"

lemma in_order_numbers:
  "in_order bs \<Longrightarrow> bs \<noteq> [] \<Longrightarrow> map block_number_of bs = [block_number_of (hd bs)..<block_number_of (hd bs) + length bs]"
proof (induction bs rule: induct_list012)
  case (3 a b bs)
  then have "map block_number_of (b # bs) = [block_number_of a + 1..<block_number_of a + 1 + length (b # bs)]"
    by (simp add: in_order_def del: upt_Suc)
  then show ?case by (simp add: upt_conv_Cons del: upt_Suc)
qed simp_all

lemma batcher_loop_blocks:
  assumes "batcher_loop seal_batch ex encode_params sl br n prev es = Some (batches, stop, evs')"
  shows "\<exists>bss. event_blocks es = concat bss @ event_blocks evs' \<and> [] \<notin> set bss \<and>
    list_all2 (\<lambda>bs batch. \<exists>prev number mode. seal_batch bs prev number mode = Inr batch) bss batches"
  using assms
proof (induction n arbitrary: prev es batches)
  case 0
  then show ?case by (intro exI [of _ "[]"]) simp
next
  case (Suc n)
  then obtain res es1 where r: "next_batch seal_batch ex encode_params sl br prev es = Some (res, es1)"
    by (auto split: bind_splits)
  show ?case
  proof (cases "\<exists>batch. res = Created batch")
    case True
    then obtain batch where res: "res = Created batch" by blast
    with Suc.prems r obtain stored bs1 where
      l: "batcher_loop seal_batch ex encode_params sl br n stored es1 = Some (bs1, stop, evs')" "batches = batch # bs1"
      by (auto split: bind_splits)
    from next_batch_blocks [OF r [unfolded res]] obtain blocks where
      "event_blocks es = blocks @ event_blocks es1" "blocks \<noteq> []" "\<exists>prev number mode. seal_batch blocks prev number mode = Inr batch"
      by blast
    moreover obtain bss where "event_blocks es1 = concat bss @ event_blocks evs'" "[] \<notin> set bss"
      "list_all2 (\<lambda>bs batch. \<exists>prev number mode. seal_batch bs prev number mode = Inr batch) bss bs1"
      using Suc.IH [OF l(1)] by blast
    ultimately show ?thesis unfolding l(2) by (intro exI [of _ "blocks # bss"]) simp
  next
    case False
    then have "batches = []" "evs' = es" using Suc.prems r by (auto split: created.splits)
    then show ?thesis by (intro exI [of _ "[]"]) simp
  qed
qed

subsection \<open>Properties\<close>

text \<open>C8.  A batch of more than one block keeps every limit: transactions, native cycles, pubdata, logs and
  interop roots, one protocol version and one execution version, no upgrade transaction, and a change of
  the settlement layer only in its first block.  Only a single block can exceed a limit.\<close>

theorem batch_respects_limits:
  assumes "create_batch_blocks sl cfg evs = Some (Sealed bs, evs')" "length bs > 1"
  shows "length (concat (map block_txs bs)) \<le> bt_tx_per_batch_limit cfg \<and>
    sum_list (map (\<lambda>b. bo_computational_native_used (pk_output b)) bs) \<le> MAX_NATIVE_COMPUTATIONAL sl \<and>
    sum_list (map (\<lambda>b. pubdata_used (bo_pubdata (pk_output b))) bs) \<le> bt_pubdata_limit_bytes cfg \<and>
    sum_list (map (\<lambda>b. block_logs_count (pk_output b)) bs) \<le> MAX_NUMBER_OF_LOGS sl \<and>
    sum_list (map interop_roots_of (concat (map block_txs bs))) \<le> bt_interop_roots_per_batch_limit cfg \<and>
    card (set (map (\<lambda>b. rr_protocol_version (pk_record b)) bs)) = 1 \<and>
    card (set (map (\<lambda>b. bc_execution_version (rr_block_context (pk_record b))) bs)) = 1 \<and>
    \<not> list_ex has_upgrade bs \<and> \<not> list_ex has_set_sl_chain_id (tl bs)"
  using sealed_within_limits [OF assms] by blast


text \<open>The accumulator that decides about sealing, updated block by block, is the one computed from all
  blocks of the batch at once.\<close>

theorem accumulator_is_totals:
  assumes "accumulate bs (accumulator_new t p i) = Some a"
  shows "a = totals t p i bs"
  using accumulate_totals [of bs t p i "[]"] assms by (simp add: totals_Nil)

text \<open>C40.  A batch recreated after a restart is the committed one.  As long as the last batch is older than the
  last one committed on L1, the batcher takes from the stream as many blocks as L1 recorded for the next
  batch, the first with the recorded first number and the last with the recorded last one, so exactly
  the recorded blocks when the stream is in order; with the check enabled the hash of the rebuilt batch
  is the hash of the batch on L1.\<close>

theorem recreated_batch_matches_l1:
  assumes "next_batch seal_batch ex encode_params sl br prev evs = Some (Created b, evs')"
    and "si_batch_number prev < br_last_committed_batch br"
  shows "\<exists>existing blocks. br_committed_batches br (si_batch_number prev + 1) = Some existing \<and>
    event_blocks evs = blocks @ event_blocks evs' \<and>
    length blocks = dc_last_block_number existing - dc_first_block_number existing + 1 \<and>
    block_number_of (hd blocks) = dc_first_block_number existing \<and>
    bh_number (bo_header (pk_output (last blocks))) = dc_last_block_number existing \<and>
    (in_order (event_blocks evs) \<longrightarrow>
      map block_number_of blocks = [dc_first_block_number existing..<dc_last_block_number existing + 1]) \<and>
    seal_batch blocks prev (si_batch_number (dc_batch_info existing)) (br_pubdata_mode br) = Inr b \<and>
    (br_assert_rebuilt_batch_hashes br \<longrightarrow> (\<exists>stored. into_stored ex (bm_batch_info b) = Some stored \<and>
      stored_batch_hash ex encode_params stored = stored_batch_hash ex encode_params (dc_batch_info existing)))"
proof -
  obtain existing where e: "br_committed_batches br (si_batch_number prev + 1) = Some existing"
      "peek_recv evs = PeekBlock (dc_first_block_number existing)"
    and c: "recreate_existing_batch seal_batch ex encode_params (br_assert_rebuilt_batch_hashes br) (br_pubdata_mode br) prev
      existing evs = Some (Created b, evs')"
    using assms by (auto simp: next_batch_def split: peeked.splits if_splits option.splits)
  from recreate_existing_batch_Created [OF c] obtain blocks where blocks: "event_blocks evs = blocks @ event_blocks evs'"
      "blocks \<noteq> []" "dc_first_block_number existing \<le> dc_last_block_number existing"
      "length blocks = dc_last_block_number existing - dc_first_block_number existing + 1"
      "bh_number (bo_header (pk_output (last blocks))) = dc_last_block_number existing"
      "seal_batch blocks prev (si_batch_number (dc_batch_info existing)) (br_pubdata_mode br) = Inr b"
    and check: "br_assert_rebuilt_batch_hashes br \<longrightarrow> (\<exists>stored. into_stored ex (bm_batch_info b) = Some stored \<and>
      stored_batch_hash ex encode_params stored = stored_batch_hash ex encode_params (dc_batch_info existing))" by blast
  have h: "block_number_of (hd blocks) = dc_first_block_number existing"
    using peek_recv_block [OF e(2)] blocks(1,2) by simp
  have "map block_number_of blocks = [dc_first_block_number existing..<dc_last_block_number existing + 1]"
    if "in_order (event_blocks evs)"
  proof -
    have "in_order blocks" using that blocks(1) by (simp add: in_order_def successively_append_iff)
    from in_order_numbers [OF this blocks(2)] blocks(3,4) show ?thesis by (simp add: h del: upt_Suc)
  qed
  then show ?thesis using e(1) blocks(1,4-6) h check by blast
qed

text \<open>C29.  A run of the batcher cuts the stream of blocks: only blocks of executed batches are skipped, all
  others go into batches, recreated or created, in order and without a gap or a repetition, and every
  batch is sealed from at least one block.\<close>

theorem batcher_run_partitions_stream:
  assumes "batcher_run seal_batch ex encode_params sl br n evs = Some (batches, stop, evs')"
    and "br_committed_batches br (br_last_executed_batch br) = Some executed"
  shows "\<exists>skipped bss. event_blocks evs = skipped @ concat bss @ event_blocks evs' \<and>
    (\<forall>b \<in> set skipped. block_number_of b \<le> dc_last_block_number executed) \<and> [] \<notin> set bss \<and>
    list_all2 (\<lambda>bs batch. \<exists>prev number mode. seal_batch bs prev number mode = Inr batch) bss batches"
proof -
  have "batcher_loop seal_batch ex encode_params sl br n (dc_batch_info executed)
      (skip_executed (dc_last_block_number executed + 1) evs) = Some (batches, stop, evs')"
    using assms by (simp add: batcher_run_def)
  from batcher_loop_blocks [OF this] obtain bss where bss:
    "event_blocks (skip_executed (dc_last_block_number executed + 1) evs) = concat bss @ event_blocks evs'" "[] \<notin> set bss"
    "list_all2 (\<lambda>bs batch. \<exists>prev number mode. seal_batch bs prev number mode = Inr batch) bss batches" by blast
  obtain skipped where skipped:
    "event_blocks evs = skipped @ event_blocks (skip_executed (dc_last_block_number executed + 1) evs)"
    "\<forall>b \<in> set skipped. block_number_of b < dc_last_block_number executed + 1"
    using skip_executed_blocks by blast
  have "\<forall>b \<in> set skipped. block_number_of b \<le> dc_last_block_number executed" using skipped(2) by auto
  then show ?thesis using skipped(1) [unfolded bss(1)] bss(2,3) by blast
qed

definition sample_prover_block :: "u64 \<Rightarrow> prover_block" where
  "sample_prover_block n = \<lparr> pk_output = fst (sample_built_block n []),
     pk_record = \<lparr> rr_block_context = \<lparr> bc_chain_id = 270, bc_block_number = n, bc_block_hashes = [], bc_timestamp = n,
         bc_eip1559_basefee = 0, bc_pubdata_price = 0, bc_native_price = 0, bc_coinbase = [], bc_gas_limit = 0,
         bc_pubdata_limit = 0, bc_mix_hash = 0, bc_execution_version = 6, bc_blob_fee = 0 \<rparr>,
       rr_transactions = [L1 sample_l1_tx], rr_previous_block_timestamp = 0, rr_node_version = (0, 0, 0),
       rr_protocol_version = ProtocolSemanticVersion 0 31 0, rr_block_output_hash = [], rr_force_preimages = [],
       rr_starting_cursors = \<lparr> l1_priority_id = 0, interop_root_id = 0, migration_number = 0, interop_fee_number = 0 \<rparr> \<rparr>,
     pk_tree_output = snd (snd (sample_built_block n [])) \<rparr>"

definition sample_limits :: system_limits where
  "sample_limits = \<lparr> MAX_NATIVE_COMPUTATIONAL = 100, MAX_NUMBER_OF_LOGS = 100 \<rparr>"

definition sample_batcher_config :: batcher_config where
  "sample_batcher_config = \<lparr> bt_tx_per_batch_limit = 2, bt_pubdata_limit_bytes = 100,
     bt_interop_roots_per_batch_limit = 100, bt_batch_timeout = 10, bt_last_persisted_block = 0 \<rparr>"

definition sample_stream :: "batcher_event list" where
  "sample_stream = map (BlockReady 0 \<circ> sample_prover_block) [5, 6, 7] @ [DeadlineReached]"

lemma sample_prover_block_simps [simp]:
  "rr_transactions (pk_record (sample_prover_block n)) = [L1 sample_l1_tx]"
  "rr_protocol_version (pk_record (sample_prover_block n)) = ProtocolSemanticVersion 0 31 0"
  "bc_execution_version (rr_block_context (pk_record (sample_prover_block n))) = 6"
  "bo_computational_native_used (pk_output (sample_prover_block n)) = 3"
  "pubdata_used (bo_pubdata (pk_output (sample_prover_block n))) = 1"
  "block_logs_count (pk_output (sample_prover_block n)) = 0"
  by (simp_all add: sample_prover_block_def sample_built_block_def pubdata_used_def block_logs_count_def)

lemma sample_add:
  "accumulator_add (pk_output (sample_prover_block n)) (pk_record (sample_prover_block n)) a =
    Some (a \<lparr> ac_native_cycles := ac_native_cycles a + 3, ac_pubdata_bytes := ac_pubdata_bytes a + 1,
      ac_block_count := ac_block_count a + 1, ac_tx_count := ac_tx_count a + 1,
      ac_execution_versions := insert 6 (ac_execution_versions a),
      ac_protocol_versions := insert (ProtocolSemanticVersion 0 31 0) (ac_protocol_versions a) \<rparr>)"
  by (simp add: accumulator_add_def interop_roots_of_def is_set_sl_chain_id_def as_system_tx_type_def tx_type_def)

lemma sample_create:
  "create_batch_blocks sample_limits sample_batcher_config sample_stream =
     Some (Sealed [sample_prover_block 5, sample_prover_block 6], drop 2 sample_stream)"
  by (simp add: create_batch_blocks_def sample_stream_def sample_add should_seal_def accumulator_new_def
      sample_batcher_config_def sample_limits_def Let_def)

theorem batch_respects_limits_witness:
  "\<exists>bs evs'. create_batch_blocks sample_limits sample_batcher_config sample_stream = Some (Sealed bs, evs') \<and>
     length bs = 2 \<and> length (concat (map block_txs bs)) \<le> bt_tx_per_batch_limit sample_batcher_config"
  using batch_respects_limits [OF sample_create] sample_create by simp


theorem accumulator_is_totals_witness:
  "\<exists>a. accumulate [sample_prover_block 5, sample_prover_block 6] (accumulator_new 2 100 100) = Some a \<and>
     a = totals 2 100 100 [sample_prover_block 5, sample_prover_block 6] \<and> ac_tx_count a = 2"
proof -
  obtain a where a: "accumulate [sample_prover_block 5, sample_prover_block 6] (accumulator_new 2 100 100) = Some a"
    by (simp add: sample_add)
  with accumulator_is_totals [OF a] show ?thesis by (simp add: totals_def)
qed

definition sample_batcher :: "stored_batch_info \<Rightarrow> batcher" where
  "sample_batcher stored =
     \<lparr> br_last_committed_batch = 9, br_last_executed_batch = 8, br_config = sample_batcher_config,
       br_assert_rebuilt_batch_hashes = True, br_pubdata_mode = Validium,
       br_committed_batches = [8 \<mapsto> \<lparr> dc_batch_info = sample_stored_info 8, dc_first_block_number = 3, dc_last_block_number = 4 \<rparr>,
         9 \<mapsto> \<lparr> dc_batch_info = stored, dc_first_block_number = 5, dc_last_block_number = 6 \<rparr>] \<rparr>"

lemma sample_numbers:
  "block_number_of (sample_prover_block n) = n" "bh_number (bo_header (pk_output (sample_prover_block n))) = n"
  by (simp_all add: sample_prover_block_def sample_built_block_def)

lemma sample_stored:
  obtains stored where "into_stored sample_externals (bm_batch_info (sample_metadata 9)) = Some stored"
  by (auto simp: into_stored_def into_committed_def public_input_hash_def sample_metadata_def)

lemma sample_next_batch:
  assumes "into_stored sample_externals (bm_batch_info (sample_metadata 9)) = Some stored"
  shows "next_batch (\<lambda>_ _ _ _. Inr (sample_metadata 9)) sample_externals (\<lambda>_. []) sample_limits (sample_batcher stored)
    (sample_stored_info 8) sample_stream = Some (Created (sample_metadata 9), drop 2 sample_stream)"
proof -
  have c: "receive_blocks 2 sample_stream = (Sealed [sample_prover_block 5, sample_prover_block 6], drop 2 sample_stream)"
    by (simp add: sample_stream_def numeral_2_eq_2)
  have p: "peek_recv sample_stream = PeekBlock 5" by (simp add: sample_stream_def sample_numbers)
  have n: "si_batch_number (sample_stored_info 8) = 8" by (simp add: sample_stored_info_def)
  show ?thesis
    using c assms
    by (simp add: next_batch_def p n sample_batcher_def recreate_existing_batch_def dc_block_count_def assert_that_def
        sample_numbers numeral_2_eq_2)
qed

theorem recreated_batch_matches_l1_witness:
  "\<exists>stored. next_batch (\<lambda>_ _ _ _. Inr (sample_metadata 9)) sample_externals (\<lambda>_. []) sample_limits (sample_batcher stored)
      (sample_stored_info 8) sample_stream = Some (Created (sample_metadata 9), drop 2 sample_stream) \<and>
    (\<exists>blocks. event_blocks sample_stream = blocks @ event_blocks (drop 2 sample_stream) \<and> map block_number_of blocks = [5, 6])"
proof -
  obtain stored where st: "into_stored sample_externals (bm_batch_info (sample_metadata 9)) = Some stored" by (rule sample_stored)
  note r = sample_next_batch [OF st]
  have lt: "si_batch_number (sample_stored_info 8) < br_last_committed_batch (sample_batcher stored)"
    by (simp add: sample_stored_info_def sample_batcher_def)
  have o: "in_order (event_blocks sample_stream)" by (simp add: in_order_def sample_stream_def sample_numbers)
  have n: "br_committed_batches (sample_batcher stored) (si_batch_number (sample_stored_info 8) + 1) =
      Some \<lparr> dc_batch_info = stored, dc_first_block_number = 5, dc_last_block_number = 6 \<rparr>"
    by (simp add: sample_batcher_def sample_stored_info_def)
  from recreated_batch_matches_l1 [OF r lt] o n obtain blocks where
    "event_blocks sample_stream = blocks @ event_blocks (drop 2 sample_stream)" "map block_number_of blocks = [5..<6 + 1]"
    by auto
  then show ?thesis using r by (intro exI [of _ stored]) (auto simp: upt_rec)
qed

theorem batcher_run_partitions_stream_witness:
  "\<exists>stored skipped bss. batcher_run (\<lambda>_ _ _ _. Inr (sample_metadata 9)) sample_externals (\<lambda>_. []) sample_limits (sample_batcher stored) 1
      (BlockReady 0 (sample_prover_block 4) # sample_stream) = Some ([sample_metadata 9], None, drop 2 sample_stream) \<and>
    event_blocks (BlockReady 0 (sample_prover_block 4) # sample_stream) = skipped @ concat bss @ event_blocks (drop 2 sample_stream) \<and>
    length bss = 1"
proof -
  obtain stored where st: "into_stored sample_externals (bm_batch_info (sample_metadata 9)) = Some stored" by (rule sample_stored)
  have e: "br_committed_batches (sample_batcher stored) (br_last_executed_batch (sample_batcher stored)) =
      Some \<lparr> dc_batch_info = sample_stored_info 8, dc_first_block_number = 3, dc_last_block_number = 4 \<rparr>"
    by (simp add: sample_batcher_def)
  have "skip_executed 5 (BlockReady 0 (sample_prover_block 4) # sample_stream) = sample_stream"
    by (simp add: sample_stream_def sample_numbers)
  then have r: "batcher_run (\<lambda>_ _ _ _. Inr (sample_metadata 9)) sample_externals (\<lambda>_. []) sample_limits (sample_batcher stored) 1
      (BlockReady 0 (sample_prover_block 4) # sample_stream) = Some ([sample_metadata 9], None, drop 2 sample_stream)"
    using sample_next_batch [OF st] st by (simp add: batcher_run_def e)
  from batcher_run_partitions_stream [OF r e] obtain skipped bss where
    "event_blocks (BlockReady 0 (sample_prover_block 4) # sample_stream) = skipped @ concat bss @ event_blocks (drop 2 sample_stream)"
    "length bss = length [sample_metadata 9]"
    using list_all2_lengthD by blast
  then show ?thesis using r by auto
qed

end
