(* ===== verification/GasAdjuster.thy ===== *)
theory GasAdjuster
  imports Types "HOL-Library.Multiset"
begin

text \<open>
  The gas adjuster (\<open>lib/gas_adjuster\<close>): medians over the latest base fees of the settlement layer
  (\<open>statistics.rs\<close>), the fee history they are fed from and the price of pubdata (\<open>lib.rs\<close>).

  The L1 provider and the floating point multiplier of the pubdata price are parameters.
\<close>

subsection \<open>Statistics\<close>

record 'a gas_statistics =
  gs_samples :: "'a list"
  gs_median_cached :: 'a
  gs_max_samples :: usize
  gs_last_processed_block :: u64

text \<open>\<open>select_nth_unstable\<close> of the standard library.\<close>

definition select_nth :: "'a::linorder list \<Rightarrow> nat \<Rightarrow> 'a" where
  "select_nth xs k = sort xs ! k"

definition gs_add_samples :: "'a::linorder list \<Rightarrow> 'a gas_statistics \<Rightarrow> 'a gas_statistics" where
  "gs_add_samples fees s =
     (let extended = gs_samples s @ fees;
          processed_blocks = length extended - length (gs_samples s);
          extra = length extended - gs_max_samples s;
          samples = drop extra extended
      in s \<lparr> gs_samples := samples,
             gs_median_cached := (if samples \<noteq> [] then select_nth samples (length samples div 2) else gs_median_cached s),
             gs_last_processed_block := gs_last_processed_block s + processed_blocks \<rparr>)"

definition gs_new :: "'a::linorder \<Rightarrow> usize \<Rightarrow> u64 \<Rightarrow> 'a list \<Rightarrow> 'a gas_statistics" where
  "gs_new default_value max_samples block fee_history =
     (gs_add_samples fee_history
        \<lparr> gs_samples = [], gs_median_cached = default_value, gs_max_samples = max_samples, gs_last_processed_block = 0 \<rparr>)
     \<lparr> gs_last_processed_block := block \<rparr>"

record 'a statistics =
  st_samples :: "'a list"
  st_median_cached :: "'a option"
  st_max_samples :: usize

definition st_new :: "usize \<Rightarrow> 'a statistics" where
  "st_new max_samples = \<lparr> st_samples = [], st_median_cached = None, st_max_samples = max_samples \<rparr>"

definition st_add_samples :: "'a::linorder list \<Rightarrow> 'a statistics \<Rightarrow> 'a statistics" where
  "st_add_samples new_samples s =
     (let extended = st_samples s @ new_samples;
          samples = drop (length extended - st_max_samples s) extended
      in s \<lparr> st_samples := samples,
             st_median_cached := (if samples \<noteq> [] then Some (select_nth samples (length samples div 2))
               else st_median_cached s) \<rparr>)"

subsection \<open>The fee history\<close>

record base_fees =
  bf_base_fee_per_gas :: nat
  bf_base_fee_per_blob_gas :: nat

record fee_history =
  fh_oldest_block :: u64
  fh_base_fee_per_gas :: "nat list"
  fh_base_fee_per_blob_gas :: "nat list"

definition FEE_HISTORY_MAX_REQUEST_CHUNK :: nat where
  "FEE_HISTORY_MAX_REQUEST_CHUNK = 1023"

type_synonym fee_provider = "u64 \<Rightarrow> u64 \<Rightarrow> string + fee_history"

definition fee_chunk :: "fee_provider \<Rightarrow> u64 \<Rightarrow> u64 \<Rightarrow> string + base_fees list" where
  "fee_chunk provider upto_block chunk_start =
     (let chunk_end = min (chunk_start + FEE_HISTORY_MAX_REQUEST_CHUNK) upto_block;
          chunk_size = chunk_end - chunk_start + 1
      in case provider chunk_size chunk_end of
           Inl _ \<Rightarrow> Inl ''failed to get fee history from provider''
         | Inr h \<Rightarrow>
             if fh_oldest_block h \<noteq> chunk_start then Inl ''unexpected `oldest_block`, expected''
             else Inr (map (\<lambda>(gas, blob). \<lparr> bf_base_fee_per_gas = gas, bf_base_fee_per_blob_gas = blob \<rparr>)
                    (take chunk_size (zip (fh_base_fee_per_gas h) (fh_base_fee_per_blob_gas h)))))"

text \<open>The loop over \<open>(chunk_start..=upto_block).step_by(FEE_HISTORY_MAX_REQUEST_CHUNK)\<close>.\<close>

function fee_chunks :: "fee_provider \<Rightarrow> u64 \<Rightarrow> u64 \<Rightarrow> string + base_fees list" where
  "fee_chunks provider upto_block chunk_start =
     (if chunk_start > upto_block then Inr []
      else case fee_chunk provider upto_block chunk_start of
             Inl err \<Rightarrow> Inl err
           | Inr fees \<Rightarrow>
               (case fee_chunks provider upto_block (chunk_start + FEE_HISTORY_MAX_REQUEST_CHUNK) of
                  Inl err \<Rightarrow> Inl err
                | Inr rest \<Rightarrow> Inr (fees @ rest)))"
  by pat_completeness auto
termination
  by (relation "measure (\<lambda>(_, upto_block, chunk_start). upto_block + 1 - chunk_start)")
    (auto simp: FEE_HISTORY_MAX_REQUEST_CHUNK_def)

declare fee_chunks.simps [simp del]

text \<open>No requested block at all underflows.\<close>

definition base_fee_history :: "fee_provider \<Rightarrow> u64 \<Rightarrow> u64 \<Rightarrow> (string + base_fees list) option" where
  "base_fee_history provider upto_block block_count = do {
     assert_that (block_count \<ge> 1);
     Some (fee_chunks provider upto_block (upto_block - (block_count - 1))) }"

subsection \<open>The adjuster\<close>

record gas_adjuster_config =
  gc_pubdata_mode :: pubdata_mode
  gc_max_base_fee_samples :: usize
  gc_num_samples_for_blob_base_fee_estimate :: usize
  gc_max_priority_fee_per_gas :: nat

record gas_adjuster =
  ga_base_fee_statistics :: "nat gas_statistics"
  ga_blob_base_fee_statistics :: "nat gas_statistics"
  ga_config :: gas_adjuster_config
  ga_pubdata_price_sent :: "nat option"

definition gas_price :: "gas_adjuster \<Rightarrow> nat option" where
  "gas_price ga =
     (let p = gs_median_cached (ga_base_fee_statistics ga) + gc_max_priority_fee_per_gas (ga_config ga)
      in if p < 2 ^ 128 then Some p else None)"

text \<open>\<open>multiply\<close> is the multiplication by the configured \<open>f64\<close>, rounded and saturated to \<open>u128\<close>.\<close>

definition pubdata_price :: "(nat \<Rightarrow> nat) \<Rightarrow> gas_adjuster \<Rightarrow> nat option" where
  "pubdata_price multiply ga = do {
     price \<leftarrow> (case gc_pubdata_mode (ga_config ga) of
         Blobs \<Rightarrow> Some (gs_median_cached (ga_blob_base_fee_statistics ga) * 1)
       | Calldata \<Rightarrow> do { p \<leftarrow> gas_price ga; Some (min (p * 17) (2 ^ 256 - 1)) }
       | Validium \<Rightarrow> Some 0);
     Some (if price \<le> 2 ^ 128 - 1 then multiply price else price) }"

definition gas_adjuster_new ::
    "(nat \<Rightarrow> nat) \<Rightarrow> fee_provider \<Rightarrow> u64 \<Rightarrow> gas_adjuster_config \<Rightarrow> (string + gas_adjuster) option" where
  "gas_adjuster_new multiply provider block_number config =
     (let current_block = block_number - 1 in do {
        history \<leftarrow> base_fee_history provider current_block (gc_max_base_fee_samples config);
        (case history of
           Inl err \<Rightarrow> Some (Inl err)
         | Inr fee_history \<Rightarrow>
             (let ga = \<lparr> ga_base_fee_statistics = gs_new 0 (gc_max_base_fee_samples config) current_block
                           (map bf_base_fee_per_gas fee_history),
                         ga_blob_base_fee_statistics = gs_new 0 (gc_num_samples_for_blob_base_fee_estimate config)
                           current_block (map bf_base_fee_per_blob_gas fee_history),
                         ga_config = config, ga_pubdata_price_sent = None \<rparr>
              in do {
                price \<leftarrow> pubdata_price multiply ga;
                Some (Inr (ga \<lparr> ga_pubdata_price_sent := Some price \<rparr>)) })) })"

definition update_fees :: "(nat \<Rightarrow> nat) \<Rightarrow> fee_provider \<Rightarrow> u64 \<Rightarrow> gas_adjuster \<Rightarrow> (string + gas_adjuster) option" where
  "update_fees multiply provider block_number ga =
     (let current_block = block_number - 1;
          last_processed_block = gs_last_processed_block (ga_base_fee_statistics ga)
      in if current_block > last_processed_block
         then do {
           history \<leftarrow> base_fee_history provider current_block (current_block - last_processed_block);
           (case history of
              Inl err \<Rightarrow> Some (Inl err)
            | Inr fee_data \<Rightarrow>
                (let ga = ga \<lparr> ga_base_fee_statistics :=
                        gs_add_samples (map bf_base_fee_per_gas fee_data) (ga_base_fee_statistics ga),
                      ga_blob_base_fee_statistics :=
                        gs_add_samples (map bf_base_fee_per_blob_gas fee_data) (ga_blob_base_fee_statistics ga) \<rparr>
                 in do {
                   price \<leftarrow> pubdata_price multiply ga;
                   Some (Inr (ga \<lparr> ga_pubdata_price_sent := Some price \<rparr>)) })) }
         else Some (Inr ga))"

subsection \<open>Lemmas\<close>

text \<open>What a provider documents: for every block up to the head it returns the fees of the requested
  blocks, oldest first, and of the block after them.\<close>

definition provider_ok :: "fee_provider \<Rightarrow> (u64 \<Rightarrow> base_fees) \<Rightarrow> u64 \<Rightarrow> bool" where
  "provider_ok provider fees head \<longleftrightarrow> (\<forall>newest \<le> head. \<forall>n. 1 \<le> n \<and> n \<le> 1024 \<and> n \<le> newest + 1 \<longrightarrow>
     provider n newest = Inr \<lparr> fh_oldest_block = newest + 1 - n,
       fh_base_fee_per_gas = map (bf_base_fee_per_gas \<circ> fees) [newest + 1 - n..<newest + 2],
       fh_base_fee_per_blob_gas = map (bf_base_fee_per_blob_gas \<circ> fees) [newest + 1 - n..<newest + 2] \<rparr>)"

lemma fee_chunk_ok:
  assumes "provider_ok provider fees head" "upto_block \<le> head" "chunk_start \<le> upto_block"
  shows "fee_chunk provider upto_block chunk_start =
    Inr (map fees [chunk_start..<min (chunk_start + 1023) upto_block + 1])"
proof -
  let ?e = "min (chunk_start + 1023) upto_block"
  have le: "?e \<le> head" "1 \<le> ?e - chunk_start + 1" "?e - chunk_start + 1 \<le> 1024" "?e - chunk_start + 1 \<le> ?e + 1" "?e + 1 - (?e - chunk_start + 1) = chunk_start"
    using assms(2,3) by auto
  then have p: "provider (?e - chunk_start + 1) ?e = Inr \<lparr> fh_oldest_block = chunk_start,
       fh_base_fee_per_gas = map (bf_base_fee_per_gas \<circ> fees) [chunk_start..<?e + 2],
       fh_base_fee_per_blob_gas = map (bf_base_fee_per_blob_gas \<circ> fees) [chunk_start..<?e + 2] \<rparr>"
    using assms(1) unfolding provider_ok_def by metis
  have t: "take (?e - chunk_start + 1) [chunk_start..<?e + 2] = [chunk_start..<?e + 1]"
    using assms(3) by (subst take_upt) auto
  show ?thesis
    unfolding fee_chunk_def FEE_HISTORY_MAX_REQUEST_CHUNK_def Let_def p
    using t by (simp add: zip_map_map zip_same_conv_map take_map comp_def del: take_upt upt_Suc)
qed

text \<open>The blocks the loop reads: consecutive chunks share a block.\<close>

function chunk_blocks :: "u64 \<Rightarrow> u64 \<Rightarrow> u64 list" where
  "chunk_blocks upto_block start =
     (if start > upto_block then []
      else [start..<min (start + 1023) upto_block + 1] @ chunk_blocks upto_block (start + 1023))"
  by pat_completeness auto
termination by (relation "measure (\<lambda>(upto_block, start). upto_block + 1 - start)") auto

declare chunk_blocks.simps [simp del]

lemma fee_chunks_ok:
  assumes "provider_ok provider fees head" "upto_block \<le> head"
  shows "fee_chunks provider upto_block start = Inr (map fees (chunk_blocks upto_block start))"
  using assms
proof (induction upto_block start rule: chunk_blocks.induct)
  case (1 upto_block start)
  then show ?case
    by (subst fee_chunks.simps, subst chunk_blocks.simps)
      (simp add: fee_chunk_ok [OF "1.prems"] FEE_HISTORY_MAX_REQUEST_CHUNK_def)
qed

lemma length_chunk_blocks:
  "start \<le> upto_block \<Longrightarrow> length (chunk_blocks upto_block start) = upto_block - start + 1 + (upto_block - start) div 1023"
proof (induction upto_block start rule: chunk_blocks.induct)
  case (1 upto_block start)
  show ?case
  proof (cases "start + 1023 \<le> upto_block")
    case True
    then have d: "upto_block - start = (upto_block - (start + 1023)) + 1023" by simp
    have q: "(upto_block - start) div 1023 = (upto_block - (start + 1023)) div 1023 + 1" unfolding d by simp
    have "length (chunk_blocks upto_block start) = 1024 + length (chunk_blocks upto_block (start + 1023))"
      using True by (subst chunk_blocks.simps) (simp add: min_def del: upt_Suc)
    moreover have "length (chunk_blocks upto_block (start + 1023)) =
        upto_block - (start + 1023) + 1 + (upto_block - (start + 1023)) div 1023"
      using True by (intro "1.IH") simp_all
    ultimately show ?thesis unfolding q using True by linarith
  next
    case False
    with 1(2) show ?thesis
      by (subst chunk_blocks.simps, subst chunk_blocks.simps) auto
  qed
qed

lemma gs_add_samples_last [simp]:
  "gs_last_processed_block (gs_add_samples fees s) = gs_last_processed_block s + length fees"
  by (simp add: gs_add_samples_def Let_def)

lemma filter_take_length:
  assumes "\<And>x. x \<in> set (take n ys) \<Longrightarrow> P x" "n \<le> length ys"
  shows "n \<le> length (filter P ys)"
proof -
  have "filter P ys = filter P (take n ys) @ filter P (drop n ys)"
    by (simp flip: filter_append)
  moreover have "filter P (take n ys) = take n ys" using assms(1) by simp
  ultimately show ?thesis using assms(2) by simp
qed

lemma filter_drop_length:
  assumes "\<And>x. x \<in> set (drop n ys) \<Longrightarrow> P x"
  shows "length ys - n \<le> length (filter P ys)"
proof -
  have "filter P ys = filter P (take n ys) @ filter P (drop n ys)"
    by (simp flip: filter_append)
  moreover have "filter P (drop n ys) = drop n ys" using assms by simp
  ultimately show ?thesis by simp
qed

lemma take_last_append:
  "drop (length (drop (length xs - m) xs @ ys) - m) (drop (length xs - m) xs @ ys) = drop (length (xs @ ys) - m) (xs @ ys)"
  by (cases "length xs \<le> m") (auto simp: min_def intro!: arg_cong [where f = "\<lambda>n. drop n xs"])

lemma gs_samples_add: "gs_samples (gs_add_samples fees s) =
    drop (length (gs_samples s @ fees) - gs_max_samples s) (gs_samples s @ fees)"
  by (simp add: gs_add_samples_def Let_def)

lemma gs_max_samples_add [simp]: "gs_max_samples (gs_add_samples fees s) = gs_max_samples s"
  by (simp add: gs_add_samples_def Let_def)

lemma gs_median_add: "gs_samples (gs_add_samples fees s) \<noteq> [] \<Longrightarrow> gs_median_cached (gs_add_samples fees s) =
    select_nth (gs_samples (gs_add_samples fees s)) (length (gs_samples (gs_add_samples fees s)) div 2)"
  by (simp add: gs_add_samples_def Let_def del: drop_append drop_eq_Nil length_drop)

subsection \<open>Properties\<close>

text \<open>Feeding the statistics piecewise is the same as feeding them at once: the window, the median and
  the block counter after two updates are those after one update with both histories.\<close>

theorem gas_statistics_batching:
  assumes "fees' \<noteq> []" "0 < gs_max_samples s"
  shows "gs_add_samples fees' (gs_add_samples fees s) = gs_add_samples (fees @ fees') s"
proof -
  have samples: "gs_samples (gs_add_samples fees' (gs_add_samples fees s)) = gs_samples (gs_add_samples (fees @ fees') s)"
    unfolding gs_samples_add gs_max_samples_add using take_last_append [of "gs_samples s @ fees" "gs_max_samples s" fees'] by simp
  have "gs_samples (gs_add_samples (fees @ fees') s) \<noteq> []"
    using assms by (simp add: gs_samples_add del: drop_append drop_eq_Nil flip: length_greater_0_conv)
  with samples gs_median_add [of fees' "gs_add_samples fees s"] gs_median_add [of "fees @ fees'" s] show ?thesis
    by (intro gas_statistics.equality) simp_all
qed

text \<open>The median kept by the statistics lies in the middle of the window: at least half of the samples
  are not larger, and at least half are not smaller.\<close>

theorem gas_median_is_central:
  assumes "gs_samples (gs_add_samples fees s) \<noteq> []"
  shows "let xs = gs_samples (gs_add_samples fees s); m = gs_median_cached (gs_add_samples fees s) in
    m \<in> set xs \<and> length xs \<le> 2 * length (filter (\<lambda>x. x \<le> m) xs) \<and> length xs \<le> 2 * length (filter (\<lambda>x. m \<le> x) xs)"
proof -
  let ?xs = "gs_samples (gs_add_samples fees s)"
  let ?ys = "sort ?xs" and ?k = "length ?xs div 2"
  have k: "?k < length ?ys" using assms by simp
  have filt: "length (filter P ?xs) = length (filter P ?ys)" for P
    by (metis mset_filter mset_sort size_mset)
  have "Suc ?k \<le> length (filter (\<lambda>x. x \<le> ?ys ! ?k) ?ys)"
    by (rule filter_take_length) (use k in \<open>auto simp: in_set_conv_nth intro!: sorted_nth_mono\<close>)
  moreover have "length ?ys - ?k \<le> length (filter (\<lambda>x. ?ys ! ?k \<le> x) ?ys)"
    by (rule filter_drop_length) (use k in \<open>auto simp: in_set_conv_nth intro!: sorted_nth_mono\<close>)
  moreover have "?ys ! ?k \<in> set ?xs" using k by (metis nth_mem set_sort)
  ultimately show ?thesis
    unfolding Let_def gs_median_add [OF assms] select_nth_def filt using k by auto
qed

text \<open>With a provider that behaves as documented, the fee history of \<open>block_count\<close> existing blocks has one
  value too many for every full chunk of 1023 blocks: chunks are advanced by 1023 blocks but contain
  1024, so the last block of a chunk is read again as the first of the next.  It is one value per block
  exactly up to 1023 blocks.\<close>

theorem base_fee_history_length:
  assumes "provider_ok provider fees head" "upto_block \<le> head" "1 \<le> block_count" "block_count \<le> upto_block + 1"
  shows "\<exists>h. base_fee_history provider upto_block block_count = Some (Inr h) \<and>
    length h = block_count + (block_count - 1) div 1023 \<and>
    (block_count \<le> 1023 \<longrightarrow> h = map fees [upto_block + 1 - block_count..<upto_block + 1])"
proof -
  let ?s = "upto_block - (block_count - 1)"
  have h: "base_fee_history provider upto_block block_count = Some (Inr (map fees (chunk_blocks upto_block ?s)))"
    using assms(3) by (simp add: base_fee_history_def assert_that_def fee_chunks_ok [OF assms(1,2)])
  have "length (chunk_blocks upto_block ?s) = block_count + (block_count - 1) div 1023"
    using length_chunk_blocks [of ?s upto_block] assms(3,4) by simp
  moreover have "chunk_blocks upto_block ?s = [upto_block + 1 - block_count..<upto_block + 1]" if "block_count \<le> 1023"
    using that assms(3,4) by (subst chunk_blocks.simps, subst chunk_blocks.simps) (auto simp: min_def)
  ultimately show ?thesis using h by simp
qed

text \<open>C39.  The repeated values are counted as processed blocks: an update over a gap of more than 1023 blocks
  moves the last processed block beyond the current one, and the blocks in between are never sampled.
  Up to 1023 blocks it is the current block.\<close>

theorem update_fees_last_processed:
  assumes "provider_ok provider fees head" "current_block \<le> head"
    and "gs_last_processed_block (ga_base_fee_statistics ga) < current_block"
    and "update_fees multiply provider (current_block + 1) ga = Some (Inr ga')"
  shows "gs_last_processed_block (ga_base_fee_statistics ga') =
    current_block + (current_block - gs_last_processed_block (ga_base_fee_statistics ga) - 1) div 1023"
proof -
  let ?l = "gs_last_processed_block (ga_base_fee_statistics ga)"
  let ?s = "current_block - (current_block - ?l - 1)"
  have "gs_last_processed_block (ga_base_fee_statistics ga') = ?l + length (chunk_blocks current_block ?s)"
    using assms(3,4) by (auto simp: update_fees_def Let_def base_fee_history_def assert_that_def
        fee_chunks_ok [OF assms(1,2)] split: bind_splits)
  also have "\<dots> = current_block + (current_block - ?l - 1) div 1023"
    using length_chunk_blocks [of ?s current_block] assms(3) by simp
  finally show ?thesis .
qed

definition sample_fees :: "u64 \<Rightarrow> base_fees" where
  "sample_fees n = \<lparr> bf_base_fee_per_gas = n, bf_base_fee_per_blob_gas = 1 \<rparr>"

definition sample_fee_provider :: fee_provider where
  "sample_fee_provider n newest = Inr \<lparr> fh_oldest_block = newest + 1 - n,
     fh_base_fee_per_gas = map (bf_base_fee_per_gas \<circ> sample_fees) [newest + 1 - n..<newest + 2],
     fh_base_fee_per_blob_gas = map (bf_base_fee_per_blob_gas \<circ> sample_fees) [newest + 1 - n..<newest + 2] \<rparr>"

lemma sample_fee_provider_ok: "provider_ok sample_fee_provider sample_fees head"
  by (simp add: provider_ok_def sample_fee_provider_def)

definition sample_statistics :: "nat gas_statistics" where
  "sample_statistics = gs_new 0 3 10 [5, 9, 1, 7]"

definition sample_adjuster :: gas_adjuster where
  "sample_adjuster = \<lparr> ga_base_fee_statistics = sample_statistics, ga_blob_base_fee_statistics = sample_statistics,
     ga_config = \<lparr> gc_pubdata_mode = Validium, gc_max_base_fee_samples = 3,
       gc_num_samples_for_blob_base_fee_estimate = 3, gc_max_priority_fee_per_gas = 1 \<rparr>,
     ga_pubdata_price_sent = None \<rparr>"

theorem gas_statistics_batching_witness:
  "gs_add_samples [4, 8] (gs_add_samples [2] sample_statistics) = gs_add_samples ([2] @ [4, 8]) sample_statistics"
  by (rule gas_statistics_batching) (simp_all add: sample_statistics_def gs_new_def gs_add_samples_def Let_def)

theorem gas_median_is_central_witness:
  "gs_samples (gs_add_samples [4, 8] sample_statistics) = [7, 4, 8] \<and>
   gs_median_cached (gs_add_samples [4, 8] sample_statistics) \<in> {7, 4, 8}"
proof -
  have s: "gs_samples (gs_add_samples [4, 8] sample_statistics) = [7, 4, 8]"
    by (simp add: sample_statistics_def gs_new_def gs_add_samples_def Let_def)
  then have "gs_samples (gs_add_samples [4, 8] sample_statistics) \<noteq> []" by simp
  from gas_median_is_central [OF this] s show ?thesis by (simp add: Let_def)
qed

theorem base_fee_history_length_witness:
  "\<exists>h. base_fee_history sample_fee_provider 2000 1024 = Some (Inr h) \<and> length h = 1025"
  using base_fee_history_length [OF sample_fee_provider_ok [of 2000], of 2000 1024] by auto

theorem update_fees_last_processed_witness:
  "\<exists>ga'. update_fees id sample_fee_provider (2000 + 1) sample_adjuster = Some (Inr ga') \<and>
     gs_last_processed_block (ga_base_fee_statistics ga') = 2001"
proof -
  have l: "gs_last_processed_block (ga_base_fee_statistics sample_adjuster) = 10"
    by (simp add: sample_adjuster_def sample_statistics_def gs_new_def)
  have m: "gc_pubdata_mode (ga_config sample_adjuster) = Validium" by (simp add: sample_adjuster_def)
  obtain ga' where u: "update_fees id sample_fee_provider (2000 + 1) sample_adjuster = Some (Inr ga')"
    using l m fee_chunks_ok [OF sample_fee_provider_ok [of 2000], of 2000]
    by (auto simp: update_fees_def Let_def base_fee_history_def assert_that_def pubdata_price_def)
  from update_fees_last_processed [OF sample_fee_provider_ok [of 2000] _ _ u] l u show ?thesis by auto
qed

end
