(* ===== verification/Mempool.thy ===== *)
theory Mempool
  imports BTreeMap Types
begin

text \<open>
  The transaction pool (\<open>lib/mempool/src\<close>): the subpools of L1 priority transactions,
  interop roots, interop fees and protocol upgrades, the streams they serve to the block
  executor, and the pool that combines them.

  A subpool sits behind a lock and is filled by a watcher task while the executor waits for
  it.  A waiting call is a function of a schedule: one entry per acquisition of the lock,
  listing what the watcher inserted before it.  A call that exhausts its schedule is still
  waiting (\<open>Pending\<close>), a panic is \<open>None\<close>.  The L2 subpool is a reth pool and appears as
  the calls the pool makes to it.
\<close>

subsection \<open>Waiting\<close>

datatype 'a poll = Ready 'a | Pending

type_synonym 'a awaited = "'a poll option"

definition await_then :: "'a awaited \<Rightarrow> ('a \<Rightarrow> 'b awaited) \<Rightarrow> 'b awaited" where
  "await_then m f = (case m of None \<Rightarrow> None | Some Pending \<Rightarrow> Some Pending | Some (Ready x) \<Rightarrow> f x)"

lemma await_then_simps [simp]:
  "await_then None f = None" "await_then (Some Pending) f = Some Pending" "await_then (Some (Ready x)) f = f x"
  by (simp_all add: await_then_def)

lemma await_then_Ready_iff:
  "await_then m f = Some (Ready y) \<longleftrightarrow> (\<exists>x. m = Some (Ready x) \<and> f x = Some (Ready y))"
  by (simp add: await_then_def split: option.split poll.split)

text \<open>The loop of every \<open>pop_wait\<close>: take the lock, try to pop, otherwise wait for the next
  notification.\<close>

fun pop_wait ::
    "('i \<Rightarrow> 's \<Rightarrow> 's) \<Rightarrow> ('s \<Rightarrow> ('i \<times> 's) option) \<Rightarrow> 's \<Rightarrow> 'i list list \<Rightarrow> ('i \<times> 's \<times> 'i list list) poll" where
  "pop_wait insert_item pop s [] = Pending"
| "pop_wait insert_item pop s (arrivals # schedule) =
     (case pop (fold insert_item arrivals s) of
        None \<Rightarrow> pop_wait insert_item pop (fold insert_item arrivals s) schedule
      | Some (x, s') \<Rightarrow> Ready (x, s', schedule))"

subsection \<open>L1 priority transactions\<close>

text \<open>\<open>sender\<close> says whether the subpool holds the sending half of a channel; what the channel
  buffers is kept with the receiving half, in the stream.  \<open>VecDeque\<close>s are listed from front
  to back.\<close>

record l1_subpool =
  l1p_sender :: bool
  l1p_pending_txs :: "l1_tx list"
  l1p_channel_size :: usize

record l1_transactions_stream =
  l1s_receiver :: "l1_tx list"
  l1s_pending_txs :: "l1_tx list"

definition l1_subpool_new :: "usize \<Rightarrow> l1_subpool" where
  "l1_subpool_new channel_size = \<lparr> l1p_sender = False, l1p_pending_txs = [], l1p_channel_size = channel_size \<rparr>"

definition l1_best_transactions_stream :: "l1_subpool \<Rightarrow> l1_transactions_stream \<times> l1_subpool" where
  "l1_best_transactions_stream pool =
     (\<lparr> l1s_receiver = [], l1s_pending_txs = l1p_pending_txs pool \<rparr>, pool\<lparr> l1p_sender := True \<rparr>)"

text \<open>\<open>insert\<close> next to the receiving stream, \<open>None\<close> when it was dropped; a full channel makes
  the call wait.\<close>

definition l1_insert ::
    "l1_tx \<Rightarrow> l1_subpool \<Rightarrow> l1_transactions_stream option \<Rightarrow> (l1_subpool \<times> l1_transactions_stream option) poll" where
  "l1_insert tx pool stream =
     (let pushed = pool\<lparr> l1p_pending_txs := tx # l1p_pending_txs pool \<rparr> in
      if l1p_sender pool then
        (case stream of
           None \<Rightarrow> Ready (pushed\<lparr> l1p_sender := False \<rparr>, None)
         | Some s \<Rightarrow>
             if length (l1s_receiver s) < l1p_channel_size pool
             then Ready (pushed, Some (s\<lparr> l1s_receiver := l1s_receiver s @ [tx] \<rparr>))
             else Pending)
      else Ready (pushed, stream))"

definition l1_poll_next :: "l1_subpool \<Rightarrow> l1_transactions_stream \<Rightarrow> (l1_tx option \<times> l1_transactions_stream) poll" where
  "l1_poll_next pool s =
     (if l1s_pending_txs s \<noteq> [] then
        Ready (Some (last (l1s_pending_txs s)), s\<lparr> l1s_pending_txs := butlast (l1s_pending_txs s) \<rparr>)
      else (case l1s_receiver s of
              tx # rest \<Rightarrow> Ready (Some tx, s\<lparr> l1s_receiver := rest \<rparr>)
            | [] \<Rightarrow> if l1p_sender pool then Pending else Ready (None, s)))"

text \<open>Between blocks no stream is alive; the first insert then drops the sender.\<close>

definition l1_arrive :: "l1_tx \<Rightarrow> l1_subpool \<Rightarrow> l1_subpool" where
  "l1_arrive tx pool = pool\<lparr> l1p_sender := False, l1p_pending_txs := tx # l1p_pending_txs pool \<rparr>"

definition l1_pop_back :: "l1_subpool \<Rightarrow> (l1_tx \<times> l1_subpool) option" where
  "l1_pop_back pool =
     (if l1p_pending_txs pool = [] then None
      else Some (last (l1p_pending_txs pool), pool\<lparr> l1p_pending_txs := butlast (l1p_pending_txs pool) \<rparr>))"

definition l1_pop_wait :: "l1_subpool \<Rightarrow> l1_tx list list \<Rightarrow> (l1_tx \<times> l1_subpool \<times> l1_tx list list) poll" where
  "l1_pop_wait = pop_wait l1_arrive l1_pop_back"

fun l1_pop_executed ::
    "l1_tx list \<Rightarrow> u64 \<Rightarrow> l1_subpool \<Rightarrow> l1_tx list list \<Rightarrow> (u64 \<times> l1_subpool \<times> l1_tx list list) awaited" where
  "l1_pop_executed [] last_id pool schedule = Some (Ready (last_id, pool, schedule))"
| "l1_pop_executed (tx # txs) last_id pool schedule =
     await_then (Some (l1_pop_wait pool schedule)) (\<lambda>(pending_tx, pool, schedule).
       if tx = pending_tx then l1_pop_executed txs (priority_id pending_tx) pool schedule else None)"

definition l1_on_canonical_state_change ::
    "l1_tx list \<Rightarrow> l1_subpool \<Rightarrow> l1_tx list list \<Rightarrow> (u64 option \<times> l1_subpool \<times> l1_tx list list) awaited" where
  "l1_on_canonical_state_change txs pool schedule =
     (if txs = [] then Some (Ready (None, pool, schedule))
      else await_then (l1_pop_executed txs 0 pool schedule) (\<lambda>(last_id, pool, schedule).
             Some (Ready (Some last_id, pool, schedule))))"

subsection \<open>Interop roots\<close>

record interop_roots_subpool =
  irp_pending_roots :: "(u64, interop_root) btm"
  irp_interop_roots_per_tx :: usize

definition interop_roots_subpool_new :: "usize \<Rightarrow> interop_roots_subpool" where
  "interop_roots_subpool_new interop_roots_per_tx =
     \<lparr> irp_pending_roots = [], irp_interop_roots_per_tx = interop_roots_per_tx \<rparr>"

text \<open>The state of the unfolded stream: the cursor and the buffer, newest root first.\<close>

record interop_stream =
  is_cursor :: u64
  is_buffer :: "(u64 \<times> interop_root) list"

definition interop_stream_new :: interop_stream where
  "interop_stream_new = \<lparr> is_cursor = 0, is_buffer = [] \<rparr>"

text \<open>One pass of the loop: the roots from the cursor on are pushed to the front of the buffer,
  then the oldest ones are drained into a transaction.  The deadline \<open>sleep_until\<close> waits for
  comes as \<open>now\<close> and \<open>next_tx_allowed_after\<close>.\<close>

definition interop_collect :: "interop_roots_subpool \<Rightarrow> interop_stream \<Rightarrow> interop_stream" where
  "interop_collect pool s =
     fold (\<lambda>(log_id, root) s. \<lparr> is_cursor = log_id + 1, is_buffer = (log_id, root) # is_buffer s \<rparr>)
       (btm_range_from (is_cursor s) (irp_pending_roots pool)) s"

definition interop_poll ::
    "(system_tx \<Rightarrow> tx_hash) \<Rightarrow> nat \<Rightarrow> nat \<Rightarrow> interop_roots_subpool \<Rightarrow> interop_stream \<Rightarrow>
      (system_tx_envelope \<times> interop_stream) awaited" where
  "interop_poll calculate_hash next_tx_allowed_after now pool s =
     (if now < next_tx_allowed_after then Some Pending
      else
        (let s = interop_collect pool s;
             buffer = is_buffer s
         in if buffer \<noteq> [] then
              (let amount_of_roots_to_take = min (length buffer) (irp_interop_roots_per_tx pool);
                   starting_index = length buffer - amount_of_roots_to_take;
                   roots_to_consume = rev (drop starting_index buffer)
               in if roots_to_consume = [] then None
                  else Some (Ready
                    (import_interop_roots calculate_hash (map snd roots_to_consume) (fst (last roots_to_consume)),
                     s\<lparr> is_buffer := take starting_index buffer \<rparr>)))
            else Some Pending))"

definition add_root :: "u64 \<times> interop_root \<Rightarrow> interop_roots_subpool \<Rightarrow> interop_roots_subpool" where
  "add_root root pool =
     pool\<lparr> irp_pending_roots := btm_insert (fst root) (snd root) (irp_pending_roots pool) \<rparr>"

definition interop_pop_first :: "interop_roots_subpool \<Rightarrow> ((u64 \<times> interop_root) \<times> interop_roots_subpool) option" where
  "interop_pop_first pool =
     (case irp_pending_roots pool of
        [] \<Rightarrow> None
      | root # rest \<Rightarrow> Some (root, pool\<lparr> irp_pending_roots := rest \<rparr>))"

definition interop_pop_wait ::
    "interop_roots_subpool \<Rightarrow> (u64 \<times> interop_root) list list \<Rightarrow>
      ((u64 \<times> interop_root) \<times> interop_roots_subpool \<times> (u64 \<times> interop_root) list list) poll" where
  "interop_pop_wait = pop_wait add_root interop_pop_first"

fun pop_roots ::
    "nat \<Rightarrow> (u64 \<times> interop_root) list \<Rightarrow> interop_roots_subpool \<Rightarrow> (u64 \<times> interop_root) list list \<Rightarrow>
      ((u64 \<times> interop_root) list \<times> interop_roots_subpool \<times> (u64 \<times> interop_root) list list) poll" where
  "pop_roots 0 roots pool schedule = Ready (roots, pool, schedule)"
| "pop_roots (Suc n) roots pool schedule =
     (case interop_pop_wait pool schedule of
        Pending \<Rightarrow> Pending
      | Ready (root, pool, schedule) \<Rightarrow> pop_roots n (roots @ [root]) pool schedule)"

fun interop_pop_executed ::
    "(system_tx \<Rightarrow> tx_hash) \<Rightarrow> system_tx_envelope list \<Rightarrow> u64 option \<Rightarrow> interop_roots_subpool \<Rightarrow>
      (u64 \<times> interop_root) list list \<Rightarrow>
      (u64 option \<times> interop_roots_subpool \<times> (u64 \<times> interop_root) list list) awaited" where
  "interop_pop_executed calculate_hash [] last_log_id pool schedule = Some (Ready (last_log_id, pool, schedule))"
| "interop_pop_executed calculate_hash (tx # txs) last_log_id pool schedule =
     (case system_subtype tx of
        ImportInteropRoots roots_count \<Rightarrow>
          await_then (Some (pop_roots roots_count [] pool schedule)) (\<lambda>(roots, pool, schedule).
            if roots = [] then None
            else if import_interop_roots calculate_hash (map snd roots) (fst (last roots)) = tx
            then interop_pop_executed calculate_hash txs (Some (fst (last roots))) pool schedule
            else None)
      | _ \<Rightarrow> interop_pop_executed calculate_hash txs last_log_id pool schedule)"

definition interop_on_canonical_state_change ::
    "(system_tx \<Rightarrow> tx_hash) \<Rightarrow> system_tx_envelope list \<Rightarrow> interop_roots_subpool \<Rightarrow>
      (u64 \<times> interop_root) list list \<Rightarrow>
      (u64 option \<times> interop_roots_subpool \<times> (u64 \<times> interop_root) list list) awaited" where
  "interop_on_canonical_state_change calculate_hash txs pool schedule =
     (if txs = [] then Some (Ready (None, pool, schedule))
      else interop_pop_executed calculate_hash txs None pool schedule)"

subsection \<open>Interop fees\<close>

record interop_fee_subpool =
  ifp_sender :: bool
  ifp_pending_fee :: "nat option"
  ifp_next_interop_fee_number :: "u64 option"

definition interop_fee_subpool_default :: interop_fee_subpool where
  "interop_fee_subpool_default =
     \<lparr> ifp_sender = False, ifp_pending_fee = None, ifp_next_interop_fee_number = None \<rparr>"

definition interop_fee_init :: "u64 \<Rightarrow> interop_fee_subpool \<Rightarrow> interop_fee_subpool option" where
  "interop_fee_init next_interop_fee_number pool = do {
     assert_that (ifp_next_interop_fee_number pool = None);
     Some (pool\<lparr> ifp_next_interop_fee_number := Some next_interop_fee_number \<rparr>) }"

text \<open>The stream: waiting on its channel (with what the channel buffers), holding a transaction,
  or closed.\<close>

datatype fee_stream_state = FeeEmpty "nat list" u64 | FeePending system_tx_envelope | FeeClosed

definition interop_fee_best_transactions_stream ::
    "(system_tx \<Rightarrow> tx_hash) \<Rightarrow> interop_fee_subpool \<Rightarrow> (fee_stream_state \<times> interop_fee_subpool) option" where
  "interop_fee_best_transactions_stream calculate_hash pool =
     (case ifp_next_interop_fee_number pool of
        None \<Rightarrow> None
      | Some next_interop_fee_number \<Rightarrow>
          Some (case ifp_pending_fee pool of
                  Some pending_fee \<Rightarrow> FeePending (set_interop_fee calculate_hash pending_fee next_interop_fee_number)
                | None \<Rightarrow> FeeEmpty [] next_interop_fee_number,
                pool\<lparr> ifp_sender := True \<rparr>))"

text \<open>A stream that is not \<open>FeeEmpty\<close> has dropped its receiver; the channel has one place.\<close>

definition interop_fee_insert ::
    "nat \<Rightarrow> interop_fee_subpool \<Rightarrow> fee_stream_state \<Rightarrow> (interop_fee_subpool \<times> fee_stream_state) poll" where
  "interop_fee_insert interop_fee pool stream =
     (let set = pool\<lparr> ifp_pending_fee := Some interop_fee \<rparr> in
      if ifp_sender pool then
        (case stream of
           FeeEmpty buffered next_interop_fee_number \<Rightarrow>
             if length buffered < 1
             then Ready (set, FeeEmpty (buffered @ [interop_fee]) next_interop_fee_number)
             else Pending
         | _ \<Rightarrow> Ready (set\<lparr> ifp_sender := False \<rparr>, stream))
      else Ready (set, stream))"

definition interop_fee_poll_next ::
    "(system_tx \<Rightarrow> tx_hash) \<Rightarrow> interop_fee_subpool \<Rightarrow> fee_stream_state \<Rightarrow>
      (system_tx_envelope option \<times> fee_stream_state) poll" where
  "interop_fee_poll_next calculate_hash pool stream =
     (case stream of
        FeeEmpty [] next_interop_fee_number \<Rightarrow> if ifp_sender pool then Pending else Ready (None, FeeClosed)
      | FeeEmpty (interop_fee # _) next_interop_fee_number \<Rightarrow>
          Ready (Some (set_interop_fee calculate_hash interop_fee next_interop_fee_number), FeeClosed)
      | FeePending tx \<Rightarrow> Ready (Some tx, FeeClosed)
      | FeeClosed \<Rightarrow> Ready (None, FeeClosed))"

text \<open>Between blocks no stream is alive.\<close>

definition fee_arrive :: "nat \<Rightarrow> interop_fee_subpool \<Rightarrow> interop_fee_subpool" where
  "fee_arrive interop_fee pool = pool\<lparr> ifp_sender := False, ifp_pending_fee := Some interop_fee \<rparr>"

fun consume_expected_tx ::
    "(system_tx \<Rightarrow> tx_hash) \<Rightarrow> system_tx_envelope \<Rightarrow> interop_fee_subpool \<Rightarrow> nat list list \<Rightarrow>
      (u64 \<times> interop_fee_subpool \<times> nat list list) awaited" where
  "consume_expected_tx calculate_hash tx pool [] = Some Pending"
| "consume_expected_tx calculate_hash tx pool (arrivals # schedule) =
     (let pool = fold fee_arrive arrivals pool in
      case ifp_pending_fee pool of
        None \<Rightarrow> consume_expected_tx calculate_hash tx pool schedule
      | Some pending_fee \<Rightarrow>
          (case ifp_next_interop_fee_number pool of
             None \<Rightarrow> None
           | Some expected_number \<Rightarrow>
               if tx = set_interop_fee calculate_hash pending_fee expected_number
               then Some (Ready (expected_number,
                      pool\<lparr> ifp_pending_fee := None, ifp_next_interop_fee_number := Some (expected_number + 1) \<rparr>,
                      schedule))
               else None))"

fun consume_fee_txs ::
    "(system_tx \<Rightarrow> tx_hash) \<Rightarrow> system_tx_envelope list \<Rightarrow> u64 option \<Rightarrow> interop_fee_subpool \<Rightarrow> nat list list \<Rightarrow>
      (u64 option \<times> interop_fee_subpool \<times> nat list list) awaited" where
  "consume_fee_txs calculate_hash [] last_number pool schedule = Some (Ready (last_number, pool, schedule))"
| "consume_fee_txs calculate_hash (tx # txs) last_number pool schedule =
     await_then (consume_expected_tx calculate_hash tx pool schedule) (\<lambda>(number, pool, schedule).
       consume_fee_txs calculate_hash txs (Some number) pool schedule)"

definition interop_fee_number_of :: "system_tx_envelope \<Rightarrow> u64 option" where
  "interop_fee_number_of tx = (case system_subtype tx of SetInteropFee n \<Rightarrow> Some n | _ \<Rightarrow> None)"

definition interop_fee_on_canonical_state_change ::
    "(system_tx \<Rightarrow> tx_hash) \<Rightarrow> system_tx_envelope list \<Rightarrow> bool \<Rightarrow> interop_fee_subpool \<Rightarrow> nat list list \<Rightarrow>
      (u64 option \<times> interop_fee_subpool \<times> nat list list) awaited" where
  "interop_fee_on_canonical_state_change calculate_hash txs strict_subpool_cleanup pool schedule =
     (if \<not> strict_subpool_cleanup then
        (case unwrap_all (map interop_fee_number_of txs) of
           None \<Rightarrow> None
         | Some numbers \<Rightarrow>
             if numbers = [] then Some (Ready (None, pool, schedule))
             else (case ifp_next_interop_fee_number pool of
                     None \<Rightarrow> None
                   | Some n \<Rightarrow> Some (Ready (Some (last numbers),
                       pool\<lparr> ifp_next_interop_fee_number := Some (max n (last numbers + 1)) \<rparr>, schedule))))
      else consume_fee_txs calculate_hash txs None pool schedule)"

subsection \<open>Protocol upgrades\<close>

record upgrade_subpool =
  up_current_protocol_version :: "protocol_semantic_version option"
  up_sender :: bool
  up_pending_upgrades :: "upgrade_info list"

definition upgrade_subpool_default :: upgrade_subpool where
  "upgrade_subpool_default =
     \<lparr> up_current_protocol_version = None, up_sender = False, up_pending_upgrades = [] \<rparr>"

definition upgrade_init :: "protocol_semantic_version \<Rightarrow> upgrade_subpool \<Rightarrow> upgrade_subpool option" where
  "upgrade_init current_protocol_version pool = do {
     assert_that (up_current_protocol_version pool = None);
     Some (pool\<lparr> up_current_protocol_version := Some current_protocol_version \<rparr>) }"

datatype upgrade_stream_state = UpgradeEmpty "upgrade_info list" | UpgradePending upgrade_info | UpgradeClosed

definition upgrade_info_stream :: "upgrade_subpool \<Rightarrow> upgrade_stream_state \<times> upgrade_subpool" where
  "upgrade_info_stream pool =
     (if up_pending_upgrades pool \<noteq> [] then UpgradePending (last (up_pending_upgrades pool)) else UpgradeEmpty [],
      pool\<lparr> up_sender := True \<rparr>)"

definition upgrade_insert ::
    "upgrade_info \<Rightarrow> upgrade_subpool \<Rightarrow> upgrade_stream_state \<Rightarrow> (upgrade_subpool \<times> upgrade_stream_state) poll" where
  "upgrade_insert upgrade pool stream =
     (let pushed = pool\<lparr> up_pending_upgrades := upgrade # up_pending_upgrades pool \<rparr> in
      if up_sender pool then
        (case stream of
           UpgradeEmpty buffered \<Rightarrow>
             if length buffered < 1 then Ready (pushed, UpgradeEmpty (buffered @ [upgrade])) else Pending
         | _ \<Rightarrow> Ready (pushed\<lparr> up_sender := False \<rparr>, stream))
      else Ready (pushed, stream))"

definition upgrade_poll_next ::
    "upgrade_subpool \<Rightarrow> upgrade_stream_state \<Rightarrow> (upgrade_info option \<times> upgrade_stream_state) poll" where
  "upgrade_poll_next pool stream =
     (case stream of
        UpgradeEmpty [] \<Rightarrow> if up_sender pool then Pending else Ready (None, UpgradeClosed)
      | UpgradeEmpty (upgrade # _) \<Rightarrow> Ready (Some upgrade, UpgradeClosed)
      | UpgradePending upgrade \<Rightarrow> Ready (Some upgrade, UpgradeClosed)
      | UpgradeClosed \<Rightarrow> Ready (None, UpgradeClosed))"

definition upgrade_arrive :: "upgrade_info \<Rightarrow> upgrade_subpool \<Rightarrow> upgrade_subpool" where
  "upgrade_arrive upgrade pool = pool\<lparr> up_sender := False, up_pending_upgrades := upgrade # up_pending_upgrades pool \<rparr>"

definition upgrade_pop_back :: "upgrade_subpool \<Rightarrow> (upgrade_info \<times> upgrade_subpool) option" where
  "upgrade_pop_back pool =
     (if up_pending_upgrades pool = [] then None
      else Some (last (up_pending_upgrades pool),
                 pool\<lparr> up_pending_upgrades := butlast (up_pending_upgrades pool) \<rparr>))"

definition upgrade_pop_wait ::
    "upgrade_subpool \<Rightarrow> upgrade_info list list \<Rightarrow> (upgrade_info \<times> upgrade_subpool \<times> upgrade_info list list) poll" where
  "upgrade_pop_wait = pop_wait upgrade_arrive upgrade_pop_back"

lemma pop_wait_shorter:
  "pop_wait insert_item pop s schedule = Ready (x, s', schedule') \<Longrightarrow> length schedule' < length schedule"
  by (induction insert_item pop s schedule rule: pop_wait.induct)
    (auto split: option.splits intro: less_SucI)

text \<open>The inner loop that skips fetched patch upgrades until one with a transaction comes.\<close>

function pop_upgrade_tx ::
    "upgrade_subpool \<Rightarrow> upgrade_info list list \<Rightarrow>
      (protocol_semantic_version \<times> l1_tx \<times> upgrade_subpool \<times> upgrade_info list list) poll" where
  "pop_upgrade_tx pool schedule =
     (case upgrade_pop_wait pool schedule of
        Pending \<Rightarrow> Pending
      | Ready (upgrade, pool, schedule) \<Rightarrow>
          (case ui_tx upgrade of
             Some pending_tx \<Rightarrow> Ready (ui_protocol_version upgrade, pending_tx, pool, schedule)
           | None \<Rightarrow> pop_upgrade_tx pool schedule))"
  by pat_completeness auto
termination
  by (relation "measure (length \<circ> snd)") (auto simp: upgrade_pop_wait_def dest: pop_wait_shorter)

fun pop_upgrade_txs ::
    "l1_tx list \<Rightarrow> protocol_semantic_version \<Rightarrow> upgrade_subpool \<Rightarrow> upgrade_info list list \<Rightarrow>
      (protocol_semantic_version \<times> upgrade_subpool \<times> upgrade_info list list) awaited" where
  "pop_upgrade_txs [] current pool schedule = Some (Ready (current, pool, schedule))"
| "pop_upgrade_txs (tx # txs) current pool schedule =
     await_then (Some (pop_upgrade_tx pool schedule)) (\<lambda>(current, pending_tx, pool, schedule).
       if tx = pending_tx then pop_upgrade_txs txs current pool schedule else None)"

text \<open>The loop that consumes patch upgrades until the version of the block is reached.\<close>

function reach_protocol_version ::
    "protocol_semantic_version \<Rightarrow> protocol_semantic_version \<Rightarrow> upgrade_subpool \<Rightarrow> upgrade_info list list \<Rightarrow>
      (protocol_semantic_version \<times> upgrade_subpool \<times> upgrade_info list list) awaited" where
  "reach_protocol_version protocol_version current pool schedule =
     (if current = protocol_version then Some (Ready (current, pool, schedule))
      else if current < protocol_version then
        (case upgrade_pop_wait pool schedule of
           Pending \<Rightarrow> Some Pending
         | Ready (upgrade, pool, schedule) \<Rightarrow>
             if ui_tx upgrade \<noteq> None then None
             else reach_protocol_version protocol_version (ui_protocol_version upgrade) pool schedule)
      else None)"
  by pat_completeness auto
termination
  by (relation "measure (\<lambda>(_, _, _, schedule). length schedule)") (auto simp: upgrade_pop_wait_def dest: pop_wait_shorter)

declare pop_upgrade_tx.simps [simp del] reach_protocol_version.simps [simp del]

text \<open>The retention of reliable upgrades takes the lock once itself.\<close>

definition upgrade_on_canonical_state_change ::
    "protocol_semantic_version \<Rightarrow> l1_tx list \<Rightarrow> upgrade_subpool \<Rightarrow> upgrade_info list list \<Rightarrow>
      (upgrade_subpool \<times> upgrade_info list list) awaited" where
  "upgrade_on_canonical_state_change protocol_version txs pool schedule =
     (case up_current_protocol_version pool of
        None \<Rightarrow> None
      | Some current \<Rightarrow>
          if txs = [] \<and> protocol_version = current then Some (Ready (pool, schedule))
          else (case schedule of
                  [] \<Rightarrow> Some Pending
                | arrivals # schedule \<Rightarrow>
                    (let pool = fold upgrade_arrive arrivals pool;
                         pool = pool\<lparr> up_pending_upgrades :=
                           filter (\<lambda>u. MIN_VERSION_WITH_RELIABLE_UPGRADE_LOGS \<le> ui_protocol_version u)
                             (up_pending_upgrades pool) \<rparr>
                     in await_then
                          (if protocol_version < MIN_VERSION_WITH_RELIABLE_UPGRADE_LOGS
                           then Some (Ready (protocol_version, pool, schedule))
                           else await_then (pop_upgrade_txs txs current pool schedule)
                                  (\<lambda>(current, pool, schedule). reach_protocol_version protocol_version current pool schedule))
                          (\<lambda>(current, pool, schedule).
                             Some (Ready (pool\<lparr> up_current_protocol_version := Some current \<rparr>, schedule))))))"

subsection \<open>Queues that are waited for\<close>

text \<open>What the consumers rely on: inserted items are appended to the contents, as long as they
  fit, and the oldest item is popped.\<close>

locale waiting_queue =
  fixes contents :: "'s \<Rightarrow> 'i list" and fits :: "'s \<Rightarrow> 'i list \<Rightarrow> bool"
    and insert_item :: "'i \<Rightarrow> 's \<Rightarrow> 's" and pop :: "'s \<Rightarrow> ('i \<times> 's) option"
  assumes contents_arrivals: "fits s xs \<Longrightarrow> contents (fold insert_item xs s) = contents s @ xs"
    and fits_arrivals: "fits s (xs @ ys) \<Longrightarrow> fits s xs \<and> fits (fold insert_item xs s) ys"
    and pop_None: "pop s = None \<longleftrightarrow> contents s = []"
    and contents_pop: "pop s = Some (x, s') \<Longrightarrow> contents s = x # contents s'"
    and fits_pop: "pop s = Some (x, s') \<Longrightarrow> fits s xs \<Longrightarrow> fits s' xs"
begin

lemma pop_wait_sound:
  assumes "pop_wait insert_item pop s schedule = Ready (x, s', schedule')" "fits s (concat schedule)"
  shows "contents s @ concat schedule = x # contents s' @ concat schedule' \<and> fits s' (concat schedule')"
  using assms
proof (induction schedule arbitrary: s)
  case (Cons arrivals schedule)
  let ?s = "fold insert_item arrivals s"
  have fits: "fits s arrivals" "fits ?s (concat schedule)"
    using fits_arrivals [of s arrivals "concat schedule"] Cons.prems(2) by simp_all
  then have c: "contents ?s = contents s @ arrivals" by (simp add: contents_arrivals)
  show ?case
  proof (cases "pop ?s")
    case None
    then show ?thesis using Cons.IH [of ?s] Cons.prems(1) fits(2) c by simp
  next
    case (Some p)
    then obtain y t where p: "pop ?s = Some (y, t)" by (cases p) simp
    then show ?thesis using Cons.prems(1) contents_pop [OF p] fits_pop [OF p fits(2)] c by simp
  qed
qed simp

lemma pop_wait_next:
  assumes "contents s = x # xs" "fits s (concat (arrivals # schedule))"
  shows "\<exists>s'. pop_wait insert_item pop s (arrivals # schedule) = Ready (x, s', schedule) \<and>
    contents s' = xs @ arrivals \<and> fits s' (concat schedule)"
proof -
  let ?s = "fold insert_item arrivals s"
  have fits: "fits s arrivals" "fits ?s (concat schedule)"
    using fits_arrivals [of s arrivals "concat schedule"] assms(2) by simp_all
  then have c: "contents ?s = x # xs @ arrivals" using assms(1) by (simp add: contents_arrivals)
  then have "pop ?s \<noteq> None" by (simp add: pop_None del: not_None_eq)
  then obtain y t where p: "pop ?s = Some (y, t)" by auto
  then show ?thesis using contents_pop [OF p] fits_pop [OF p fits(2)] c by simp
qed

lemma pop_wait_Pending:
  assumes "pop_wait insert_item pop s schedule = Pending" "fits s (concat schedule)"
  shows "concat schedule = [] \<and> (schedule \<noteq> [] \<longrightarrow> contents s = [])"
  using assms
proof (induction schedule arbitrary: s)
  case (Cons arrivals schedule)
  let ?s = "fold insert_item arrivals s"
  have fits: "fits s arrivals" "fits ?s (concat schedule)"
    using fits_arrivals [of s arrivals "concat schedule"] Cons.prems(2) by simp_all
  then have c: "contents ?s = contents s @ arrivals" by (simp add: contents_arrivals)
  have n: "pop ?s = None" using Cons.prems(1) by (auto split: option.splits)
  then have "contents s @ arrivals = []" using c by (simp add: pop_None)
  then show ?case using Cons.IH [of ?s] Cons.prems(1) fits(2) n by simp
qed simp

end

lemma l1_arrivals: "rev (l1p_pending_txs (fold l1_arrive xs pool)) = rev (l1p_pending_txs pool) @ xs"
  by (induction xs arbitrary: pool) (simp_all add: l1_arrive_def)

interpretation l1q: waiting_queue "\<lambda>pool. rev (l1p_pending_txs pool)" "\<lambda>_ _. True" l1_arrive l1_pop_back
proof
  show "rev (l1p_pending_txs (fold l1_arrive xs s)) = rev (l1p_pending_txs s) @ xs" for s xs
    by (rule l1_arrivals)
  show "rev (l1p_pending_txs s) = x # rev (l1p_pending_txs s')" if "l1_pop_back s = Some (x, s')" for s x s'
    using that by (cases "l1p_pending_txs s" rule: rev_cases) (auto simp: l1_pop_back_def split: if_splits)
qed (simp_all add: l1_pop_back_def)

lemma upgrade_arrivals:
  "rev (up_pending_upgrades (fold upgrade_arrive xs pool)) = rev (up_pending_upgrades pool) @ xs"
  "up_current_protocol_version (fold upgrade_arrive xs pool) = up_current_protocol_version pool"
  by (induction xs arbitrary: pool) (simp_all add: upgrade_arrive_def)

interpretation upq: waiting_queue "\<lambda>pool. rev (up_pending_upgrades pool)" "\<lambda>_ _. True" upgrade_arrive upgrade_pop_back
proof
  show "rev (up_pending_upgrades (fold upgrade_arrive xs s)) = rev (up_pending_upgrades s) @ xs" for s xs
    by (rule upgrade_arrivals)
  show "rev (up_pending_upgrades s) = x # rev (up_pending_upgrades s')" if "upgrade_pop_back s = Some (x, s')" for s x s'
    using that by (cases "up_pending_upgrades s" rule: rev_cases) (auto simp: upgrade_pop_back_def split: if_splits)
qed (simp_all add: upgrade_pop_back_def)

text \<open>Roots fit when they come in the order of their log ids.\<close>

definition roots_in_order :: "interop_roots_subpool \<Rightarrow> (u64 \<times> interop_root) list \<Rightarrow> bool" where
  "roots_in_order pool roots = btm_wf (irp_pending_roots pool @ roots)"

lemma add_root_arrivals:
  "roots_in_order pool roots \<Longrightarrow> irp_pending_roots (fold add_root roots pool) = irp_pending_roots pool @ roots"
proof (induction roots arbitrary: pool)
  case (Cons root roots)
  have "btm_insert (fst root) (snd root) (irp_pending_roots pool) = irp_pending_roots pool @ [root]"
    using Cons.prems by (cases root) (auto simp: roots_in_order_def btm_wf_append btm_wf_Cons intro!: btm_insert_last)
  then have "irp_pending_roots (add_root root pool) = irp_pending_roots pool @ [root]" by (simp add: add_root_def)
  then show ?case using Cons.IH [of "add_root root pool"] Cons.prems by (simp add: roots_in_order_def)
qed simp

interpretation irq: waiting_queue irp_pending_roots roots_in_order add_root interop_pop_first
proof
  show "irp_pending_roots (fold add_root xs s) = irp_pending_roots s @ xs" if "roots_in_order s xs" for s xs
    using that by (rule add_root_arrivals)
  show "roots_in_order s xs \<and> roots_in_order (fold add_root xs s) ys" if r: "roots_in_order s (xs @ ys)" for s xs ys
  proof -
    have "roots_in_order s xs" using r by (simp add: roots_in_order_def btm_wf_append)
    then show ?thesis using r add_root_arrivals [of s xs] by (simp add: roots_in_order_def)
  qed
  show "irp_pending_roots s = x # irp_pending_roots s'" if "interop_pop_first s = Some (x, s')" for s x s'
    using that by (auto simp: interop_pop_first_def split: list.splits)
  show "roots_in_order s' xs" if "interop_pop_first s = Some (x, s')" "roots_in_order s xs" for s x s' xs
    using that by (cases x) (auto simp: interop_pop_first_def roots_in_order_def btm_wf_Cons split: list.splits)
qed (simp add: interop_pop_first_def split: list.split)

subsection \<open>The life of the L1 subpool\<close>

text \<open>The watcher inserts, a stream is opened for a block and polled while it is built, and the
  executed transactions are consumed once the stream is gone.  \<open>served\<close> is what the current
  stream has yielded, \<open>inserted\<close> and \<open>executed\<close> are the histories.\<close>

record l1_world =
  lw_pool :: l1_subpool
  lw_stream :: "l1_transactions_stream option"
  lw_served :: "l1_tx list"
  lw_inserted :: "l1_tx list"
  lw_executed :: "l1_tx list"

inductive l1_step :: "l1_world \<Rightarrow> l1_world \<Rightarrow> bool" where
  watcher: "l1_insert tx (lw_pool w) (lw_stream w) = Ready (pool, stream) \<Longrightarrow>
     l1_step w (w\<lparr> lw_pool := pool, lw_stream := stream, lw_inserted := lw_inserted w @ [tx] \<rparr>)"
| opened: "l1_best_transactions_stream (lw_pool w) = (s, pool) \<Longrightarrow>
     l1_step w (w\<lparr> lw_pool := pool, lw_stream := Some s, lw_served := [] \<rparr>)"
| polled: "lw_stream w = Some s \<Longrightarrow> l1_poll_next (lw_pool w) s = Ready (Some tx, s') \<Longrightarrow>
     l1_step w (w\<lparr> lw_stream := Some s', lw_served := lw_served w @ [tx] \<rparr>)"
| executed: "l1_on_canonical_state_change txs (lw_pool w) schedule = Some (Ready (r, pool, [])) \<Longrightarrow>
     l1_step w (w\<lparr> lw_pool := pool, lw_stream := None, lw_served := [],
                  lw_inserted := lw_inserted w @ concat schedule, lw_executed := lw_executed w @ txs \<rparr>)"

definition l1_world_new :: "usize \<Rightarrow> l1_world" where
  "l1_world_new channel_size =
     \<lparr> lw_pool = l1_subpool_new channel_size, lw_stream = None, lw_served = [], lw_inserted = [], lw_executed = [] \<rparr>"

definition l1_invariant :: "l1_world \<Rightarrow> bool" where
  "l1_invariant w \<longleftrightarrow>
     lw_executed w @ rev (l1p_pending_txs (lw_pool w)) = lw_inserted w \<and>
     (case lw_stream w of
        None \<Rightarrow> True
      | Some s \<Rightarrow> l1p_sender (lw_pool w) \<and>
          lw_served w @ rev (l1s_pending_txs s) @ l1s_receiver s = rev (l1p_pending_txs (lw_pool w)))"

lemma l1_pop_executed_sound:
  assumes "l1_pop_executed txs i pool schedule = Some (Ready (j, pool', schedule'))"
  shows "rev (l1p_pending_txs pool) @ concat schedule = txs @ rev (l1p_pending_txs pool') @ concat schedule' \<and>
    j = (if txs = [] then i else priority_id (last txs))"
  using assms
proof (induction txs arbitrary: i pool schedule)
  case (Cons tx txs)
  obtain p pool1 schedule1 where p: "l1_pop_wait pool schedule = Ready (p, pool1, schedule1)"
    and q: "tx = p" "l1_pop_executed txs (priority_id p) pool1 schedule1 = Some (Ready (j, pool', schedule'))"
    using Cons.prems by (auto simp: await_then_Ready_iff split: if_splits)
  have "rev (l1p_pending_txs pool) @ concat schedule = p # rev (l1p_pending_txs pool1) @ concat schedule1"
    using l1q.pop_wait_sound p by (simp add: l1_pop_wait_def)
  then show ?case using Cons.IH [OF q(2)] q(1) by simp
qed simp

lemma l1_consumed:
  assumes "l1_on_canonical_state_change txs pool schedule = Some (Ready (r, pool', schedule'))"
  shows "rev (l1p_pending_txs pool) @ concat schedule = txs @ rev (l1p_pending_txs pool') @ concat schedule'"
    and "r = (if txs = [] then None else Some (priority_id (last txs)))"
  using assms l1_pop_executed_sound [of txs 0 pool schedule]
  by (auto simp: l1_on_canonical_state_change_def await_then_Ready_iff split: if_splits)

lemma l1_pop_executed_ready:
  assumes "rev (l1p_pending_txs pool) = txs @ rest" "length txs \<le> length schedule"
  shows "\<exists>pool'. l1_pop_executed txs i pool schedule =
    Some (Ready (if txs = [] then i else priority_id (last txs), pool', drop (length txs) schedule))"
  using assms
proof (induction txs arbitrary: i pool schedule rest)
  case (Cons tx txs)
  then obtain arrivals schedule1 where s: "schedule = arrivals # schedule1" by (cases schedule) auto
  obtain pool1 where p: "l1_pop_wait pool schedule = Ready (tx, pool1, schedule1)"
    and c: "rev (l1p_pending_txs pool1) = txs @ rest @ arrivals"
    using l1q.pop_wait_next [of pool tx "txs @ rest" arrivals schedule1] Cons.prems(1)
    by (auto simp: s l1_pop_wait_def)
  show ?case using Cons.IH [OF c, of schedule1 "priority_id tx"] Cons.prems(2) p by (auto simp: s)
qed simp

lemma l1_pop_executed_drained:
  assumes "rev (l1p_pending_txs pool) = txs @ rest" "length txs \<le> length schedule"
  shows "\<exists>pool'. l1_on_canonical_state_change txs pool schedule =
      Some (Ready (if txs = [] then None else Some (priority_id (last txs)), pool', drop (length txs) schedule)) \<and>
    rev (l1p_pending_txs pool') = rest @ concat (take (length txs) schedule)"
proof -
  obtain pool' where p: "l1_on_canonical_state_change txs pool schedule =
      Some (Ready (if txs = [] then None else Some (priority_id (last txs)), pool', drop (length txs) schedule))"
    using l1_pop_executed_ready [OF assms, of 0] by (cases "txs = []") (auto simp: l1_on_canonical_state_change_def)
  have "concat schedule = concat (take (length txs) schedule) @ concat (drop (length txs) schedule)"
    by (metis append_take_drop_id concat_append)
  then show ?thesis using p l1_consumed(1) [OF p] assms(1) by simp
qed

lemma l1_invariant_step: "l1_step w w' \<Longrightarrow> l1_invariant w \<Longrightarrow> l1_invariant w'"
proof (induction rule: l1_step.induct)
  case (watcher tx w pool stream)
  then show ?case
    by (auto simp: l1_invariant_def l1_insert_def Let_def split: if_splits option.splits)
next
  case (polled w s tx s')
  then show ?case
    by (cases "l1s_pending_txs s" rule: rev_cases)
      (auto simp: l1_invariant_def l1_poll_next_def split: if_splits list.splits)
next
  case (executed txs w schedule r pool)
  then have "lw_inserted w @ concat schedule = lw_executed w @ rev (l1p_pending_txs (lw_pool w)) @ concat schedule"
    by (simp add: l1_invariant_def)
  then show ?case using l1_consumed(1) [OF executed(1)] by (simp add: l1_invariant_def)
qed (auto simp: l1_invariant_def l1_best_transactions_stream_def)

lemma l1_reachable_invariant: "l1_step\<^sup>*\<^sup>* (l1_world_new n) w \<Longrightarrow> l1_invariant w"
  by (induction rule: rtranclp_induct)
    (auto simp: l1_invariant_step, simp add: l1_invariant_def l1_world_new_def l1_subpool_new_def)

text \<open>C20. Whatever the interleaving of the watcher with the building and the execution of blocks,
  the executed priority transactions are the inserted ones in their order, without gaps.\<close>

theorem priority_txs_execute_in_order:
  "l1_step\<^sup>*\<^sup>* (l1_world_new n) w \<Longrightarrow>
     lw_inserted w = lw_executed w @ rev (l1p_pending_txs (lw_pool w))"
  using l1_reachable_invariant by (simp add: l1_invariant_def)

text \<open>A block whose priority transactions are the first ones its stream served is consumed
  without a panic and without waiting, whatever the watcher inserts meanwhile, and the call
  returns the id of the last one.\<close>

theorem served_priority_txs_are_consumed:
  assumes "l1_step\<^sup>*\<^sup>* (l1_world_new n) w" "lw_stream w \<noteq> None" "txs = take k (lw_served w)"
    and "length txs \<le> length schedule"
  shows "\<exists>pool. l1_on_canonical_state_change txs (lw_pool w) schedule =
    Some (Ready (if txs = [] then None else Some (priority_id (last txs)), pool, drop (length txs) schedule))"
proof -
  obtain s :: l1_transactions_stream
    where "lw_served w @ rev (l1s_pending_txs s) @ l1s_receiver s = rev (l1p_pending_txs (lw_pool w))"
    using l1_reachable_invariant [OF assms(1)] assms(2) by (auto simp: l1_invariant_def)
  then have "rev (l1p_pending_txs (lw_pool w)) = txs @ drop k (lw_served w) @ rev (l1s_pending_txs s) @ l1s_receiver s"
    using assms(3) by (metis append.assoc append_take_drop_id)
  then show ?thesis using l1_pop_executed_drained [OF _ assms(4)] by blast
qed

subsection \<open>The life of the interop roots subpool\<close>

text \<open>The watcher delivers roots in the order of their log ids.\<close>

record interop_world =
  iw_pool :: interop_roots_subpool
  iw_stream :: interop_stream
  iw_served :: "system_tx_envelope list"

inductive interop_step :: "(system_tx \<Rightarrow> tx_hash) \<Rightarrow> interop_world \<Rightarrow> interop_world \<Rightarrow> bool" for calculate_hash where
  root_found: "roots_in_order (iw_pool w) [root] \<Longrightarrow>
     interop_step calculate_hash w (w\<lparr> iw_pool := add_root root (iw_pool w) \<rparr>)"
| stream_opened: "interop_step calculate_hash w (w\<lparr> iw_stream := interop_stream_new, iw_served := [] \<rparr>)"
| tx_served: "interop_poll calculate_hash t now (iw_pool w) (iw_stream w) = Some (Ready (tx, s)) \<Longrightarrow>
     interop_step calculate_hash w (w\<lparr> iw_stream := s, iw_served := iw_served w @ [tx] \<rparr>)"
| block_executed: "roots_in_order (iw_pool w) (concat schedule) \<Longrightarrow>
     interop_on_canonical_state_change calculate_hash txs (iw_pool w) schedule = Some (Ready (r, pool, [])) \<Longrightarrow>
     interop_step calculate_hash w (w\<lparr> iw_pool := pool, iw_stream := interop_stream_new, iw_served := [] \<rparr>)"

definition interop_world_new :: "usize \<Rightarrow> interop_world" where
  "interop_world_new n =
     \<lparr> iw_pool = interop_roots_subpool_new n, iw_stream = interop_stream_new, iw_served = [] \<rparr>"

definition interop_envelope :: "(system_tx \<Rightarrow> tx_hash) \<Rightarrow> (u64 \<times> interop_root) list \<Rightarrow> system_tx_envelope" where
  "interop_envelope calculate_hash roots = import_interop_roots calculate_hash (map snd roots) (fst (last roots))"

text \<open>The pending roots are those of the served transactions, those of the buffer and those the
  stream has not read, in this order.\<close>

definition served_runs :: "interop_roots_subpool \<Rightarrow> interop_stream \<Rightarrow> (u64 \<times> interop_root) list list \<Rightarrow> bool" where
  "served_runs pool s runs \<longleftrightarrow>
     btm_wf (irp_pending_roots pool) \<and> [] \<notin> set runs \<and>
     irp_pending_roots pool = concat runs @ rev (is_buffer s) @ btm_range_from (is_cursor s) (irp_pending_roots pool) \<and>
     (is_cursor s = 0 \<or> (\<exists>root \<in> set (irp_pending_roots pool). is_cursor s = fst root + 1))"

definition interop_invariant :: "(system_tx \<Rightarrow> tx_hash) \<Rightarrow> interop_world \<Rightarrow> bool" where
  "interop_invariant calculate_hash w \<longleftrightarrow>
     (\<exists>runs. iw_served w = map (interop_envelope calculate_hash) runs \<and> served_runs (iw_pool w) (iw_stream w) runs)"

text \<open>The transaction a poll yields imports the oldest roots of the buffer.\<close>

lemma fold_interop_collect:
  "fold (\<lambda>(log_id, root) s. \<lparr> is_cursor = log_id + 1, is_buffer = (log_id, root) # is_buffer s \<rparr>) roots s =
     \<lparr> is_cursor = (if roots = [] then is_cursor s else fst (last roots) + 1), is_buffer = rev roots @ is_buffer s \<rparr>"
  by (induction roots arbitrary: s) auto

lemma interop_collect_eq:
  "interop_collect pool s =
     (let roots = btm_range_from (is_cursor s) (irp_pending_roots pool) in
      \<lparr> is_cursor = (if roots = [] then is_cursor s else fst (last roots) + 1), is_buffer = rev roots @ is_buffer s \<rparr>)"
  unfolding interop_collect_def fold_interop_collect Let_def ..

lemma interop_poll_Ready:
  assumes "interop_poll calculate_hash t now pool s = Some (Ready (tx, s'))"
  defines "roots \<equiv> take (irp_interop_roots_per_tx pool) (rev (is_buffer (interop_collect pool s)))"
  shows "tx = interop_envelope calculate_hash roots" "roots \<noteq> []" "is_cursor s' = is_cursor (interop_collect pool s)"
    "rev (is_buffer (interop_collect pool s)) = roots @ rev (is_buffer s')"
proof -
  let ?b = "is_buffer (interop_collect pool s)"
  let ?n = "length ?b - min (length ?b) (irp_interop_roots_per_tx pool)"
  have r: "rev (drop ?n ?b) = roots"
    by (cases "length ?b \<le> irp_interop_roots_per_tx pool") (simp_all add: roots_def take_rev min_def)
  have e: "tx = interop_envelope calculate_hash (rev (drop ?n ?b))" "rev (drop ?n ?b) \<noteq> []"
    "s' = (interop_collect pool s)\<lparr> is_buffer := take ?n ?b \<rparr>"
    using assms(1) by (auto simp: interop_poll_def interop_envelope_def Let_def split: if_splits)
  show "tx = interop_envelope calculate_hash roots" "roots \<noteq> []" using e(1,2) unfolding r by simp_all
  show "is_cursor s' = is_cursor (interop_collect pool s)" using e(3) by simp
  have "rev ?b = rev (drop ?n ?b) @ rev (take ?n ?b)" by (metis append_take_drop_id rev_append)
  then show "rev ?b = roots @ rev (is_buffer s')" using e(3) unfolding r by simp
qed

lemma btm_range_from_0 [simp]: "btm_range_from (0::nat) m = m"
  by (simp add: btm_range_from_def split_beta)

lemma served_runs_new: "btm_wf (irp_pending_roots pool) \<Longrightarrow> served_runs pool interop_stream_new []"
  by (simp add: served_runs_def interop_stream_new_def)

lemma served_runs_add_root:
  assumes "served_runs pool s runs" "roots_in_order pool [root]"
  shows "served_runs (add_root root pool) s runs"
proof -
  have p: "irp_pending_roots (add_root root pool) = irp_pending_roots pool @ [root]"
    using add_root_arrivals [OF assms(2)] by simp
  have less: "fst k < fst root" if "k \<in> set (irp_pending_roots pool)" for k
    using assms(2) that by (cases root) (auto simp: roots_in_order_def btm_wf_append)
  then have "is_cursor s \<le> fst root" using assms(1) by (fastforce simp: served_runs_def)
  then have "btm_range_from (is_cursor s) (irp_pending_roots pool @ [root]) =
      btm_range_from (is_cursor s) (irp_pending_roots pool) @ [root]"
    by (simp add: btm_range_from_def split_beta)
  then show ?thesis using assms by (auto simp: served_runs_def p roots_in_order_def)
qed

lemma btm_wf_last_le:
  assumes "btm_wf m" "m = m' @ [k]" "root \<in> set m"
  shows "fst root \<le> fst k"
  using assms by (auto simp: btm_wf_append intro: less_imp_le)

lemma btm_range_from_all_less: "\<forall>root \<in> set m. fst root < k \<Longrightarrow> btm_range_from k m = []"
  by (auto simp: btm_range_from_def filter_empty_conv)

lemma served_runs_poll:
  assumes r: "served_runs pool s runs" and p: "interop_poll calculate_hash t now pool s = Some (Ready (tx, s'))"
  shows "\<exists>roots. tx = interop_envelope calculate_hash roots \<and> served_runs pool s' (runs @ [roots])"
proof -
  let ?new = "btm_range_from (is_cursor s) (irp_pending_roots pool)"
  obtain roots where q: "tx = interop_envelope calculate_hash roots" "roots \<noteq> []"
    "is_cursor s' = is_cursor (interop_collect pool s)"
    "rev (is_buffer (interop_collect pool s)) = roots @ rev (is_buffer s')"
    using interop_poll_Ready [OF p] by blast
  have b: "rev (is_buffer s) @ ?new = roots @ rev (is_buffer s')"
    using q(4) by (simp add: interop_collect_eq Let_def)
  have pend: "irp_pending_roots pool = concat runs @ rev (is_buffer s) @ ?new" and wf: "btm_wf (irp_pending_roots pool)"
    using r by (simp_all add: served_runs_def)
  have c: "(is_cursor s' = 0 \<or> (\<exists>root \<in> set (irp_pending_roots pool). is_cursor s' = fst root + 1)) \<and>
      btm_range_from (is_cursor s') (irp_pending_roots pool) = []"
  proof (cases "?new = []")
    case True
    then have "is_cursor s' = is_cursor s" using q(3) by (simp add: interop_collect_eq)
    then show ?thesis using True r unfolding served_runs_def by metis
  next
    case False
    have "set ?new \<subseteq> set (irp_pending_roots pool)" by (auto simp: btm_range_from_def)
    then have l: "is_cursor s' = fst (last ?new) + 1" "last ?new \<in> set (irp_pending_roots pool)"
      using q(3) False last_in_set [OF False] by (auto simp: interop_collect_eq Let_def)
    have "irp_pending_roots pool = (concat runs @ rev (is_buffer s) @ butlast ?new) @ [last ?new]"
      using pend False by (metis append.assoc append_butlast_last_id)
    then have "fst root \<le> fst (last ?new)" if "root \<in> set (irp_pending_roots pool)" for root
      by (rule btm_wf_last_le [OF wf _ that])
    then have "\<forall>root \<in> set (irp_pending_roots pool). fst root < is_cursor s'" using l(1) by (simp add: less_Suc_eq_le)
    then have "btm_range_from (is_cursor s') (irp_pending_roots pool) = []" by (rule btm_range_from_all_less)
    then show ?thesis using l by blast
  qed
  have "irp_pending_roots pool = concat (runs @ [roots]) @ rev (is_buffer s') @ btm_range_from (is_cursor s') (irp_pending_roots pool)"
    using pend b c by (metis append.assoc append.right_neutral concat.simps concat_append)
  moreover have "[] \<notin> set (runs @ [roots])" using r q(2) by (simp add: served_runs_def)
  ultimately have "served_runs pool s' (runs @ [roots])" using wf c unfolding served_runs_def by blast
  then show ?thesis using q(1) by blast
qed

text \<open>Consuming: the roots of each transaction are popped again and give the same envelope.\<close>

lemma pop_roots_ready:
  assumes "irp_pending_roots pool = roots @ rest" "length roots \<le> length schedule" "roots_in_order pool (concat schedule)"
  shows "\<exists>pool'. pop_roots (length roots) acc pool schedule = Ready (acc @ roots, pool', drop (length roots) schedule) \<and>
    irp_pending_roots pool' = rest @ concat (take (length roots) schedule) \<and>
    roots_in_order pool' (concat (drop (length roots) schedule))"
  using assms
proof (induction roots arbitrary: acc pool schedule rest)
  case (Cons root roots)
  then obtain arrivals schedule1 where s: "schedule = arrivals # schedule1" by (cases schedule) auto
  obtain pool1 where p: "interop_pop_wait pool schedule = Ready (root, pool1, schedule1)"
    and c: "irp_pending_roots pool1 = roots @ rest @ arrivals" "roots_in_order pool1 (concat schedule1)"
    using irq.pop_wait_next [of pool root "roots @ rest" arrivals schedule1] Cons.prems(1,3)
    by (auto simp: s interop_pop_wait_def)
  show ?case using Cons.IH [OF c(1) _ c(2), of "acc @ [root]"] Cons.prems(2) p by (auto simp: s)
qed simp

lemma system_subtype_interop_envelope [simp]:
  "system_subtype (interop_envelope calculate_hash roots) = ImportInteropRoots (length roots)"
  by (simp add: interop_envelope_def import_interop_roots_def system_subtype_def Let_def)

lemma interop_pop_executed_ready:
  assumes "irp_pending_roots pool = concat runs @ rest" "[] \<notin> set runs" "length (concat runs) \<le> length schedule"
    and "roots_in_order pool (concat schedule)"
  shows "\<exists>pool'. interop_pop_executed calculate_hash (map (interop_envelope calculate_hash) runs) i pool schedule =
      Some (Ready (if runs = [] then i else Some (fst (last (concat runs))), pool', drop (length (concat runs)) schedule)) \<and>
    irp_pending_roots pool' = rest @ concat (take (length (concat runs)) schedule)"
  using assms
proof (induction runs arbitrary: i pool schedule rest)
  case (Cons roots runs)
  let ?n = "length roots"
  obtain pool1 where p: "pop_roots ?n [] pool schedule = Ready (roots, pool1, drop ?n schedule)"
    and c: "irp_pending_roots pool1 = concat runs @ rest @ concat (take ?n schedule)"
      "roots_in_order pool1 (concat (drop ?n schedule))"
    using pop_roots_ready [of pool roots "concat runs @ rest" schedule "[]"] Cons.prems by auto
  have ne: "roots \<noteq> []" "[] \<notin> set runs" using Cons.prems(2) by auto
  have l: "length (concat runs) \<le> length (drop ?n schedule)" using Cons.prems(3) by simp
  obtain pool2 where IH: "interop_pop_executed calculate_hash (map (interop_envelope calculate_hash) runs)
        (Some (fst (last roots))) pool1 (drop ?n schedule) =
      Some (Ready (if runs = [] then Some (fst (last roots)) else Some (fst (last (concat runs))), pool2,
        drop (length (concat runs)) (drop ?n schedule)))"
    and c2: "irp_pending_roots pool2 =
      (rest @ concat (take ?n schedule)) @ concat (take (length (concat runs)) (drop ?n schedule))"
    using Cons.IH [OF c(1) ne(2) l c(2)] by blast
  have last: "last (concat (roots # runs)) = (if runs = [] then last roots else last (concat runs))"
    using ne by (cases runs rule: rev_cases) (auto simp: last_append)
  have "concat (take ?n schedule) @ concat (take (length (concat runs)) (drop ?n schedule)) =
      concat (take (?n + length (concat runs)) schedule)"
    by (simp add: take_add)
  then show ?case using IH p c2 ne(1) last
    by (auto simp: interop_envelope_def [symmetric] add.commute)
qed simp

lemma interop_run_consumed:
  assumes "irp_pending_roots pool = concat runs @ rest" "[] \<notin> set runs" "length (concat runs) \<le> length schedule"
    and "roots_in_order pool (concat schedule)"
  shows "\<exists>pool'. interop_on_canonical_state_change calculate_hash (map (interop_envelope calculate_hash) runs) pool schedule =
      Some (Ready (if runs = [] then None else Some (fst (last (concat runs))), pool', drop (length (concat runs)) schedule)) \<and>
    irp_pending_roots pool' = rest @ concat (take (length (concat runs)) schedule)"
  using interop_pop_executed_ready [OF assms, of calculate_hash None] assms(1)
  by (cases "runs = []") (auto simp: interop_on_canonical_state_change_def)

lemma pop_roots_sound:
  assumes "pop_roots n acc pool schedule = Ready (roots, pool', schedule')" "roots_in_order pool (concat schedule)"
  shows "\<exists>popped. roots = acc @ popped \<and>
    irp_pending_roots pool @ concat schedule = popped @ irp_pending_roots pool' @ concat schedule' \<and>
    roots_in_order pool' (concat schedule')"
  using assms
proof (induction n acc pool schedule rule: pop_roots.induct)
  case (2 n acc pool schedule)
  obtain root pool1 schedule1 where p: "interop_pop_wait pool schedule = Ready (root, pool1, schedule1)"
    using "2.prems"(1) by (auto split: poll.splits)
  have c: "irp_pending_roots pool @ concat schedule = root # irp_pending_roots pool1 @ concat schedule1"
    "roots_in_order pool1 (concat schedule1)"
    using irq.pop_wait_sound p "2.prems"(2) by (simp_all add: interop_pop_wait_def)
  show ?case using "2.IH" [OF p refl refl] "2.prems"(1) p c by auto
qed simp

lemma interop_pop_executed_in_order:
  assumes "interop_pop_executed calculate_hash txs i pool schedule = Some (Ready (j, pool', schedule'))"
    and "roots_in_order pool (concat schedule)"
  shows "roots_in_order pool' (concat schedule')"
  using assms
proof (induction txs arbitrary: i pool schedule)
  case (Cons tx txs)
  show ?case
  proof (cases "system_subtype tx")
    case (ImportInteropRoots n)
    obtain roots pool1 schedule1 k where p: "pop_roots n [] pool schedule = Ready (roots, pool1, schedule1)"
      and q: "interop_pop_executed calculate_hash txs k pool1 schedule1 = Some (Ready (j, pool', schedule'))"
      using Cons.prems(1) ImportInteropRoots by (auto simp: await_then_Ready_iff split: if_splits)
    show ?thesis using Cons.IH [OF q] pop_roots_sound [OF p Cons.prems(2)] by blast
  qed (use Cons in simp_all)
qed simp

lemma interop_invariant_step:
  "interop_step calculate_hash w w' \<Longrightarrow> interop_invariant calculate_hash w \<Longrightarrow> interop_invariant calculate_hash w'"
proof (induction rule: interop_step.induct)
  case (root_found w root)
  then show ?case by (auto simp: interop_invariant_def intro: served_runs_add_root)
next
  case (stream_opened w)
  then show ?case using served_runs_new by (auto simp: interop_invariant_def served_runs_def)
next
  case (tx_served t now w tx s)
  then obtain runs where r: "iw_served w = map (interop_envelope calculate_hash) runs" "served_runs (iw_pool w) (iw_stream w) runs"
    by (auto simp: interop_invariant_def)
  obtain roots where "tx = interop_envelope calculate_hash roots" "served_runs (iw_pool w) s (runs @ [roots])"
    using served_runs_poll [OF r(2) tx_served(1)] by blast
  then show ?case using r(1) by (auto simp: interop_invariant_def intro!: exI [of _ "runs @ [roots]"])
next
  case (block_executed w schedule txs r pool)
  have "roots_in_order pool [] \<or> txs = [] \<and> pool = iw_pool w"
    using block_executed(2) interop_pop_executed_in_order [of calculate_hash txs None "iw_pool w" schedule r pool "[]"]
      block_executed(1) by (auto simp: interop_on_canonical_state_change_def split: if_splits)
  then have "btm_wf (irp_pending_roots pool)"
    using block_executed(3) by (auto simp: roots_in_order_def interop_invariant_def served_runs_def)
  then show ?case using served_runs_new by (auto simp: interop_invariant_def)
qed

lemma interop_reachable_invariant:
  "(interop_step calculate_hash)\<^sup>*\<^sup>* (interop_world_new n) w \<Longrightarrow> interop_invariant calculate_hash w"
proof (induction rule: rtranclp_induct)
  case base
  show ?case
    using served_runs_new [of "interop_roots_subpool_new n"]
    by (auto simp: interop_invariant_def interop_world_new_def interop_roots_subpool_new_def)
qed (rule interop_invariant_step)

text \<open>The import transactions a stream serves, in batches of any size, are consumed without a
  panic and without waiting when the first of them are executed in a block: popping as many
  roots as each transaction announces rebuilds exactly its envelope.\<close>

theorem served_interop_txs_are_consumed:
  assumes "(interop_step calculate_hash)\<^sup>*\<^sup>* (interop_world_new n) w" "txs = take k (iw_served w)"
    and "roots_in_order (iw_pool w) (concat schedule)" "length (irp_pending_roots (iw_pool w)) \<le> length schedule"
  shows "\<exists>r pool rest. interop_on_canonical_state_change calculate_hash txs (iw_pool w) schedule =
    Some (Ready (r, pool, rest)) \<and> (r = None \<longleftrightarrow> txs = [])"
proof -
  obtain runs where r: "iw_served w = map (interop_envelope calculate_hash) runs" "served_runs (iw_pool w) (iw_stream w) runs"
    using interop_reachable_invariant [OF assms(1)] by (auto simp: interop_invariant_def)
  let ?runs = "take k runs"
  have txs: "txs = map (interop_envelope calculate_hash) ?runs" using assms(2) r(1) by (simp add: take_map)
  obtain rest where c: "irp_pending_roots (iw_pool w) = concat ?runs @ rest"
    using r(2) by (metis append.assoc append_take_drop_id concat_append served_runs_def)
  have "[] \<notin> set ?runs" using r(2) by (auto simp: served_runs_def dest: in_set_takeD)
  then show ?thesis
    using interop_run_consumed [OF c _ _ assms(3), of calculate_hash] assms(4) by (auto simp: txs c)
qed

subsection \<open>Upgrades and fees\<close>

lemma reach_protocol_version_settles:
  "reach_protocol_version protocol_version current pool schedule = Some (Ready (c, pool', schedule')) \<Longrightarrow> c = protocol_version"
proof (induction protocol_version current pool schedule rule: reach_protocol_version.induct)
  case (1 protocol_version current pool schedule)
  note eq = "1.prems" [unfolded reach_protocol_version.simps [of protocol_version current pool schedule]]
  show ?case
  proof (cases "current = protocol_version")
    case True
    then show ?thesis using eq by simp
  next
    case False
    then have less: "current < protocol_version" using eq by (simp split: if_splits)
    then obtain u pool1 schedule1 where p: "upgrade_pop_wait pool schedule = Ready (u, pool1, schedule1)"
      using False eq by (simp split: poll.splits prod.splits)
    then have t: "\<not> ui_tx u \<noteq> None" and
      "reach_protocol_version protocol_version (ui_protocol_version u) pool1 schedule1 = Some (Ready (c, pool', schedule'))"
      using False less eq by (simp_all split: if_splits)
    then show ?thesis using "1.IH" [OF False less p refl refl t] by simp
  qed
qed

text \<open>Whenever the upgrade subpool accepts a block, it ends at the protocol version of the block,
  with or without upgrade transactions and whatever the watcher delivered.\<close>

theorem upgrade_settles_on_block_version:
  "upgrade_on_canonical_state_change protocol_version txs pool schedule = Some (Ready (pool', schedule')) \<Longrightarrow>
     up_current_protocol_version pool' = Some protocol_version"
  using reach_protocol_version_settles
  by (auto simp: upgrade_on_canonical_state_change_def await_then_Ready_iff Let_def
      split: option.splits if_splits list.splits)

text \<open>The stream serves the oldest pending upgrade, whether it was there before or arrives later.\<close>

definition upgrade_stream_ok :: "upgrade_subpool \<Rightarrow> upgrade_stream_state \<Rightarrow> bool" where
  "upgrade_stream_ok pool stream =
     (case stream of
        UpgradeEmpty buffered \<Rightarrow> up_sender pool \<and>
          (buffered = [] \<and> up_pending_upgrades pool = [] \<or>
           up_pending_upgrades pool \<noteq> [] \<and> buffered = [last (up_pending_upgrades pool)])
      | UpgradePending u \<Rightarrow> up_pending_upgrades pool \<noteq> [] \<and> u = last (up_pending_upgrades pool)
      | UpgradeClosed \<Rightarrow> True)"

lemma upgrade_stream_ok_new: "upgrade_info_stream pool = (stream, pool') \<Longrightarrow> upgrade_stream_ok pool' stream"
  by (auto simp: upgrade_info_stream_def upgrade_stream_ok_def split: if_splits)

lemma upgrade_stream_ok_insert:
  "upgrade_stream_ok pool stream \<Longrightarrow> upgrade_insert u pool stream = Ready (pool', stream') \<Longrightarrow> upgrade_stream_ok pool' stream'"
  by (auto simp: upgrade_stream_ok_def upgrade_insert_def Let_def split: upgrade_stream_state.splits if_splits)

lemma upgrade_stream_serves_oldest:
  "upgrade_stream_ok pool stream \<Longrightarrow> upgrade_poll_next pool stream = Ready (Some u, stream') \<Longrightarrow>
     up_pending_upgrades pool \<noteq> [] \<and> u = last (up_pending_upgrades pool)"
  by (auto simp: upgrade_stream_ok_def upgrade_poll_next_def split: upgrade_stream_state.splits list.splits if_splits)

lemma filter_last: "xs \<noteq> [] \<Longrightarrow> P (last xs) \<Longrightarrow> \<exists>ys. filter P xs = ys @ [last xs]"
  by (cases xs rule: rev_cases) auto

text \<open>Every upgrade with a reliable log that the stream serves is consumed by the block it was
  applied in.\<close>

lemma served_upgrade_is_consumed:
  assumes "up_pending_upgrades pool \<noteq> []" "u = last (up_pending_upgrades pool)"
    and "up_current_protocol_version pool = Some current" "current < ui_protocol_version u"
    and "MIN_VERSION_WITH_RELIABLE_UPGRADE_LOGS \<le> ui_protocol_version u"
  shows "\<exists>pool'. upgrade_on_canonical_state_change (ui_protocol_version u)
      (case ui_tx u of None \<Rightarrow> [] | Some tx \<Rightarrow> [tx]) pool (a # b # schedule) = Some (Ready (pool', schedule))"
proof -
  let ?P = "\<lambda>u. MIN_VERSION_WITH_RELIABLE_UPGRADE_LOGS \<le> ui_protocol_version u"
  let ?arrived = "fold upgrade_arrive a pool"
  let ?pool = "?arrived\<lparr> up_pending_upgrades := filter ?P (up_pending_upgrades ?arrived) \<rparr>"
  have r: "rev (up_pending_upgrades ?arrived) = rev (up_pending_upgrades pool) @ a" by (rule upgrade_arrivals)
  have "up_pending_upgrades ?arrived = rev a @ up_pending_upgrades pool"
    using arg_cong [OF r, of rev] by simp
  then have "up_pending_upgrades ?arrived \<noteq> []" "last (up_pending_upgrades ?arrived) = u"
    using assms(1,2) by simp_all
  then obtain ys where "filter ?P (up_pending_upgrades ?arrived) = ys @ [u]"
    using filter_last [of "up_pending_upgrades ?arrived" ?P] assms(5) by auto
  then have c: "rev (up_pending_upgrades ?pool) = u # rev ys" by simp
  obtain pool1 where p: "upgrade_pop_wait ?pool (b # schedule) = Ready (u, pool1, schedule)"
    using upq.pop_wait_next [OF c, of b schedule] by (auto simp: upgrade_pop_wait_def)
  have m: "\<not> ui_protocol_version u < MIN_VERSION_WITH_RELIABLE_UPGRADE_LOGS" using assms(5) by simp
  have e: "reach_protocol_version (ui_protocol_version u) (ui_protocol_version u) q t = Some (Ready (ui_protocol_version u, q, t))" for q t
    by (subst reach_protocol_version.simps) simp
  show ?thesis
  proof (cases "ui_tx u")
    case None
    have "reach_protocol_version (ui_protocol_version u) current ?pool (b # schedule) =
        Some (Ready (ui_protocol_version u, pool1, schedule))"
      by (subst reach_protocol_version.simps) (use assms(4) p None e in auto)
    then show ?thesis using None m assms(3,4) by (simp add: upgrade_on_canonical_state_change_def Let_def)
  next
    case (Some tx)
    have "pop_upgrade_tx ?pool (b # schedule) = Ready (ui_protocol_version u, tx, pool1, schedule)"
      by (subst pop_upgrade_tx.simps) (simp add: p Some)
    then show ?thesis using Some m assms(3) e by (simp add: upgrade_on_canonical_state_change_def Let_def)
  qed
qed

text \<open>A fee transaction served by the stream is consumed as long as the pending fee is not
  replaced.\<close>

lemma fee_arrive_fields [simp]:
  "ifp_next_interop_fee_number (fold fee_arrive fees pool) = ifp_next_interop_fee_number pool"
  by (induction fees arbitrary: pool) (simp_all add: fee_arrive_def)

lemma served_fee_is_consumed:
  assumes "ifp_pending_fee pool = Some fee" "ifp_next_interop_fee_number pool = Some n"
  shows "interop_fee_on_canonical_state_change calculate_hash [set_interop_fee calculate_hash fee n] True pool ([] # schedule) =
    Some (Ready (Some n, pool\<lparr> ifp_pending_fee := None, ifp_next_interop_fee_number := Some (n + 1) \<rparr>, schedule))"
  by (simp add: interop_fee_on_canonical_state_change_def assms)

subsection \<open>Witnesses\<close>

definition example_l1_tx :: "u64 \<Rightarrow> l1_tx" where
  "example_l1_tx n = \<lparr> l1_hash = replicate 32 0, l1_initiator = replicate 20 1, l1_gas_limit = 100000, l1_nonce = n \<rparr>"

text \<open>Two transactions arrive, a stream is opened and serves the first one.\<close>

definition example_l1_served :: l1_world where
  "example_l1_served =
     \<lparr> lw_pool = \<lparr> l1p_sender = True, l1p_pending_txs = [example_l1_tx 1, example_l1_tx 0], l1p_channel_size = 10 \<rparr>,
       lw_stream = Some \<lparr> l1s_receiver = [], l1s_pending_txs = [example_l1_tx 1] \<rparr>,
       lw_served = [example_l1_tx 0], lw_inserted = [example_l1_tx 0, example_l1_tx 1], lw_executed = [] \<rparr>"

lemma example_l1_served_reachable: "l1_step\<^sup>*\<^sup>* (l1_world_new 10) example_l1_served"
proof -
  let ?p = "\<lambda>b txs. \<lparr> l1p_sender = b, l1p_pending_txs = txs, l1p_channel_size = 10 \<rparr>"
  let ?a = "example_l1_tx 0" and ?b = "example_l1_tx 1"
  let ?w = "\<lambda>pool stream served ins. \<lparr> lw_pool = pool, lw_stream = stream, lw_served = served, lw_inserted = ins, lw_executed = [] \<rparr>"
  let ?s = "\<lambda>txs. Some \<lparr> l1s_receiver = [], l1s_pending_txs = txs \<rparr>"
  have 1: "l1_step (l1_world_new 10) (?w (?p False [?a]) None [] [?a])"
    using l1_step.watcher [of ?a "l1_world_new 10" "?p False [?a]" None]
    by (simp add: l1_world_new_def l1_subpool_new_def l1_insert_def)
  have 2: "l1_step (?w (?p False [?a]) None [] [?a]) (?w (?p False [?b, ?a]) None [] [?a, ?b])"
    using l1_step.watcher [of ?b "?w (?p False [?a]) None [] [?a]" "?p False [?b, ?a]" None] by (simp add: l1_insert_def)
  have 3: "l1_step (?w (?p False [?b, ?a]) None [] [?a, ?b]) (?w (?p True [?b, ?a]) (?s [?b, ?a]) [] [?a, ?b])"
    using l1_step.opened [of "?w (?p False [?b, ?a]) None [] [?a, ?b]"] by (simp add: l1_best_transactions_stream_def)
  have 4: "l1_step (?w (?p True [?b, ?a]) (?s [?b, ?a]) [] [?a, ?b]) example_l1_served"
    using l1_step.polled [of "?w (?p True [?b, ?a]) (?s [?b, ?a]) [] [?a, ?b]"]
    by (simp add: l1_poll_next_def example_l1_served_def)
  show ?thesis using 1 2 3 4 by (meson converse_rtranclp_into_rtranclp rtranclp.rtrancl_refl)
qed

theorem priority_txs_execute_in_order_witness:
  "lw_inserted example_l1_served = lw_executed example_l1_served @ rev (l1p_pending_txs (lw_pool example_l1_served))"
  using priority_txs_execute_in_order [OF example_l1_served_reachable] .

theorem served_priority_txs_are_consumed_witness:
  "\<exists>pool. l1_on_canonical_state_change [example_l1_tx 0] (lw_pool example_l1_served) [[example_l1_tx 2], []] =
     Some (Ready (Some 0, pool, [[]]))"
proof -
  have 1: "lw_stream example_l1_served \<noteq> None" and 2: "[example_l1_tx 0] = take 1 (lw_served example_l1_served)"
    by (simp_all add: example_l1_served_def)
  have 3: "length [example_l1_tx 0] \<le> length [[example_l1_tx 2], []]" by simp
  have 4: "priority_id (last [example_l1_tx 0]) = 0" by (simp add: example_l1_tx_def priority_id_def)
  show ?thesis
    using served_priority_txs_are_consumed [OF example_l1_served_reachable 1 2 3] unfolding 4 by (simp del: l1_pop_executed.simps)
qed

definition example_interop_root :: interop_root where
  "example_interop_root = \<lparr> ir_chain_id = 270, ir_block_or_batch_number = 7, ir_sides = [replicate 32 1] \<rparr>"

definition no_hash :: "system_tx \<Rightarrow> tx_hash" where
  "no_hash tx = replicate 32 0"

text \<open>Two roots arrive and the stream of a pool with two roots per transaction serves them at once.\<close>

definition example_interop_served :: interop_world where
  "example_interop_served =
     \<lparr> iw_pool = \<lparr> irp_pending_roots = [(5, example_interop_root), (6, example_interop_root)], irp_interop_roots_per_tx = 2 \<rparr>,
       iw_stream = \<lparr> is_cursor = 7, is_buffer = [] \<rparr>,
       iw_served = [import_interop_roots no_hash [example_interop_root, example_interop_root] 6] \<rparr>"

lemma example_interop_served_reachable: "(interop_step no_hash)\<^sup>*\<^sup>* (interop_world_new 2) example_interop_served"
proof -
  let ?r = example_interop_root
  let ?w = "\<lambda>roots. \<lparr> iw_pool = \<lparr> irp_pending_roots = roots, irp_interop_roots_per_tx = 2 \<rparr>,
    iw_stream = interop_stream_new, iw_served = [] \<rparr>"
  have 1: "interop_step no_hash (interop_world_new 2) (?w [(5, ?r)])"
    using interop_step.root_found [of "interop_world_new 2" "(5, ?r)" no_hash]
    by (simp add: interop_world_new_def interop_roots_subpool_new_def roots_in_order_def btm_wf_def add_root_def)
  have 2: "interop_step no_hash (?w [(5, ?r)]) (?w [(5, ?r), (6, ?r)])"
    using interop_step.root_found [of "?w [(5, ?r)]" "(6, ?r)" no_hash]
    by (simp add: roots_in_order_def btm_wf_def add_root_def)
  have 3: "interop_step no_hash (?w [(5, ?r), (6, ?r)]) example_interop_served"
    using interop_step.tx_served [of no_hash 0 0 "?w [(5, ?r), (6, ?r)]"]
    by (simp add: interop_poll_def interop_collect_def btm_range_from_def interop_stream_new_def example_interop_served_def)
  show ?thesis using 1 2 3 by (meson converse_rtranclp_into_rtranclp rtranclp.rtrancl_refl)
qed

theorem served_interop_txs_are_consumed_witness:
  "\<exists>r pool rest. interop_on_canonical_state_change no_hash (iw_served example_interop_served)
     (iw_pool example_interop_served) [[(9, example_interop_root)], []] = Some (Ready (r, pool, rest)) \<and> r \<noteq> None"
proof -
  have 1: "iw_served example_interop_served = take 1 (iw_served example_interop_served)"
    and 2: "roots_in_order (iw_pool example_interop_served) (concat [[(9, example_interop_root)], []])"
    and 3: "length (irp_pending_roots (iw_pool example_interop_served)) \<le> length [[(9, example_interop_root)], []]"
    and 4: "iw_served example_interop_served \<noteq> []"
    by (simp_all add: example_interop_served_def roots_in_order_def btm_wf_def)
  show ?thesis using served_interop_txs_are_consumed [OF example_interop_served_reachable 1 2 3] 4 by blast
qed

definition example_patch_upgrade :: upgrade_info where
  "example_patch_upgrade =
     \<lparr> ui_tx = None, ui_metadata = \<lparr> um_timestamp = 0, um_protocol_version = ProtocolSemanticVersion 0 30 3, um_force_preimages = [] \<rparr> \<rparr>"

definition example_upgrade_subpool :: upgrade_subpool where
  "example_upgrade_subpool =
     \<lparr> up_current_protocol_version = Some MIN_VERSION_WITH_RELIABLE_UPGRADE_LOGS, up_sender = False,
       up_pending_upgrades = [example_patch_upgrade] \<rparr>"

theorem upgrade_settles_on_block_version_witness:
  "\<exists>pool. upgrade_on_canonical_state_change (ProtocolSemanticVersion 0 30 3) [] example_upgrade_subpool [[], []] =
     Some (Ready (pool, [])) \<and> up_current_protocol_version pool = Some (ProtocolSemanticVersion 0 30 3)"
proof -
  have "\<exists>pool. upgrade_on_canonical_state_change (ProtocolSemanticVersion 0 30 3) [] example_upgrade_subpool [[], []] =
      Some (Ready (pool, []))"
    using served_upgrade_is_consumed [of example_upgrade_subpool example_patch_upgrade MIN_VERSION_WITH_RELIABLE_UPGRADE_LOGS "[]" "[]" "[]"]
    by (simp add: example_upgrade_subpool_def)
      (simp add: example_patch_upgrade_def ui_protocol_version_def MIN_VERSION_WITH_RELIABLE_UPGRADE_LOGS_def
        less_protocol_semantic_version_def less_eq_protocol_semantic_version_def)
  then show ?thesis using upgrade_settles_on_block_version by blast
qed

end
