(* ===== verification/Fees.thy ===== *)
theory Fees
  imports Complex_Main Types
begin

text \<open>
  The prices of a block: the fee provider of the sequencer
  (\<open>lib/sequencer/src/execution/fee_provider.rs\<close>) and the arithmetic of the interop fee
  updater (\<open>lib/mempool/src/interop_fee_updater.rs\<close>).

  \<open>Ratio<BigUint>\<close> is exact and modelled by \<open>rat\<close>, \<open>BigUint\<close> by \<open>nat\<close>; a division by
  zero panics and is \<open>None\<close>.  The watched values (pubdata price, blob fill ratio, token
  prices) are arguments.
\<close>

record fee_params =
  fp_eip1559_basefee :: nat
  fp_native_price :: nat
  fp_pubdata_price :: nat

record token_prices_for_fees =
  base_token_usd_price :: rat
  sl_token_usd_price :: rat

record fee_config =
  fc_native_price_usd :: rat
  fc_base_fee_override :: "nat option"
  fc_native_per_gas :: u64
  fc_pubdata_price_override :: "nat option"
  fc_pubdata_price_cap :: "nat option"
  fc_native_price_override :: "nat option"

record fee_provider =
  fv_fee_config :: fee_config
  fv_previous_block_fee_params :: "fee_params option"
  fv_pubdata_mode :: "pubdata_mode option"

text \<open>What the provider reads from its watch channels.\<close>

record fee_inputs =
  fi_pubdata_price :: "nat option"
  fi_blob_fill_ratio :: "(u64 \<times> u64) option"
  fi_token_prices :: token_prices_for_fees

definition fee_provider_new :: "fee_config \<Rightarrow> pubdata_mode option \<Rightarrow> fee_provider" where
  "fee_provider_new c m =
     \<lparr> fv_fee_config = c, fv_previous_block_fee_params = None, fv_pubdata_mode = m \<rparr>"

definition U256_MAX :: nat where
  "U256_MAX = 2 ^ 256 - 1"

definition ratio_div :: "rat \<Rightarrow> rat \<Rightarrow> rat option" where
  "ratio_div a b = (if b = 0 then None else Some (a / b))"

definition ceil_to_integer :: "rat \<Rightarrow> nat" where
  "ceil_to_integer r = nat \<lceil>r\<rceil>"

text \<open>\<open>Ord::clamp\<close> panics when the bounds are in the wrong order.\<close>

definition clamp :: "nat \<Rightarrow> nat \<Rightarrow> nat \<Rightarrow> nat option" where
  "clamp lo hi x = do { assert_that (lo \<le> hi); Some (if x < lo then lo else if x > hi then hi else x) }"

definition NATIVE_PRICE_MAX_CHANGE_DENOMINATOR :: nat where
  "NATIVE_PRICE_MAX_CHANGE_DENOMINATOR = 8"

definition calculate_native_price :: "fee_provider \<Rightarrow> token_prices_for_fees \<Rightarrow> nat option" where
  "calculate_native_price p token_prices =
     (case fc_native_price_override (fv_fee_config p) of
        Some o' \<Rightarrow> Some o'
      | None \<Rightarrow> do {
          price \<leftarrow> ratio_div (fc_native_price_usd (fv_fee_config p)) (base_token_usd_price token_prices);
          let desired = ceil_to_integer price;
          let (min_native_price, max_native_price) =
            (case map_option fp_native_price (fv_previous_block_fee_params p) of
               Some previous \<Rightarrow> (previous - previous div NATIVE_PRICE_MAX_CHANGE_DENOMINATOR,
                                  previous + max (previous div NATIVE_PRICE_MAX_CHANGE_DENOMINATOR) 1)
             | None \<Rightarrow> (desired, desired));
          clamp min_native_price max_native_price desired })"

definition calculate_base_fee :: "fee_provider \<Rightarrow> nat \<Rightarrow> nat" where
  "calculate_base_fee p native_price =
     (case fc_base_fee_override (fv_fee_config p) of
        Some o' \<Rightarrow> o'
      | None \<Rightarrow> native_price * fc_native_per_gas (fv_fee_config p))"

definition FIELD_ELEMENTS_PER_BLOB :: u64 where
  "FIELD_ELEMENTS_PER_BLOB = 4096"

definition NATIVE_PER_BLOB :: u64 where
  "NATIVE_PER_BLOB = 50000000"

definition BYTES_USED_PER_BLOB :: u64 where
  "BYTES_USED_PER_BLOB = (FIELD_ELEMENTS_PER_BLOB - 1) * 31"

definition NATIVE_PER_BLOB_BYTE :: u64 where
  "NATIVE_PER_BLOB_BYTE = NATIVE_PER_BLOB div BYTES_USED_PER_BLOB"

definition PUBDATA_PRICE_MAX_CHANGE_DENOMINATOR :: nat where
  "PUBDATA_PRICE_MAX_CHANGE_DENOMINATOR = 2"

definition blob_pubdata_price :: "nat \<Rightarrow> nat \<Rightarrow> (u64 \<times> u64) option \<Rightarrow> nat option" where
  "blob_pubdata_price native_price base_pubdata_price fill_ratio =
     (let native_overhead = native_price * NATIVE_PER_BLOB_BYTE;
          pubdata_price_with_overhead = base_pubdata_price + native_overhead;
          (numer, denom) = (case fill_ratio of Some r \<Rightarrow> r | None \<Rightarrow> (1, 2))
      in if numer = 0 then None else Some (pubdata_price_with_overhead * denom div numer))"

definition calculate_pubdata_price :: "fee_provider \<Rightarrow> nat \<Rightarrow> fee_inputs \<Rightarrow> nat option" where
  "calculate_pubdata_price p native_price i =
     (case fc_pubdata_price_override (fv_fee_config p) of
        Some o' \<Rightarrow> Some o'
      | None \<Rightarrow> do {
          base_pubdata_price_in_sl_token \<leftarrow> fi_pubdata_price i;
          sl_to_base_ratio \<leftarrow> ratio_div (sl_token_usd_price (fi_token_prices i)) (base_token_usd_price (fi_token_prices i));
          let base_pubdata_price = ceil_to_integer (of_nat base_pubdata_price_in_sl_token * sl_to_base_ratio);
          mode \<leftarrow> fv_pubdata_mode p;
          desired \<leftarrow> (if mode = Blobs
                    then blob_pubdata_price native_price base_pubdata_price (fi_blob_fill_ratio i)
                    else Some base_pubdata_price);
          let pubdata_price =
            (case map_option fp_pubdata_price (fv_previous_block_fee_params p) of
               Some prev \<Rightarrow> min desired (prev + max (prev div PUBDATA_PRICE_MAX_CHANGE_DENOMINATOR) 1)
             | None \<Rightarrow> desired);
          Some (case fc_pubdata_price_cap (fv_fee_config p) of
                  Some cap \<Rightarrow> if pubdata_price > cap then cap else pubdata_price
                | None \<Rightarrow> pubdata_price) })"

definition biguint_to_u256_checked :: "nat \<Rightarrow> nat option" where
  "biguint_to_u256_checked v = (if v \<ge> 2 ^ 256 then None else Some v)"

definition capped_u256 :: "nat \<Rightarrow> nat" where
  "capped_u256 v = (case biguint_to_u256_checked v of Some w \<Rightarrow> w | None \<Rightarrow> U256_MAX)"

definition produce_fee_params :: "fee_provider \<Rightarrow> fee_inputs \<Rightarrow> fee_params option" where
  "produce_fee_params p i = do {
     native_price \<leftarrow> calculate_native_price p (fi_token_prices i);
     let eip1559_basefee = calculate_base_fee p native_price;
     pubdata_price \<leftarrow> calculate_pubdata_price p native_price i;
     Some \<lparr> fp_eip1559_basefee = capped_u256 eip1559_basefee, fp_native_price = capped_u256 native_price,
            fp_pubdata_price = capped_u256 pubdata_price \<rparr> }"

definition fee_params_of :: "block_context \<Rightarrow> fee_params" where
  "fee_params_of ctx = \<lparr> fp_eip1559_basefee = bc_eip1559_basefee ctx, fp_native_price = bc_native_price ctx,
     fp_pubdata_price = bc_pubdata_price ctx \<rparr>"

definition fee_on_canonical_state_change :: "replay_record \<Rightarrow> fee_provider \<Rightarrow> fee_provider" where
  "fee_on_canonical_state_change record p =
     p\<lparr> fv_previous_block_fee_params := Some (fee_params_of (rr_block_context record)) \<rparr>"

subsection \<open>Interop fee\<close>

definition biguint_to_u256 :: "nat \<Rightarrow> nat option" where
  "biguint_to_u256 v = (if v < 2 ^ 256 then Some v else None)"

datatype interop_fee_error = ValueDoesNotFit | CurrentFeeCall | GatewayFeeCall

definition calculate_target_interop_fee ::
    "nat \<Rightarrow> token_prices_for_fees \<Rightarrow> (interop_fee_error, nat) fallible" where
  "calculate_target_interop_fee gateway_settlement_fee token_prices =
     (case ratio_div (sl_token_usd_price token_prices) (base_token_usd_price token_prices) of
        None \<Rightarrow> None
      | Some sl_to_base_ratio \<Rightarrow>
          (case biguint_to_u256 (ceil_to_integer (of_nat gateway_settlement_fee * sl_to_base_ratio)) of
             None \<Rightarrow> fails ValueDoesNotFit
           | Some fee \<Rightarrow> returns fee))"

definition should_update_fee :: "nat \<Rightarrow> nat \<Rightarrow> nat \<Rightarrow> bool" where
  "should_update_fee current_fee target_fee deviation_percentage =
     (if current_fee = target_fee then False
      else if current_fee = 0 then True
      else let diff = (if target_fee > current_fee then target_fee - current_fee else current_fee - target_fee);
               deviation = (of_nat diff / of_nat current_fee) * (100 :: rat)
           in deviation \<ge> of_nat deviation_percentage)"

subsection \<open>Bounds\<close>

text \<open>The native price of the next block as a function of the desired and of the previous one.\<close>

definition next_native_price :: "nat \<Rightarrow> nat \<Rightarrow> nat" where
  "next_native_price desired previous =
     (if desired < previous - previous div 8 then previous - previous div 8
      else if desired > previous + max (previous div 8) 1 then previous + max (previous div 8) 1
      else desired)"

definition desired_native_price :: "fee_provider \<Rightarrow> token_prices_for_fees \<Rightarrow> nat" where
  "desired_native_price p prices = ceil_to_integer (fc_native_price_usd (fv_fee_config p) / base_token_usd_price prices)"

lemma calculate_native_price_eq:
  assumes "fc_native_price_override (fv_fee_config p) = None" "base_token_usd_price prices \<noteq> 0"
  shows "calculate_native_price p prices =
    Some (case fv_previous_block_fee_params p of
            None \<Rightarrow> desired_native_price p prices
          | Some f \<Rightarrow> next_native_price (desired_native_price p prices) (fp_native_price f))"
proof -
  have "q - q div 8 \<le> q + max (q div 8) (Suc 0)" for q :: nat
    by (rule le_trans [OF diff_le_self le_add1])
  then show ?thesis using assms
    by (auto simp: calculate_native_price_def ratio_div_def clamp_def desired_native_price_def next_native_price_def
        NATIVE_PRICE_MAX_CHANGE_DENOMINATOR_def Let_def split: option.split)
qed

lemma next_native_price_bounds:
  "previous - previous div 8 \<le> next_native_price desired previous"
  "next_native_price desired previous \<le> previous + max (previous div 8) 1"
  by (auto simp: next_native_price_def)

lemma capped_u256_min: "capped_u256 v = min v U256_MAX"
  by (auto simp: capped_u256_def biguint_to_u256_checked_def U256_MAX_def)

lemma calculate_pubdata_price_le:
  assumes "calculate_pubdata_price p native i = Some price" "fc_pubdata_price_override (fv_fee_config p) = None"
  shows "fv_previous_block_fee_params p = Some f \<Longrightarrow> price \<le> fp_pubdata_price f + max (fp_pubdata_price f div 2) 1"
    and "fc_pubdata_price_cap (fv_fee_config p) = Some cap \<Longrightarrow> price \<le> cap"
  using assms
  by (auto simp: calculate_pubdata_price_def PUBDATA_PRICE_MAX_CHANGE_DENOMINATOR_def Let_def bind_eq_Some_conv
      split: option.splits if_splits)

text \<open>C24. Without overrides, from one block to the next the native price changes by at most an
  eighth (or by one upwards), the pubdata price grows at most by half (or by one) and never
  exceeds its cap, and the base fee follows the native price.\<close>

theorem fees_change_gradually:
  assumes "produce_fee_params p i = Some f" "fv_previous_block_fee_params p = Some prev"
    and "fc_native_price_override (fv_fee_config p) = None" "fc_base_fee_override (fv_fee_config p) = None"
    and "fc_pubdata_price_override (fv_fee_config p) = None" "fp_native_price prev \<le> U256_MAX"
  shows "fp_native_price prev - fp_native_price prev div 8 \<le> fp_native_price f \<and>
    fp_native_price f \<le> fp_native_price prev + max (fp_native_price prev div 8) 1 \<and>
    fp_pubdata_price f \<le> fp_pubdata_price prev + max (fp_pubdata_price prev div 2) 1 \<and>
    (\<forall>cap. fc_pubdata_price_cap (fv_fee_config p) = Some cap \<longrightarrow> fp_pubdata_price f \<le> cap) \<and>
    fp_eip1559_basefee f \<le> U256_MAX \<and>
    (fp_native_price f * fc_native_per_gas (fv_fee_config p) \<le> U256_MAX \<longrightarrow> fp_native_price f < U256_MAX \<longrightarrow>
       fp_eip1559_basefee f = fp_native_price f * fc_native_per_gas (fv_fee_config p))"
proof -
  obtain native pubdata where n: "calculate_native_price p (fi_token_prices i) = Some native"
    and d: "calculate_pubdata_price p native i = Some pubdata"
    and f: "f = \<lparr> fp_eip1559_basefee = capped_u256 (calculate_base_fee p native), fp_native_price = capped_u256 native,
                  fp_pubdata_price = capped_u256 pubdata \<rparr>"
    using assms(1) by (auto simp: produce_fee_params_def Let_def bind_eq_Some_conv)
  have base: "base_token_usd_price (fi_token_prices i) \<noteq> 0"
    using n assms(3) by (auto simp: calculate_native_price_def ratio_div_def split: if_splits)
  let ?q = "fp_native_price prev"
  have native: "native = next_native_price (desired_native_price p (fi_token_prices i)) ?q"
    using n calculate_native_price_eq [OF assms(3) base] assms(2) by simp
  have lo: "?q - ?q div 8 \<le> capped_u256 native"
    using next_native_price_bounds(1) [of ?q] native assms(6) by (simp add: capped_u256_min)
  have hi: "capped_u256 native \<le> ?q + max (?q div 8) 1"
    using next_native_price_bounds(2) [of "desired_native_price p (fi_token_prices i)" ?q] native
    by (simp only: capped_u256_min min.coboundedI1)
  have pub: "capped_u256 pubdata \<le> fp_pubdata_price prev + max (fp_pubdata_price prev div 2) 1"
    "fc_pubdata_price_cap (fv_fee_config p) = Some cap \<Longrightarrow> capped_u256 pubdata \<le> cap" for cap
    using calculate_pubdata_price_le [OF d assms(5)] assms(2) by (simp_all only: capped_u256_min min.coboundedI1)
  have fee: "capped_u256 (calculate_base_fee p native) = capped_u256 native * fc_native_per_gas (fv_fee_config p)"
    if "capped_u256 native * fc_native_per_gas (fv_fee_config p) \<le> U256_MAX" "capped_u256 native < U256_MAX"
  proof -
    have "capped_u256 native = native" using that(2) by (auto simp: capped_u256_min min_def split: if_splits)
    then show ?thesis using that(1) assms(4) by (simp add: calculate_base_fee_def capped_u256_min)
  qed
  have max: "capped_u256 (calculate_base_fee p native) \<le> U256_MAX" by (simp add: capped_u256_min)
  show ?thesis using lo hi pub fee max unfolding f by simp
qed

subsection \<open>Convergence\<close>

text \<open>A block is produced with the parameters of the provider and becomes its previous block.\<close>

definition fee_next_block :: "fee_inputs \<Rightarrow> fee_provider \<Rightarrow> fee_provider option" where
  "fee_next_block i p =
     map_option (\<lambda>f. p\<lparr> fv_previous_block_fee_params := Some f \<rparr>) (produce_fee_params p i)"

lemma fee_next_block_canonical:
  "fee_next_block i p = Some p' \<Longrightarrow> \<exists>f. produce_fee_params p i = Some f \<and>
     (\<forall>record. fee_params_of (rr_block_context record) = f \<longrightarrow> fee_on_canonical_state_change record p = p')"
  by (auto simp: fee_next_block_def fee_on_canonical_state_change_def)

fun fee_blocks :: "nat \<Rightarrow> fee_inputs \<Rightarrow> fee_provider \<Rightarrow> fee_provider option" where
  "fee_blocks 0 i p = Some p"
| "fee_blocks (Suc n) i p = Option.bind (fee_next_block i p) (fee_blocks n i)"

lemma next_native_price_up:
  "q < t \<Longrightarrow> q < next_native_price t q \<and> next_native_price t q \<le> t"
  by (auto simp: next_native_price_def)

lemma next_native_price_down:
  assumes "t < q" "8 \<le> q"
  shows "t \<le> next_native_price t q \<and> next_native_price t q < q"
proof -
  have "0 < q div 8" using assms(2) by (simp add: div_greater_zero_iff)
  then show ?thesis using assms by (auto simp: next_native_price_def)
qed

lemma next_native_price_stays:
  "next_native_price t t = t" "t < q \<Longrightarrow> q < 8 \<Longrightarrow> next_native_price t q = q"
  by (auto simp: next_native_price_def)

lemma next_native_price_converges:
  "\<exists>n r. (r = t \<or> t < r \<and> r < 8) \<and> (q \<le> t \<longrightarrow> r = t) \<and> (\<forall>m \<ge> n. (next_native_price t ^^ m) q = r)"
proof (induction "if q < t then t - q else q - t" arbitrary: q rule: less_induct)
  case less
  let ?q = "next_native_price t q"
  have step: ?case
    if dec: "(if ?q < t then t - ?q else ?q - t) < (if q < t then t - q else q - t)" and ord: "q \<le> t \<longrightarrow> ?q \<le> t"
  proof -
    obtain n r where "r = t \<or> t < r \<and> r < 8" "?q \<le> t \<longrightarrow> r = t" "\<forall>m \<ge> n. (next_native_price t ^^ m) ?q = r"
      using less [OF dec] by blast
    moreover have "(next_native_price t ^^ m) q = r" if "Suc n \<le> m" for m
      using that calculation(3) by (cases m) (simp_all add: funpow_swap1)
    ultimately show ?thesis using ord by (intro exI [of _ "Suc n"] exI [of _ r]) auto
  qed
  have stay: ?case if "?q = q" "q = t \<or> t < q \<and> q < 8"
  proof -
    have "(next_native_price t ^^ m) q = q" for m by (induction m) (simp_all add: that(1))
    then show ?thesis using that(2) by (intro exI [of _ 0] exI [of _ q]) auto
  qed
  consider "q = t" | "q < t" | "t < q" "q < 8" | "t < q" "8 \<le> q" by linarith
  then show ?case
  proof cases
    case 2
    then show ?thesis using next_native_price_up [OF 2] by (intro step) auto
  next
    case 4
    then show ?thesis using next_native_price_down [OF 4] by (intro step) auto
  qed (use stay next_native_price_stays in auto)
qed

text \<open>The inputs from which a pubdata price is computed are there.\<close>

definition pubdata_available :: "fee_provider \<Rightarrow> fee_inputs \<Rightarrow> bool" where
  "pubdata_available p i \<longleftrightarrow>
     fc_pubdata_price_override (fv_fee_config p) \<noteq> None \<or>
     fi_pubdata_price i \<noteq> None \<and> fv_pubdata_mode p \<noteq> None \<and>
       (case fi_blob_fill_ratio i of None \<Rightarrow> True | Some (numer, _) \<Rightarrow> numer \<noteq> 0)"

lemma pubdata_price_available:
  assumes "pubdata_available p i" "base_token_usd_price (fi_token_prices i) \<noteq> 0"
  shows "\<exists>price. calculate_pubdata_price p native i = Some price"
proof (cases "fc_pubdata_price_override (fv_fee_config p)")
  case None
  then obtain sl mode where "fi_pubdata_price i = Some sl" "fv_pubdata_mode p = Some mode"
    using assms(1) by (auto simp: pubdata_available_def)
  moreover have "\<exists>d. blob_pubdata_price native base (fi_blob_fill_ratio i) = Some d" for base
    using assms(1) None by (auto simp: pubdata_available_def blob_pubdata_price_def Let_def split: option.splits)
  ultimately show ?thesis using None assms(2)
    by (cases "mode = Blobs") (auto simp: calculate_pubdata_price_def ratio_div_def Let_def bind_eq_Some_conv)
qed (simp add: calculate_pubdata_price_def)

lemma fee_blocks_native_price:
  assumes "fc_native_price_override (fv_fee_config p) = None" "pubdata_available p i"
    and "base_token_usd_price (fi_token_prices i) \<noteq> 0" "fv_previous_block_fee_params p = Some f"
    and "fp_native_price f \<le> U256_MAX" "desired_native_price p (fi_token_prices i) \<le> U256_MAX"
  shows "\<exists>f'. fee_blocks n i p = Some (p\<lparr> fv_previous_block_fee_params := Some f' \<rparr>) \<and>
    fp_native_price f' = (next_native_price (desired_native_price p (fi_token_prices i)) ^^ n) (fp_native_price f)"
  using assms
proof (induction n arbitrary: p f)
  case 0
  have "p\<lparr> fv_previous_block_fee_params := Some f \<rparr> = p" using "0.prems"(4) by (cases p) simp
  then show ?case by (metis fee_blocks.simps(1) funpow_0)
next
  case (Suc n)
  let ?t = "desired_native_price p (fi_token_prices i)"
  let ?q = "next_native_price ?t (fp_native_price f)"
  have "?q \<le> max ?t (fp_native_price f)" by (auto simp: next_native_price_def)
  then have le: "?q \<le> U256_MAX" using Suc.prems(5,6) by simp
  have "calculate_native_price p (fi_token_prices i) = Some ?q"
    using calculate_native_price_eq Suc.prems by simp
  then obtain f1 where f1: "produce_fee_params p i = Some f1" "fp_native_price f1 = ?q"
    using pubdata_price_available [OF Suc.prems(2,3), of ?q] le
    by (auto simp: produce_fee_params_def capped_u256_min Let_def)
  let ?p = "p\<lparr> fv_previous_block_fee_params := Some f1 \<rparr>"
  have t: "desired_native_price ?p (fi_token_prices i) = ?t" "pubdata_available ?p i"
    using Suc.prems(2) by (simp_all add: desired_native_price_def pubdata_available_def)
  obtain f' where "fee_blocks n i ?p = Some (?p\<lparr> fv_previous_block_fee_params := Some f' \<rparr>)"
    "fp_native_price f' = (next_native_price ?t ^^ n) ?q"
    using Suc.IH [of ?p f1] Suc.prems f1(2) le t by auto
  then show ?case using f1(1) by (auto simp: fee_next_block_def funpow_swap1)
qed

text \<open>C25. With constant token prices the native price reaches the desired price after finitely many
  blocks and stays there, except that a price below eight is never lowered: an eighth of it
  rounds to zero.\<close>

theorem native_price_converges:
  assumes "fc_native_price_override (fv_fee_config p) = None" "pubdata_available p i"
    and "base_token_usd_price (fi_token_prices i) \<noteq> 0" "fv_previous_block_fee_params p = Some f"
    and "fp_native_price f \<le> U256_MAX" "desired_native_price p (fi_token_prices i) \<le> U256_MAX"
  shows "\<exists>n r. (r = desired_native_price p (fi_token_prices i) \<or> desired_native_price p (fi_token_prices i) < r \<and> r < 8) \<and>
    (fp_native_price f \<le> desired_native_price p (fi_token_prices i) \<longrightarrow> r = desired_native_price p (fi_token_prices i)) \<and>
    (\<forall>m \<ge> n. \<exists>p' f'. fee_blocks m i p = Some p' \<and> fv_previous_block_fee_params p' = Some f' \<and> fp_native_price f' = r)"
  using next_native_price_converges [of "desired_native_price p (fi_token_prices i)" "fp_native_price f"]
    fee_blocks_native_price [OF assms] by fastforce

subsection \<open>Interop fee updates\<close>

text \<open>The rational comparison is a comparison of integers.\<close>

lemma should_update_fee_iff:
  "should_update_fee current_fee target_fee pct \<longleftrightarrow>
     current_fee \<noteq> target_fee \<and>
     pct * current_fee \<le> 100 * (max current_fee target_fee - min current_fee target_fee)"
proof (cases "current_fee = target_fee \<or> current_fee = 0")
  case False
  let ?d = "max current_fee target_fee - min current_fee target_fee"
  have "should_update_fee current_fee target_fee pct \<longleftrightarrow> (of_nat pct :: rat) \<le> of_nat ?d / of_nat current_fee * 100"
    using False by (auto simp: should_update_fee_def max_def min_def Let_def)
  also have "\<dots> \<longleftrightarrow> (of_nat (pct * current_fee) :: rat) \<le> of_nat (100 * ?d)"
    using False by (simp add: pos_le_divide_eq mult.commute)
  finally show ?thesis using False by (simp only: of_nat_le_iff) simp
qed (auto simp: should_update_fee_def)

subsection \<open>Witnesses\<close>

definition example_fee_config :: fee_config where
  "example_fee_config =
     \<lparr> fc_native_price_usd = 20, fc_base_fee_override = None, fc_native_per_gas = 10,
       fc_pubdata_price_override = None, fc_pubdata_price_cap = Some 500, fc_native_price_override = None \<rparr>"

definition example_previous_fees :: fee_params where
  "example_previous_fees = \<lparr> fp_eip1559_basefee = 160, fp_native_price = 16, fp_pubdata_price = 100 \<rparr>"

definition example_next_fees :: fee_params where
  "example_next_fees = \<lparr> fp_eip1559_basefee = 180, fp_native_price = 18, fp_pubdata_price = 150 \<rparr>"

definition example_fee_provider :: fee_provider where
  "example_fee_provider =
     \<lparr> fv_fee_config = example_fee_config, fv_previous_block_fee_params = Some example_previous_fees,
       fv_pubdata_mode = Some Calldata \<rparr>"

definition example_fee_inputs :: fee_inputs where
  "example_fee_inputs =
     \<lparr> fi_pubdata_price = Some 1000, fi_blob_fill_ratio = None,
       fi_token_prices = \<lparr> base_token_usd_price = 1, sl_token_usd_price = 1 \<rparr> \<rparr>"

lemmas example_fee_defs = example_fee_config_def example_fee_provider_def example_fee_inputs_def example_previous_fees_def

lemma example_fee_params: "produce_fee_params example_fee_provider example_fee_inputs = Some example_next_fees"
  by (simp add: produce_fee_params_def calculate_native_price_eq calculate_pubdata_price_def calculate_base_fee_def
      example_fee_defs desired_native_price_def next_native_price_def ceil_to_integer_def ratio_div_def
      capped_u256_min U256_MAX_def PUBDATA_PRICE_MAX_CHANGE_DENOMINATOR_def example_next_fees_def)

theorem fees_change_gradually_witness:
  "14 \<le> fp_native_price example_next_fees \<and> fp_native_price example_next_fees \<le> 18 \<and>
   fp_pubdata_price example_next_fees \<le> 150"
  using fees_change_gradually [OF example_fee_params, of example_previous_fees]
  by (simp add: example_fee_defs U256_MAX_def)

theorem native_price_converges_witness:
  "\<exists>n. \<forall>m \<ge> n. \<exists>p f. fee_blocks m example_fee_inputs example_fee_provider = Some p \<and>
     fv_previous_block_fee_params p = Some f \<and> fp_native_price f = 20"
proof -
  have d: "desired_native_price example_fee_provider (fi_token_prices example_fee_inputs) = 20"
    by (simp add: desired_native_price_def ceil_to_integer_def example_fee_defs)
  have "fc_native_price_override (fv_fee_config example_fee_provider) = None"
    "pubdata_available example_fee_provider example_fee_inputs"
    "base_token_usd_price (fi_token_prices example_fee_inputs) \<noteq> 0"
    "fv_previous_block_fee_params example_fee_provider = Some example_previous_fees"
    "fp_native_price example_previous_fees \<le> U256_MAX" "20 \<le> U256_MAX"
    by (simp_all add: example_fee_defs pubdata_available_def U256_MAX_def)
  moreover have "fp_native_price example_previous_fees \<le> 20" by (simp add: example_previous_fees_def)
  ultimately show ?thesis
    using native_price_converges [of example_fee_provider example_fee_inputs example_previous_fees, unfolded d] by blast
qed

end
