(* ===== verification/TxPool.thy ===== *)
theory TxPool
  imports Mempool Fees
begin

text \<open>
  The pool that combines the subpools (\<open>lib/mempool/src/pool.rs\<close>) and the task that feeds the
  interop fee subpool (\<open>lib/mempool/src/interop_fee_updater.rs\<close>).

  The L2 subpool is a reth pool: the pool's calls to it are recorded.  The watchers that
  \<open>init\<close> starts are recorded with the cursor they start from.  Blocking calls take one
  schedule per subpool.
\<close>

subsection \<open>State\<close>

datatype 'c watcher = NotStarted | Running 'c

datatype l2_call =
    RemoveTransactions "tx_hash list"
  | SetBlockInfo u64 "nat option"
  | UpdatePendingFeeParams fee_params
  | UpdatePendingProtocolVersion protocol_semantic_version
  | CanonicalStateUpdate b256 "(address \<times> u64 \<times> nat) list" "tx_hash list"

record pool =
  pl_upgrade_subpool :: upgrade_subpool
  pl_interop_fee_subpool :: interop_fee_subpool
  pl_interop_roots_subpool :: interop_roots_subpool
  pl_l1_subpool :: l1_subpool
  pl_l2_calls :: "l2_call list"
  pl_upgrade_watcher :: "protocol_semantic_version watcher"
  pl_l1_tx_watcher :: "u64 watcher"
  pl_interop_watcher :: "u64 watcher"

definition pool_new :: "usize \<Rightarrow> pool" where
  "pool_new interop_roots_per_tx =
     \<lparr> pl_upgrade_subpool = upgrade_subpool_default, pl_interop_fee_subpool = interop_fee_subpool_default,
       pl_interop_roots_subpool = interop_roots_subpool_new interop_roots_per_tx,
       pl_l1_subpool = l1_subpool_new 10, pl_l2_calls = [],
       pl_upgrade_watcher = NotStarted, pl_l1_tx_watcher = NotStarted, pl_interop_watcher = NotStarted \<rparr>"

definition start_watcher :: "'c \<Rightarrow> 'c watcher \<Rightarrow> 'c watcher" where
  "start_watcher cursor w = (case w of NotStarted \<Rightarrow> Running cursor | Running c \<Rightarrow> Running c)"

text \<open>\<open>genesis_upgrade_tx\<close>: what the genesis input gives.  No stream is alive during \<open>init\<close>.\<close>

record genesis_upgrade =
  gu_tx :: l1_tx
  gu_protocol_version :: protocol_semantic_version
  gu_force_deploy_preimages :: "(b256 \<times> byte list) list"

definition genesis_upgrade_info :: "genesis_upgrade \<Rightarrow> upgrade_info" where
  "genesis_upgrade_info g =
     \<lparr> ui_tx = Some (gu_tx g),
       ui_metadata = \<lparr> um_timestamp = 0, um_protocol_version = gu_protocol_version g,
                       um_force_preimages = gu_force_deploy_preimages g \<rparr> \<rparr>"

definition pool_init :: "genesis_upgrade \<Rightarrow> replay_record \<Rightarrow> pool \<Rightarrow> pool option" where
  "pool_init genesis record pool = do {
     upgrade \<leftarrow> upgrade_init (rr_protocol_version record) (pl_upgrade_subpool pool);
     let upgrade = (if bc_block_number (rr_block_context record) \<le> 1
                    then upgrade_arrive (genesis_upgrade_info genesis) upgrade else upgrade);
     fee \<leftarrow> interop_fee_init (interop_fee_number (rr_starting_cursors record)) (pl_interop_fee_subpool pool);
     Some (pool\<lparr> pl_upgrade_subpool := upgrade, pl_interop_fee_subpool := fee,
       pl_upgrade_watcher := start_watcher (rr_protocol_version record) (pl_upgrade_watcher pool),
       pl_l1_tx_watcher := start_watcher (l1_priority_id (rr_starting_cursors record)) (pl_l1_tx_watcher pool),
       pl_interop_watcher := start_watcher (interop_root_id (rr_starting_cursors record)) (pl_interop_watcher pool) \<rparr>) }"

subsection \<open>Choosing a stream\<close>

text \<open>\<open>select_with_strategy\<close> with priority to the left stream.\<close>

definition select_prio_left :: "'a option poll \<Rightarrow> 'a option poll \<Rightarrow> 'a option poll" where
  "select_prio_left left right =
     (case left of
        Ready (Some x) \<Rightarrow> Ready (Some x)
      | Ready None \<Rightarrow> right
      | Pending \<Rightarrow> (case right of Ready (Some y) \<Rightarrow> Ready (Some y) | _ \<Rightarrow> Pending))"

datatype tx_source = UpgradeTransactions l1_tx | InteropTransactions | L1L2Transactions

record stream_outcome =
  so_upgrade_metadata :: "upgrade_metadata option"
  so_stream :: tx_source

text \<open>One pass over the branches of the biased \<open>select!\<close>; the upgrade branch is over when its stream
  is closed.  A branch is disabled when its stream ends, and all disabled branches close the pool.\<close>

definition select_transactions ::
    "upgrade_metadata option \<Rightarrow> bool \<Rightarrow> bool \<Rightarrow> 'a option poll \<Rightarrow> 'b option poll \<Rightarrow> stream_outcome option poll" where
  "select_transactions metadata upgrade_closed include_interop_traffic interop l1_l2 =
     (if include_interop_traffic \<and> (case interop of Ready (Some _) \<Rightarrow> True | _ \<Rightarrow> False)
      then Ready (Some \<lparr> so_upgrade_metadata = metadata, so_stream = InteropTransactions \<rparr>)
      else if (case l1_l2 of Ready (Some _) \<Rightarrow> True | _ \<Rightarrow> False)
      then Ready (Some \<lparr> so_upgrade_metadata = metadata, so_stream = L1L2Transactions \<rparr>)
      else if upgrade_closed \<and> (include_interop_traffic \<longrightarrow> (case interop of Ready None \<Rightarrow> True | _ \<Rightarrow> False)) \<and>
              (case l1_l2 of Ready None \<Rightarrow> True | _ \<Rightarrow> False)
      then Ready None
      else Pending)"

definition best_transactions_stream ::
    "upgrade_info option poll \<Rightarrow> bool \<Rightarrow> 'a option poll \<Rightarrow> 'a option poll \<Rightarrow> 'b option poll \<Rightarrow> 'b option poll \<Rightarrow>
      stream_outcome option poll" where
  "best_transactions_stream upgrade include_interop_traffic fee roots l1 l2 =
     (let interop = select_prio_left fee roots; l1_l2 = select_prio_left l1 l2 in
      case upgrade of
        Ready (Some u) \<Rightarrow>
          (case ui_tx u of
             Some tx \<Rightarrow> Ready (Some \<lparr> so_upgrade_metadata = Some (ui_metadata u), so_stream = UpgradeTransactions tx \<rparr>)
           | None \<Rightarrow> select_transactions (Some (ui_metadata u)) True include_interop_traffic interop l1_l2)
      | Ready None \<Rightarrow> select_transactions None True include_interop_traffic interop l1_l2
      | Pending \<Rightarrow> select_transactions None False include_interop_traffic interop l1_l2)"

subsection \<open>Blocks\<close>

definition remove_transactions :: "tx_hash list \<Rightarrow> pool \<Rightarrow> pool" where
  "remove_transactions tx_hashes pool = pool\<lparr> pl_l2_calls := pl_l2_calls pool @ [RemoveTransactions tx_hashes] \<rparr>"

definition purge_transactions :: "tx_hash list \<Rightarrow> pool \<Rightarrow> pool" where
  "purge_transactions tx_hashes pool = pool\<lparr> pl_l2_calls := pl_l2_calls pool @ [RemoveTransactions tx_hashes] \<rparr>"

definition update_pending_block_fees :: "fee_params \<Rightarrow> nat option \<Rightarrow> pool \<Rightarrow> pool" where
  "update_pending_block_fees f pending_block_blob_fee pool =
     pool\<lparr> pl_l2_calls := pl_l2_calls pool @
       [SetBlockInfo (min (fp_eip1559_basefee f) (2 ^ 64 - 1)) pending_block_blob_fee, UpdatePendingFeeParams f] \<rparr>"

text \<open>The loop that sorts the transactions of a block.\<close>

record block_txs =
  bt_upgrade :: "l1_tx list"
  bt_interop :: "system_tx_envelope list"
  bt_interop_fee :: "system_tx_envelope list"
  bt_l1 :: "l1_tx list"
  bt_l2 :: "tx_hash list"

definition sort_tx :: "block_txs \<Rightarrow> zk_envelope \<Rightarrow> block_txs" where
  "sort_tx b tx =
     (case tx of
        System t \<Rightarrow>
          (case system_subtype t of
             ImportInteropRoots _ \<Rightarrow> b\<lparr> bt_interop := bt_interop b @ [t] \<rparr>
           | SetInteropFee _ \<Rightarrow> b\<lparr> bt_interop_fee := bt_interop_fee b @ [t] \<rparr>
           | SetSLChainId _ _ \<Rightarrow> b)
      | L1 t \<Rightarrow> b\<lparr> bt_l1 := bt_l1 b @ [t] \<rparr>
      | L2 t \<Rightarrow> b\<lparr> bt_l2 := bt_l2 b @ [l2_hash t] \<rparr>
      | Upgrade t \<Rightarrow> b\<lparr> bt_upgrade := bt_upgrade b @ [t] \<rparr>)"

definition sort_txs :: "zk_envelope list \<Rightarrow> block_txs" where
  "sort_txs txs = foldl sort_tx \<lparr> bt_upgrade = [], bt_interop = [], bt_interop_fee = [], bt_l1 = [], bt_l2 = [] \<rparr> txs"

record state_change_outcome =
  sco_last_interop_log_id :: "u64 option"
  sco_last_l1_priority_id :: "u64 option"
  sco_last_interop_fee_number :: "u64 option"

record schedules =
  sch_upgrade :: "upgrade_info list list"
  sch_roots :: "(u64 \<times> interop_root) list list"
  sch_fee :: "nat list list"
  sch_l1 :: "l1_tx list list"

record account_diff =
  ad_address :: address
  ad_nonce :: u64
  ad_balance :: nat

definition pool_on_canonical_state_change ::
    "(system_tx \<Rightarrow> tx_hash) \<Rightarrow> b256 \<Rightarrow> account_diff list \<Rightarrow> replay_record \<Rightarrow> bool \<Rightarrow> pool \<Rightarrow> schedules \<Rightarrow>
      (state_change_outcome \<times> pool) awaited" where
  "pool_on_canonical_state_change calculate_hash header_hash account_diffs record strict_subpool_cleanup pool sch =
     (let txs = sort_txs (rr_transactions record) in
      await_then (upgrade_on_canonical_state_change (rr_protocol_version record) (bt_upgrade txs)
        (pl_upgrade_subpool pool) (sch_upgrade sch)) (\<lambda>(upgrade, _).
      await_then (interop_on_canonical_state_change calculate_hash (bt_interop txs)
        (pl_interop_roots_subpool pool) (sch_roots sch)) (\<lambda>(last_interop_log_id, roots, _).
      await_then (interop_fee_on_canonical_state_change calculate_hash (bt_interop_fee txs) strict_subpool_cleanup
        (pl_interop_fee_subpool pool) (sch_fee sch)) (\<lambda>(last_interop_fee_number, fee, _).
      await_then (l1_on_canonical_state_change (bt_l1 txs) (pl_l1_subpool pool) (sch_l1 sch))
        (\<lambda>(last_l1_priority_id, l1, _).
      Some (Ready
        (\<lparr> sco_last_interop_log_id = last_interop_log_id, sco_last_l1_priority_id = last_l1_priority_id,
           sco_last_interop_fee_number = last_interop_fee_number \<rparr>,
         pool\<lparr> pl_upgrade_subpool := upgrade, pl_interop_roots_subpool := roots, pl_interop_fee_subpool := fee,
           pl_l1_subpool := l1,
           pl_l2_calls := pl_l2_calls pool @
             [CanonicalStateUpdate header_hash (map (\<lambda>d. (ad_address d, ad_nonce d, ad_balance d)) account_diffs) (bt_l2 txs),
              UpdatePendingProtocolVersion (rr_protocol_version record),
              UpdatePendingFeeParams (fee_params_of (rr_block_context record))] \<rparr>)))))))"

subsection \<open>Interop fee updater\<close>









lemma should_update_fee_same [simp]: "\<not> should_update_fee fee fee pct"
  by (simp add: should_update_fee_def)







subsection \<open>Produced blocks\<close>

text \<open>What the streams of the pool can have served to a block: the oldest upgrade or none, the first
  roots in runs, the pending fee, the first priority transactions.\<close>

definition block_from_pool :: "(system_tx \<Rightarrow> tx_hash) \<Rightarrow> pool \<Rightarrow> replay_record \<Rightarrow> bool" where
  "block_from_pool calculate_hash pool record \<longleftrightarrow>
     (let txs = sort_txs (rr_transactions record); version = rr_protocol_version record;
          upgrades = up_pending_upgrades (pl_upgrade_subpool pool); u = last upgrades;
          fees = pl_interop_fee_subpool pool in
      (\<exists>current. up_current_protocol_version (pl_upgrade_subpool pool) = Some current \<and>
        (bt_upgrade txs = [] \<and> version = current \<or>
         upgrades \<noteq> [] \<and> version = ui_protocol_version u \<and> current < version \<and>
           MIN_VERSION_WITH_RELIABLE_UPGRADE_LOGS \<le> version \<and>
           bt_upgrade txs = (case ui_tx u of None \<Rightarrow> [] | Some tx \<Rightarrow> [tx]))) \<and>
      (\<exists>runs rest. bt_interop txs = map (interop_envelope calculate_hash) runs \<and> [] \<notin> set runs \<and>
        irp_pending_roots (pl_interop_roots_subpool pool) = concat runs @ rest) \<and>
      (bt_interop_fee txs = [] \<or>
       (\<exists>fee n. ifp_pending_fee fees = Some fee \<and> ifp_next_interop_fee_number fees = Some n \<and>
         bt_interop_fee txs = [set_interop_fee calculate_hash fee n])) \<and>
      (\<exists>rest. rev (l1p_pending_txs (pl_l1_subpool pool)) = bt_l1 txs @ rest))"

text \<open>The watchers keep running: roots arrive in order, no fee arrives before the pending one is
  consumed, and the locks are taken often enough.\<close>

definition schedules_fit :: "pool \<Rightarrow> schedules \<Rightarrow> bool" where
  "schedules_fit pool sch \<longleftrightarrow>
     2 \<le> length (sch_upgrade sch) \<and>
     roots_in_order (pl_interop_roots_subpool pool) (concat (sch_roots sch)) \<and>
     length (irp_pending_roots (pl_interop_roots_subpool pool)) \<le> length (sch_roots sch) \<and>
     sch_fee sch \<noteq> [] \<and> hd (sch_fee sch) = [] \<and>
     length (l1p_pending_txs (pl_l1_subpool pool)) \<le> length (sch_l1 sch)"

lemma produced_upgrade_is_consumed:
  assumes "block_from_pool calculate_hash pool record" "schedules_fit pool sch"
  shows "\<exists>upgrade rest. upgrade_on_canonical_state_change (rr_protocol_version record)
      (bt_upgrade (sort_txs (rr_transactions record))) (pl_upgrade_subpool pool) (sch_upgrade sch) = Some (Ready (upgrade, rest))"
proof -
  obtain a b rest where s: "sch_upgrade sch = a # b # rest"
    using assms(2) by (auto simp: schedules_fit_def numeral_2_eq_2 Suc_le_length_iff)
  obtain current where c: "up_current_protocol_version (pl_upgrade_subpool pool) = Some current"
    and "bt_upgrade (sort_txs (rr_transactions record)) = [] \<and> rr_protocol_version record = current \<or>
      up_pending_upgrades (pl_upgrade_subpool pool) \<noteq> [] \<and>
      rr_protocol_version record = ui_protocol_version (last (up_pending_upgrades (pl_upgrade_subpool pool))) \<and>
      current < rr_protocol_version record \<and> MIN_VERSION_WITH_RELIABLE_UPGRADE_LOGS \<le> rr_protocol_version record \<and>
      bt_upgrade (sort_txs (rr_transactions record)) =
        (case ui_tx (last (up_pending_upgrades (pl_upgrade_subpool pool))) of None \<Rightarrow> [] | Some tx \<Rightarrow> [tx])"
    using assms(1) by (auto simp: block_from_pool_def Let_def)
  then show ?thesis
  proof (elim disjE)
    assume "bt_upgrade (sort_txs (rr_transactions record)) = [] \<and> rr_protocol_version record = current"
    then show ?thesis using c by (simp add: upgrade_on_canonical_state_change_def)
  next
    assume u: "up_pending_upgrades (pl_upgrade_subpool pool) \<noteq> [] \<and>
      rr_protocol_version record = ui_protocol_version (last (up_pending_upgrades (pl_upgrade_subpool pool))) \<and>
      current < rr_protocol_version record \<and> MIN_VERSION_WITH_RELIABLE_UPGRADE_LOGS \<le> rr_protocol_version record \<and>
      bt_upgrade (sort_txs (rr_transactions record)) =
        (case ui_tx (last (up_pending_upgrades (pl_upgrade_subpool pool))) of None \<Rightarrow> [] | Some tx \<Rightarrow> [tx])"
    show ?thesis
      using served_upgrade_is_consumed [of "pl_upgrade_subpool pool" _ current a b rest, OF _ refl c] u s by auto
  qed
qed

lemma produced_fees_are_consumed:
  assumes "block_from_pool calculate_hash pool record" "schedules_fit pool sch"
  shows "\<exists>n fees rest. interop_fee_on_canonical_state_change calculate_hash
      (bt_interop_fee (sort_txs (rr_transactions record))) True (pl_interop_fee_subpool pool) (sch_fee sch) =
      Some (Ready (n, fees, rest))"
proof -
  obtain rest where s: "sch_fee sch = [] # rest" using assms(2) by (cases "sch_fee sch") (auto simp: schedules_fit_def)
  have e: "interop_fee_on_canonical_state_change calculate_hash [] True fees sch = Some (Ready (None, fees, sch))" for fees sch
    by (simp add: interop_fee_on_canonical_state_change_def)
  have "bt_interop_fee (sort_txs (rr_transactions record)) = [] \<or>
      (\<exists>fee n. ifp_pending_fee (pl_interop_fee_subpool pool) = Some fee \<and>
        ifp_next_interop_fee_number (pl_interop_fee_subpool pool) = Some n \<and>
        bt_interop_fee (sort_txs (rr_transactions record)) = [set_interop_fee calculate_hash fee n])"
    using assms(1) by (simp add: block_from_pool_def Let_def)
  then show ?thesis using e served_fee_is_consumed s by metis
qed

text \<open>C4. A produced block, whose transactions the streams of the pool served, is consumed by all
  subpools without a panic and without waiting, whatever the watchers insert meanwhile; the
  pool ends at the protocol version of the block and reports the last priority id.\<close>

theorem produced_block_is_consumed:
  assumes "block_from_pool calculate_hash pool record" "schedules_fit pool sch"
  shows "\<exists>outcome pool'. pool_on_canonical_state_change calculate_hash header_hash account_diffs record True pool sch =
      Some (Ready (outcome, pool')) \<and>
    up_current_protocol_version (pl_upgrade_subpool pool') = Some (rr_protocol_version record) \<and>
    sco_last_l1_priority_id outcome =
      (let l1 = bt_l1 (sort_txs (rr_transactions record)) in if l1 = [] then None else Some (priority_id (last l1)))"
proof -
  let ?txs = "sort_txs (rr_transactions record)"
  obtain upgrade rest where u: "upgrade_on_canonical_state_change (rr_protocol_version record) (bt_upgrade ?txs)
      (pl_upgrade_subpool pool) (sch_upgrade sch) = Some (Ready (upgrade, rest))"
    using produced_upgrade_is_consumed [OF assms] by blast
  obtain n fees rest2 where f: "interop_fee_on_canonical_state_change calculate_hash (bt_interop_fee ?txs) True
      (pl_interop_fee_subpool pool) (sch_fee sch) = Some (Ready (n, fees, rest2))"
    using produced_fees_are_consumed [OF assms] by blast
  obtain runs rest3 where r: "bt_interop ?txs = map (interop_envelope calculate_hash) runs" "[] \<notin> set runs"
      "irp_pending_roots (pl_interop_roots_subpool pool) = concat runs @ rest3"
    using assms(1) by (auto simp: block_from_pool_def Let_def)
  have le: "length (concat runs) \<le> length (sch_roots sch)" "roots_in_order (pl_interop_roots_subpool pool) (concat (sch_roots sch))"
    using assms(2) r(3) by (simp_all add: schedules_fit_def)
  obtain i roots rest4 where i: "interop_on_canonical_state_change calculate_hash (bt_interop ?txs)
      (pl_interop_roots_subpool pool) (sch_roots sch) = Some (Ready (i, roots, rest4))"
    using interop_run_consumed [OF r(3,2) le, of calculate_hash] r(1) by auto
  obtain rest5 where l: "rev (l1p_pending_txs (pl_l1_subpool pool)) = bt_l1 ?txs @ rest5"
    using assms(1) by (auto simp: block_from_pool_def Let_def)
  have "length (bt_l1 ?txs) \<le> length (sch_l1 sch)"
    using assms(2) arg_cong [OF l, of length] by (simp add: schedules_fit_def)
  then obtain l1 where "l1_on_canonical_state_change (bt_l1 ?txs) (pl_l1_subpool pool) (sch_l1 sch) =
      Some (Ready (if bt_l1 ?txs = [] then None else Some (priority_id (last (bt_l1 ?txs))), l1, drop (length (bt_l1 ?txs)) (sch_l1 sch)))"
    using l1_pop_executed_drained [OF l] by blast
  moreover have "up_current_protocol_version upgrade = Some (rr_protocol_version record)"
    using u reach_protocol_version_settles
    by (auto simp: upgrade_on_canonical_state_change_def await_then_Ready_iff Let_def split: option.splits if_splits list.splits)
  ultimately show ?thesis by (simp add: pool_on_canonical_state_change_def u f i Let_def)
qed

subsection \<open>Witnesses\<close>





definition example_block_context :: block_context where
  "example_block_context =
     \<lparr> bc_chain_id = 270, bc_block_number = 5, bc_block_hashes = block_hashes_default, bc_timestamp = 1000,
       bc_eip1559_basefee = 160, bc_pubdata_price = 100, bc_native_price = 16, bc_coinbase = replicate 20 2,
       bc_gas_limit = 1000000, bc_pubdata_limit = 100000, bc_mix_hash = 0, bc_execution_version = 5, bc_blob_fee = 1 \<rparr>"

definition example_record :: replay_record where
  "example_record =
     \<lparr> rr_block_context = example_block_context,
       rr_transactions = [L1 (example_l1_tx 3), L2 \<lparr> l2_hash = replicate 32 7, l2_signer = replicate 20 3, l2_nonce = 0, l2_gas_limit = 21000 \<rparr>],
       rr_previous_block_timestamp = 999, rr_node_version = (0, 1, 0),
       rr_protocol_version = MIN_VERSION_WITH_RELIABLE_UPGRADE_LOGS, rr_block_output_hash = replicate 32 9,
       rr_force_preimages = [],
       rr_starting_cursors = \<lparr> l1_priority_id = 3, interop_root_id = 0, migration_number = 0, interop_fee_number = 0 \<rparr> \<rparr>"

definition example_pool :: pool where
  "example_pool = (pool_new 2)\<lparr>
     pl_upgrade_subpool := upgrade_subpool_default\<lparr> up_current_protocol_version := Some MIN_VERSION_WITH_RELIABLE_UPGRADE_LOGS \<rparr>,
     pl_l1_subpool := (l1_subpool_new 10)\<lparr> l1p_pending_txs := [example_l1_tx 4, example_l1_tx 3] \<rparr> \<rparr>"

definition example_schedules :: schedules where
  "example_schedules = \<lparr> sch_upgrade = [[], []], sch_roots = [], sch_fee = [[]], sch_l1 = [[example_l1_tx 5], []] \<rparr>"

lemma example_sorted:
  "bt_upgrade (sort_txs (rr_transactions example_record)) = []" "bt_interop (sort_txs (rr_transactions example_record)) = []"
  "bt_interop_fee (sort_txs (rr_transactions example_record)) = []"
  "bt_l1 (sort_txs (rr_transactions example_record)) = [example_l1_tx 3]"
  by (simp_all add: example_record_def sort_txs_def sort_tx_def)

theorem produced_block_is_consumed_witness:
  "\<exists>outcome pool. pool_on_canonical_state_change no_hash (replicate 32 0) [] example_record True example_pool example_schedules =
     Some (Ready (outcome, pool)) \<and> sco_last_l1_priority_id outcome = Some 3"
proof -
  have v: "rr_protocol_version example_record = MIN_VERSION_WITH_RELIABLE_UPGRADE_LOGS" by (simp add: example_record_def)
  have 1: "block_from_pool no_hash example_pool example_record"
    by (auto simp: block_from_pool_def example_sorted Let_def example_pool_def pool_new_def upgrade_subpool_default_def
        interop_roots_subpool_new_def l1_subpool_new_def v)
  have 2: "schedules_fit example_pool example_schedules"
    by (simp add: schedules_fit_def example_schedules_def example_pool_def pool_new_def interop_roots_subpool_new_def
        l1_subpool_new_def roots_in_order_def)
  have 3: "priority_id (last [example_l1_tx 3]) = 3" by (simp add: example_l1_tx_def priority_id_def)
  show ?thesis
    using produced_block_is_consumed [OF 1 2, of "replicate 32 0" "[]", unfolded example_sorted Let_def 3] by auto
qed

end
