(* ===== verification/BlockExecution.thy ===== *)
theory BlockExecution
  imports TxPool "HOL-Library.Sublist"
begin

text \<open>
  The execution of one block (\<open>lib/sequencer/src/execution/execute_block_in_vm.rs\<close>): the loop that
  feeds transactions to the virtual machine, decides when to seal, and checks the result.

  The virtual machine is external: a parameter with its state, which stands for the library and
  the channels of \<open>vm_wrapper.rs\<close> to its thread; production and replay use the same one.  What the \<open>select!\<close> of the loop
  sees is a list of events: transactions of the stream, its end, the deadline.  The deadline
  can only fire once it is armed.  Error messages are constructors.
\<close>

subsection \<open>Commands\<close>

datatype seal_policy = Decide nat usize | UntilExhausted bool

datatype invalid_tx_policy = RejectAndContinue bool | Abort

text \<open>The stream of a command: a fixed list, or the streams of the pool, possibly followed by an
  injected transaction.  Only a stream with a marker can mark L2 transactions.\<close>

datatype marking_tx_stream = FixedTxs "zk_envelope list" | PoolTxs tx_source "zk_envelope option"

definition markable :: "marking_tx_stream \<Rightarrow> bool" where
  "markable s \<longleftrightarrow> s = PoolTxs L1L2Transactions None"

record prepared_block_command =
  pc_block_context :: block_context
  pc_seal_policy :: seal_policy
  pc_invalid_tx_policy :: invalid_tx_policy
  pc_tx_source :: marking_tx_stream
  pc_protocol_version :: protocol_semantic_version
  pc_expected_block_output_hash :: "b256 option"
  pc_previous_block_timestamp :: u64
  pc_force_preimages :: "(b256 \<times> byte list) list"
  pc_expect_sl_chain_id_tx_after_upgrade :: bool
  pc_starting_cursors :: block_start_cursors
  pc_interop_roots_per_block :: u64
  pc_strict_subpool_cleanup :: bool

subsection \<open>Rejections\<close>

datatype seal_reason =
    TxStreamExhausted | Timeout | TxCountLimit | GasLimit | GasVm | NativeCycles | Pubdata | L2ToL1Logs
  | BlobGas | UpgradeTx | SLChainIdUpdateTx | LimitedInteropOnlyBlock | OtherReason

datatype vm_invalid_tx =
    InvalidEncoding | InvalidStructure | PriorityFeeGreaterThanMaxFee | CallerGasLimitMoreThanBlock
  | CallerGasLimitMoreThanTxLimit | CallGasCostMoreThanGasLimit | RejectCallerWithCode | OverflowPaymentInTransaction
  | NonceOverflowInTransaction | NonceTooLow | MalleableSignature | IncorrectFrom | CreateInitCodeSizeLimit
  | InvalidChainId | AccessListNotSupported | PubdataPriceTooHigh | BlockGasLimitTooHigh | UpgradeTxNotFirst | Revert
  | ReceivedInsufficientFees | InvalidMagic | InvalidReturndataLength | OutOfGasDuringValidation
  | OutOfNativeResourcesDuringValidation | NonceUsedAlready | NonceNotIncreased | PaymasterReturnDataTooShort
  | PaymasterInvalidMagic | PaymasterContextInvalid | PaymasterContextOffsetTooLong | AuthListIsEmpty
  | BlobElementIsNotSupported | EIP7623IntrinsicGasIsTooLow | NativeResourcesAreTooExpensive | OtherUnrecoverable
  | EIP7702HasNullDestination | BlobListTooLong | EmptyBlobList | FilteredByValidator | CallerGasLimitTooHigh
  | FriProofTxNotSupported | FriProofSidecarMissing | FriProofVerificationFailed | FriProofStatementHashMismatch
  | TooManyFriStatements | GasPriceLessThanBasefee | LackOfFundForMaxFee | NonceTooHigh | BaseFeeGreaterThanMaxFee
  | BlobBaseFeeGreaterThanMaxFeePerBlobGas | BlockGasLimitReached | BlockNativeLimitReached
  | BlockPubdataLimitReached | BlockL2ToL1LogsLimitReached | BlockBlobGasLimitReached | OtherLimitReached

datatype tx_rejection_method = Purge | Skip | SealBlock seal_reason

definition rejection_method :: "vm_invalid_tx \<Rightarrow> tx_rejection_method" where
  "rejection_method e =
     (case e of
        GasPriceLessThanBasefee \<Rightarrow> Skip
      | LackOfFundForMaxFee \<Rightarrow> Skip
      | NonceTooHigh \<Rightarrow> Skip
      | BaseFeeGreaterThanMaxFee \<Rightarrow> Skip
      | BlobBaseFeeGreaterThanMaxFeePerBlobGas \<Rightarrow> Skip
      | BlockGasLimitReached \<Rightarrow> SealBlock GasVm
      | BlockNativeLimitReached \<Rightarrow> SealBlock NativeCycles
      | BlockPubdataLimitReached \<Rightarrow> SealBlock Pubdata
      | BlockL2ToL1LogsLimitReached \<Rightarrow> SealBlock L2ToL1Logs
      | BlockBlobGasLimitReached \<Rightarrow> SealBlock BlobGas
      | OtherLimitReached \<Rightarrow> SealBlock OtherReason
      | _ \<Rightarrow> Purge)"

subsection \<open>Virtual machine\<close>

record vm_tx_output =
  vt_status :: bool
  vt_gas_used :: u64

record vm_block_output =
  vo_header_hash :: b256
  vo_tx_results :: "(vm_invalid_tx + vm_tx_output) list"
  vo_storage_writes :: "(b256 \<times> b256) list"
  vo_account_diffs :: "account_diff list"
  vo_published_preimages :: "(b256 \<times> byte list) list"

record 'vm virtual_machine =
  vm_new :: "block_context \<Rightarrow> (b256 \<times> byte list) list \<Rightarrow> 'vm"
  vm_execute_next_tx :: "'vm \<Rightarrow> zk_envelope \<Rightarrow> string + ((vm_invalid_tx + vm_tx_output) \<times> 'vm)"
  vm_seal_block :: "'vm \<Rightarrow> string + vm_block_output"

subsection \<open>The loop\<close>

datatype exec_event = StreamTx zk_envelope | StreamEnded | DeadlineFired

record 'vm block_state =
  bx_runner :: 'vm
  bx_executed_txs :: "zk_envelope list"
  bx_cumulative_gas_used :: u64
  bx_purged_txs :: "(tx_hash \<times> vm_invalid_tx) list"
  bx_all_processed_txs :: "zk_envelope list"
  bx_deadline :: bool
  bx_interop_roots_count :: u64
  bx_marked :: "zk_envelope list"

datatype dump_error =
    RunnerFailed string
  | UpgradeReverted tx_hash
  | InvalidPriorityTx zk_tx_type vm_invalid_tx tx_hash
  | InvalidSystemTx system_tx_type vm_invalid_tx tx_hash
  | InvalidL2Tx vm_invalid_tx tx_hash
  | UnexpectedlyExhausted u64
  | SealedEarly seal_reason u64
  | SealFailed string
  | OutputHashMismatch b256 b256

datatype 'vm tx_step = NextTx "'vm block_state" | Break seal_reason "'vm block_state" | DumpWith dump_error "zk_envelope list" | StepPanics

definition interop_roots_in :: "zk_envelope \<Rightarrow> u64" where
  "interop_roots_in tx = (case as_system_tx_type tx of Some (ImportInteropRoots roots_count) \<Rightarrow> roots_count | _ \<Rightarrow> 0)"

text \<open>The additions are checked: \<open>None\<close> is the panic on overflow.\<close>

definition checked_add :: "u64 \<Rightarrow> u64 \<Rightarrow> u64 option" where
  "checked_add a b = (if a + b < 2 ^ 64 then Some (a + b) else None)"

lemma checked_add_Some: "checked_add a b = Some c \<longleftrightarrow> c = a + b \<and> c < 2 ^ 64"
  by (auto simp: checked_add_def)

definition should_exclude_and_seal ::
    "block_context \<Rightarrow> u64 \<Rightarrow> u64 \<Rightarrow> u64 \<Rightarrow> zk_envelope \<Rightarrow> seal_reason option option" where
  "should_exclude_and_seal ctx cumulative_gas_used interop_roots_count interop_roots_per_block tx =
     (case checked_add cumulative_gas_used (tx_gas_limit tx) of
        None \<Rightarrow> None
      | Some gas \<Rightarrow>
          if gas > bc_gas_limit ctx then Some (Some GasLimit)
          else (case as_system_tx_type tx of
                  Some (ImportInteropRoots roots_count) \<Rightarrow>
                    (case checked_add interop_roots_count roots_count of
                       None \<Rightarrow> None
                     | Some roots \<Rightarrow> Some (if roots > interop_roots_per_block then Some LimitedInteropOnlyBlock else None))
                | _ \<Rightarrow> Some None))"

definition can_finish_early :: "seal_policy \<Rightarrow> bool" where
  "can_finish_early p = (case p of Decide _ _ \<Rightarrow> True | UntilExhausted allowed_to_finish_early \<Rightarrow> allowed_to_finish_early)"

definition is_sl_chain_id_tx :: "zk_envelope \<Rightarrow> bool" where
  "is_sl_chain_id_tx tx = (case as_system_tx_type tx of Some (SetSLChainId _ _) \<Rightarrow> True | _ \<Rightarrow> False)"

text \<open>The branch for an executed transaction.\<close>

definition tx_accepted ::
    "seal_policy \<Rightarrow> bool \<Rightarrow> zk_envelope \<Rightarrow> vm_tx_output \<Rightarrow> 'vm block_state \<Rightarrow> 'vm tx_step" where
  "tx_accepted policy expect_sl_chain_id_tx_after_upgrade tx res s =
     (case (checked_add (bx_interop_roots_count s) (interop_roots_in tx), checked_add (bx_cumulative_gas_used s) (vt_gas_used res)) of
        (Some roots, Some gas) \<Rightarrow>
          (let s = s\<lparr> bx_interop_roots_count := roots, bx_executed_txs := bx_executed_txs s @ [tx], bx_cumulative_gas_used := gas \<rparr>
           in if tx_type tx = TyUpgrade \<and> \<not> vt_status res then DumpWith (UpgradeReverted (tx_hash_of tx)) (bx_all_processed_txs s)
              else if tx_type tx = TyUpgrade \<and> \<not> expect_sl_chain_id_tx_after_upgrade \<and> can_finish_early policy then Break UpgradeTx s
              else if is_sl_chain_id_tx tx \<and> can_finish_early policy then Break SLChainIdUpdateTx s
              else (case policy of
                      Decide _ limit \<Rightarrow> if length (bx_executed_txs s) \<ge> limit then Break TxCountLimit s else NextTx s
                    | UntilExhausted _ \<Rightarrow> NextTx s))
      | _ \<Rightarrow> StepPanics)"

text \<open>The branch for a rejected transaction.\<close>

definition tx_rejected ::
    "seal_policy \<Rightarrow> invalid_tx_policy \<Rightarrow> bool \<Rightarrow> zk_envelope \<Rightarrow> vm_invalid_tx \<Rightarrow> 'vm block_state \<Rightarrow> 'vm tx_step" where
  "tx_rejected policy invalid_policy has_marker tx e s =
     (case tx of
        L2 t \<Rightarrow>
          (case invalid_policy of
             Abort \<Rightarrow> DumpWith (InvalidL2Tx e (tx_hash_of tx)) (bx_all_processed_txs s)
           | RejectAndContinue mark_in_source \<Rightarrow>
               if mark_in_source \<and> \<not> has_marker then StepPanics
               else let s = (if mark_in_source then s\<lparr> bx_marked := bx_marked s @ [tx] \<rparr> else s);
                        purged = s\<lparr> bx_purged_txs := bx_purged_txs s @ [(tx_hash_of tx, e)] \<rparr>
                    in (case rejection_method e of
                          Purge \<Rightarrow> NextTx purged
                        | Skip \<Rightarrow> NextTx s
                        | SealBlock reason \<Rightarrow>
                            (case policy of
                               Decide _ _ \<Rightarrow> if bx_executed_txs s = [] then NextTx purged else Break reason s
                             | UntilExhausted _ \<Rightarrow> Break reason s)))
      | System t \<Rightarrow> DumpWith (InvalidSystemTx (system_subtype t) e (tx_hash_of tx)) (bx_all_processed_txs s)
      | _ \<Rightarrow>
          (case rejection_method e of
             SealBlock reason \<Rightarrow> Break reason s
           | _ \<Rightarrow> DumpWith (InvalidPriorityTx (tx_type tx) e (tx_hash_of tx)) (bx_all_processed_txs s)))"

definition process_tx ::
    "'vm virtual_machine \<Rightarrow> prepared_block_command \<Rightarrow> seal_policy \<Rightarrow> zk_envelope \<Rightarrow> 'vm block_state \<Rightarrow> 'vm tx_step" where
  "process_tx vm command policy tx s =
     (case should_exclude_and_seal (pc_block_context command) (bx_cumulative_gas_used s) (bx_interop_roots_count s)
             (pc_interop_roots_per_block command) tx of
        None \<Rightarrow> StepPanics
      | Some (Some reason) \<Rightarrow> Break reason s
      | Some None \<Rightarrow>
          (let s = s\<lparr> bx_all_processed_txs := bx_all_processed_txs s @ [tx],
                      bx_deadline := bx_deadline s \<or> (case pc_seal_policy command of Decide _ _ \<Rightarrow> True | _ \<Rightarrow> False) \<rparr>
           in case vm_execute_next_tx vm (bx_runner s) tx of
                Inl e \<Rightarrow> DumpWith (RunnerFailed e) (bx_all_processed_txs s)
              | Inr (Inr res, runner) \<Rightarrow>
                  tx_accepted policy (pc_expect_sl_chain_id_tx_after_upgrade command) tx res (s\<lparr> bx_runner := runner \<rparr>)
              | Inr (Inl e, runner) \<Rightarrow>
                  tx_rejected policy (pc_invalid_tx_policy command) (markable (pc_tx_source command)) tx e
                    (s\<lparr> bx_runner := runner \<rparr>)))"

datatype 'vm loop_result =
    SealedBecause seal_reason "'vm block_state" | Dumped dump_error "zk_envelope list" | LoopPanics | LoopWaits

fun block_loop ::
    "'vm virtual_machine \<Rightarrow> prepared_block_command \<Rightarrow> seal_policy \<Rightarrow> exec_event list \<Rightarrow> 'vm block_state \<Rightarrow> 'vm loop_result" where
  "block_loop vm command policy [] s = LoopWaits"
| "block_loop vm command policy (DeadlineFired # events) s =
     (if bx_deadline s then SealedBecause Timeout s else block_loop vm command policy events s)"
| "block_loop vm command policy (StreamEnded # events) s = SealedBecause TxStreamExhausted s"
| "block_loop vm command policy (StreamTx tx # events) s =
     (case process_tx vm command policy tx s of
        NextTx s \<Rightarrow> block_loop vm command policy events s
      | Break reason s \<Rightarrow> SealedBecause reason s
      | DumpWith e txs \<Rightarrow> Dumped e txs
      | StepPanics \<Rightarrow> LoopPanics)"

text \<open>The limit is raised to two when the injected chain id transaction must fit.\<close>

definition effective_seal_policy :: "prepared_block_command \<Rightarrow> seal_policy" where
  "effective_seal_policy command =
     (case pc_seal_policy command of
        Decide duration tx_limit \<Rightarrow>
          if pc_expect_sl_chain_id_tx_after_upgrade command \<and> tx_limit < 2 then Decide duration 2 else Decide duration tx_limit
      | p \<Rightarrow> p)"

subsection \<open>Sealing\<close>

definition seal_reason_valid :: "seal_policy \<Rightarrow> seal_reason \<Rightarrow> u64 \<Rightarrow> dump_error option" where
  "seal_reason_valid policy reason block_number =
     (case policy of
        Decide _ _ \<Rightarrow> if reason = TxStreamExhausted then Some (UnexpectedlyExhausted block_number) else None
      | UntilExhausted allowed_to_finish_early \<Rightarrow>
          if \<not> allowed_to_finish_early \<and> reason \<noteq> TxStreamExhausted then Some (SealedEarly reason block_number) else None)"

definition u64_to_be_bytes :: "u64 \<Rightarrow> byte list" where
  "u64_to_be_bytes n = map (\<lambda>i. of_nat (n div 256 ^ (7 - i))) [0..<8]"

definition is_ok :: "'e + 'a \<Rightarrow> bool" where
  "is_ok r = (case r of Inr _ \<Rightarrow> True | Inl _ \<Rightarrow> False)"

definition hash_block_output :: "(byte list \<Rightarrow> b256) \<Rightarrow> vm_block_output \<Rightarrow> b256" where
  "hash_block_output keccak256 out =
     keccak256 (vo_header_hash out @
       concat (map (\<lambda>r. case r of Inr t \<Rightarrow> (if vt_status t then 1 else 0) # u64_to_be_bytes (vt_gas_used t) | Inl _ \<Rightarrow> [])
         (vo_tx_results out)) @
       concat (map (\<lambda>(k, v). k @ v) (vo_storage_writes out)))"

definition finish_output :: "prepared_block_command \<Rightarrow> vm_block_output \<Rightarrow> vm_block_output" where
  "finish_output command out =
     out\<lparr> vo_published_preimages := vo_published_preimages out @ pc_force_preimages command,
          vo_tx_results := filter is_ok (vo_tx_results out) \<rparr>"

datatype 'r executed = Executed 'r | Failed dump_error "zk_envelope list" | ExecutionPanics | ExecutionWaits

type_synonym block_result = "vm_block_output \<times> replay_record \<times> (tx_hash \<times> vm_invalid_tx) list \<times> bool"

definition seal_block_output ::
    "(byte list \<Rightarrow> b256) \<Rightarrow> nat \<times> nat \<times> nat \<Rightarrow> prepared_block_command \<Rightarrow> 'vm virtual_machine \<Rightarrow> 'vm block_state \<Rightarrow> block_result executed" where
  "seal_block_output keccak256 node_version command vm s =
     (case vm_seal_block vm (bx_runner s) of
        Inl e \<Rightarrow> Failed (SealFailed e) (bx_all_processed_txs s)
      | Inr sealed \<Rightarrow>
          (let out = finish_output command sealed; h = hash_block_output keccak256 out in
           if (case pc_expected_block_output_hash command of Some expected_hash \<Rightarrow> expected_hash \<noteq> h | None \<Rightarrow> False)
           then Failed (OutputHashMismatch (the (pc_expected_block_output_hash command)) h) (bx_all_processed_txs s)
           else (case replay_record_new (pc_block_context command) (bx_executed_txs s) (pc_previous_block_timestamp command)
                        node_version (pc_protocol_version command) h (pc_force_preimages command) (pc_starting_cursors command) of
                   None \<Rightarrow> ExecutionPanics
                 | Some record \<Rightarrow> Executed (out, record, bx_purged_txs s, pc_strict_subpool_cleanup command))))"

definition initial_block_state :: "'vm virtual_machine \<Rightarrow> prepared_block_command \<Rightarrow> 'vm block_state" where
  "initial_block_state vm command =
     \<lparr> bx_runner = vm_new vm (pc_block_context command) (pc_force_preimages command), bx_executed_txs = [],
       bx_cumulative_gas_used = 0, bx_purged_txs = [], bx_all_processed_txs = [], bx_deadline = False,
       bx_interop_roots_count = 0, bx_marked = [] \<rparr>"

definition execute_block_in_vm ::
    "(byte list \<Rightarrow> b256) \<Rightarrow> nat \<times> nat \<times> nat \<Rightarrow> 'vm virtual_machine \<Rightarrow> prepared_block_command \<Rightarrow> exec_event list \<Rightarrow>
      block_result executed" where
  "execute_block_in_vm keccak256 node_version vm command events =
     (let policy = effective_seal_policy command in
      case block_loop vm command policy events (initial_block_state vm command) of
        SealedBecause reason s \<Rightarrow>
          (case seal_reason_valid policy reason (bc_block_number (pc_block_context command)) of
             Some e \<Rightarrow> Failed e (bx_all_processed_txs s)
           | None \<Rightarrow> seal_block_output keccak256 node_version command vm s)
      | Dumped e txs \<Rightarrow> Failed e txs
      | LoopPanics \<Rightarrow> ExecutionPanics
      | LoopWaits \<Rightarrow> ExecutionWaits)"

subsection \<open>What a step does\<close>

lemma rejection_method_reason: "rejection_method e = SealBlock reason \<Longrightarrow> reason \<noteq> TxStreamExhausted"
  by (cases e) (auto simp: rejection_method_def)

lemma should_exclude_reason: "should_exclude_and_seal ctx g n m tx = Some (Some reason) \<Longrightarrow> reason \<noteq> TxStreamExhausted"
  by (auto simp: should_exclude_and_seal_def split: if_splits option.splits system_tx_type.splits)

text \<open>The transactions of the virtual machine's answers: an accepted one is appended, a rejected one
  leaves the executed list alone.\<close>

definition accepts :: "'vm virtual_machine \<Rightarrow> prepared_block_command \<Rightarrow> zk_envelope \<Rightarrow> 'vm block_state \<Rightarrow> 'vm block_state \<Rightarrow> bool" where
  "accepts vm command tx s s' \<longleftrightarrow>
     should_exclude_and_seal (pc_block_context command) (bx_cumulative_gas_used s) (bx_interop_roots_count s)
       (pc_interop_roots_per_block command) tx = Some None \<and>
     (\<exists>res. vm_execute_next_tx vm (bx_runner s) tx = Inr (Inr res, bx_runner s') \<and>
        (tx_type tx = TyUpgrade \<longrightarrow> vt_status res) \<and>
        bx_executed_txs s' = bx_executed_txs s @ [tx] \<and>
        checked_add (bx_cumulative_gas_used s) (vt_gas_used res) = Some (bx_cumulative_gas_used s') \<and>
        checked_add (bx_interop_roots_count s) (interop_roots_in tx) = Some (bx_interop_roots_count s') \<and>
        bx_purged_txs s' = bx_purged_txs s)"

definition declines :: "'vm virtual_machine \<Rightarrow> zk_envelope \<Rightarrow> 'vm block_state \<Rightarrow> 'vm block_state \<Rightarrow> bool" where
  "declines vm tx s s' \<longleftrightarrow>
     (bx_runner s' = bx_runner s \<or> (\<exists>e. vm_execute_next_tx vm (bx_runner s) tx = Inr (Inl e, bx_runner s'))) \<and>
     bx_executed_txs s' = bx_executed_txs s \<and> bx_cumulative_gas_used s' = bx_cumulative_gas_used s \<and>
     bx_interop_roots_count s' = bx_interop_roots_count s"

lemma tx_accepted_cases:
  assumes "tx_accepted policy b tx res s = NextTx s' \<or> tx_accepted policy b tx res s = Break reason s'"
  shows "(tx_type tx = TyUpgrade \<longrightarrow> vt_status res) \<and> bx_runner s' = bx_runner s \<and>
    bx_executed_txs s' = bx_executed_txs s @ [tx] \<and>
    checked_add (bx_cumulative_gas_used s) (vt_gas_used res) = Some (bx_cumulative_gas_used s') \<and>
    checked_add (bx_interop_roots_count s) (interop_roots_in tx) = Some (bx_interop_roots_count s') \<and>
    bx_purged_txs s' = bx_purged_txs s"
  using assms by (auto simp: tx_accepted_def Let_def split: if_splits seal_policy.splits option.splits)

lemma tx_accepted_NextTx_count:
  "tx_accepted (Decide d limit) b tx res s = NextTx s' \<Longrightarrow> length (bx_executed_txs s') < limit"
  by (auto simp: tx_accepted_def Let_def split: if_splits option.splits)

lemma tx_rejected_cases:
  assumes "tx_rejected policy invalid_policy m tx e s = NextTx s' \<or> tx_rejected policy invalid_policy m tx e s = Break reason s'"
  shows "bx_runner s' = bx_runner s \<and> bx_executed_txs s' = bx_executed_txs s \<and>
    bx_cumulative_gas_used s' = bx_cumulative_gas_used s \<and> bx_interop_roots_count s' = bx_interop_roots_count s"
  using assms
  by (auto simp: tx_rejected_def Let_def split: zk_envelope.splits invalid_tx_policy.splits tx_rejection_method.splits
      seal_policy.splits if_splits)

lemma tx_rejected_NextTx:
  "tx_rejected policy invalid_policy m tx e s = NextTx s' \<Longrightarrow> tx_type tx = TyL2 \<and> invalid_policy \<noteq> Abort"
  by (auto simp: tx_rejected_def tx_type_def Let_def split: zk_envelope.splits invalid_tx_policy.splits
      tx_rejection_method.splits seal_policy.splits if_splits)

lemma tx_rejected_Break: "tx_rejected policy invalid_policy m tx e s = Break reason s' \<Longrightarrow> reason \<noteq> TxStreamExhausted"
  by (auto simp: tx_rejected_def Let_def split: zk_envelope.splits invalid_tx_policy.splits tx_rejection_method.splits
      seal_policy.splits if_splits dest: rejection_method_reason)

lemma tx_accepted_Break: "tx_accepted policy b tx res s = Break reason s' \<Longrightarrow> reason \<noteq> TxStreamExhausted"
  by (auto simp: tx_accepted_def Let_def split: if_splits seal_policy.splits option.splits)

lemma process_tx_NextTx:
  assumes "process_tx vm command policy tx s = NextTx s'"
  shows "accepts vm command tx s s' \<or> declines vm tx s s' \<and> tx_type tx = TyL2 \<and> pc_invalid_tx_policy command \<noteq> Abort"
proof (cases "should_exclude_and_seal (pc_block_context command) (bx_cumulative_gas_used s) (bx_interop_roots_count s)
    (pc_interop_roots_per_block command) tx = Some None")
  case True
  let ?s = "s\<lparr> bx_all_processed_txs := bx_all_processed_txs s @ [tx],
    bx_deadline := bx_deadline s \<or> (case pc_seal_policy command of Decide _ _ \<Rightarrow> True | _ \<Rightarrow> False) \<rparr>"
  consider res runner where "vm_execute_next_tx vm (bx_runner s) tx = Inr (Inr res, runner)"
      "tx_accepted policy (pc_expect_sl_chain_id_tx_after_upgrade command) tx res (?s\<lparr> bx_runner := runner \<rparr>) = NextTx s'"
    | e runner where "vm_execute_next_tx vm (bx_runner s) tx = Inr (Inl e, runner)"
      "tx_rejected policy (pc_invalid_tx_policy command) (markable (pc_tx_source command)) tx e (?s\<lparr> bx_runner := runner \<rparr>) = NextTx s'"
    using assms True by (auto simp: process_tx_def Let_def split: sum.splits)
  then show ?thesis
  proof cases
    case 1
    then show ?thesis using tx_accepted_cases [OF disjI1, OF 1(2)] True by (simp add: accepts_def)
  next
    case 2
    then show ?thesis using tx_rejected_cases [OF disjI1, OF 2(2)] tx_rejected_NextTx [OF 2(2)] by (simp add: declines_def)
  qed
qed (use assms in \<open>auto simp: process_tx_def split: option.splits\<close>)

lemma process_tx_Break:
  assumes "process_tx vm command policy tx s = Break reason s'"
  shows "(accepts vm command tx s s' \<or> declines vm tx s s') \<and> reason \<noteq> TxStreamExhausted"
proof (cases "should_exclude_and_seal (pc_block_context command) (bx_cumulative_gas_used s) (bx_interop_roots_count s)
    (pc_interop_roots_per_block command) tx = Some None")
  case True
  let ?s = "s\<lparr> bx_all_processed_txs := bx_all_processed_txs s @ [tx],
    bx_deadline := bx_deadline s \<or> (case pc_seal_policy command of Decide _ _ \<Rightarrow> True | _ \<Rightarrow> False) \<rparr>"
  consider res runner where "vm_execute_next_tx vm (bx_runner s) tx = Inr (Inr res, runner)"
      "tx_accepted policy (pc_expect_sl_chain_id_tx_after_upgrade command) tx res (?s\<lparr> bx_runner := runner \<rparr>) = Break reason s'"
    | e runner where "vm_execute_next_tx vm (bx_runner s) tx = Inr (Inl e, runner)"
      "tx_rejected policy (pc_invalid_tx_policy command) (markable (pc_tx_source command)) tx e (?s\<lparr> bx_runner := runner \<rparr>) = Break reason s'"
    using assms True by (auto simp: process_tx_def Let_def split: sum.splits)
  then show ?thesis
  proof cases
    case 1
    then show ?thesis using tx_accepted_cases [OF disjI2, OF 1(2)] tx_accepted_Break [OF 1(2)] True by (simp add: accepts_def)
  next
    case 2
    then show ?thesis using tx_rejected_cases [OF disjI2, OF 2(2)] tx_rejected_Break [OF 2(2)] by (simp add: declines_def)
  qed
next
  case False
  then show ?thesis using assms should_exclude_reason by (auto simp: process_tx_def declines_def split: option.splits)
qed

subsection \<open>Order and limits\<close>

fun stream_txs :: "exec_event list \<Rightarrow> zk_envelope list" where
  "stream_txs [] = []"
| "stream_txs (StreamTx tx # events) = tx # stream_txs events"
| "stream_txs (_ # events) = stream_txs events"

definition not_l2 :: "zk_envelope \<Rightarrow> bool" where
  "not_l2 tx \<longleftrightarrow> tx_type tx \<noteq> TyL2"

lemma block_loop_order:
  assumes "block_loop vm command policy events s = SealedBecause reason s'"
  shows "\<exists>k txs. bx_executed_txs s' = bx_executed_txs s @ txs \<and> subseq txs (take k (stream_txs events)) \<and>
    filter not_l2 txs = filter not_l2 (take k (stream_txs events))"
  using assms
proof (induction vm command policy events s rule: block_loop.induct)
  case (2 vm command policy events s)
  then show ?case by (auto split: if_splits intro: exI [of _ 0])
next
  case (3 vm command policy events s)
  then show ?case by (auto intro: exI [of _ 0])
next
  case (4 vm command policy tx events s)
  show ?case
  proof (cases "process_tx vm command policy tx s")
    case (NextTx s1)
    then obtain k txs where IH: "bx_executed_txs s' = bx_executed_txs s1 @ txs" "subseq txs (take k (stream_txs events))"
        "filter not_l2 txs = filter not_l2 (take k (stream_txs events))"
      using "4.IH" "4.prems" by auto
    have "bx_executed_txs s1 = bx_executed_txs s @ [tx] \<or> bx_executed_txs s1 = bx_executed_txs s \<and> \<not> not_l2 tx"
      using process_tx_NextTx [OF NextTx] by (auto simp: accepts_def declines_def not_l2_def)
    then show ?thesis
    proof
      assume "bx_executed_txs s1 = bx_executed_txs s @ [tx]"
      then show ?thesis using IH by (intro exI [of _ "Suc k"] exI [of _ "tx # txs"]) auto
    next
      assume "bx_executed_txs s1 = bx_executed_txs s \<and> \<not> not_l2 tx"
      then show ?thesis using IH by (intro exI [of _ "Suc k"] exI [of _ txs]) auto
    qed
  next
    case (Break r s1)
    then have "s' = s1" using "4.prems" by simp
    then have "bx_executed_txs s' = bx_executed_txs s @ [tx] \<or> bx_executed_txs s' = bx_executed_txs s"
      using process_tx_Break [OF Break] by (auto simp: accepts_def declines_def)
    then show ?thesis
    proof
      assume "bx_executed_txs s' = bx_executed_txs s @ [tx]"
      then show ?thesis by (intro exI [of _ 1] exI [of _ "[tx]"]) auto
    next
      assume "bx_executed_txs s' = bx_executed_txs s"
      then show ?thesis by (intro exI [of _ 0] exI [of _ "[]"]) auto
    qed
  qed (use "4.prems" in simp_all)
qed simp

text \<open>The limits of a block, for a virtual machine that charges at most the gas limit of a
  transaction.\<close>

definition vm_respects_gas_limits :: "'vm virtual_machine \<Rightarrow> bool" where
  "vm_respects_gas_limits vm \<longleftrightarrow>
     (\<forall>v tx res v'. vm_execute_next_tx vm v tx = Inr (Inr res, v') \<and> tx_type tx \<noteq> TySystem \<longrightarrow> vt_gas_used res \<le> tx_gas_limit tx)"

definition block_limits :: "prepared_block_command \<Rightarrow> 'vm block_state \<Rightarrow> bool" where
  "block_limits command s \<longleftrightarrow>
     bx_interop_roots_count s = sum_list (map interop_roots_in (bx_executed_txs s)) \<and>
     bx_interop_roots_count s \<le> pc_interop_roots_per_block command \<and>
     ((\<forall>tx \<in> set (bx_executed_txs s). tx_type tx \<noteq> TySystem) \<longrightarrow>
        bx_cumulative_gas_used s \<le> bc_gas_limit (pc_block_context command))"

lemma should_exclude_None:
  assumes "should_exclude_and_seal ctx g n m tx = Some None" "n \<le> m"
  shows "g + tx_gas_limit tx \<le> bc_gas_limit ctx \<and> n + interop_roots_in tx \<le> m"
  using assms
  by (auto simp: should_exclude_and_seal_def interop_roots_in_def checked_add_Some split: if_splits option.splits system_tx_type.splits)

lemma accepts_limits:
  assumes "vm_respects_gas_limits vm" "accepts vm command tx s s'" "block_limits command s"
  shows "block_limits command s'"
proof -
  obtain res where r: "vm_execute_next_tx vm (bx_runner s) tx = Inr (Inr res, bx_runner s')"
      "bx_executed_txs s' = bx_executed_txs s @ [tx]"
      "bx_cumulative_gas_used s' = bx_cumulative_gas_used s + vt_gas_used res"
      "bx_interop_roots_count s' = bx_interop_roots_count s + interop_roots_in tx"
    using assms(2) by (auto simp: accepts_def checked_add_Some)
  have n: "bx_cumulative_gas_used s + tx_gas_limit tx \<le> bc_gas_limit (pc_block_context command)"
      "bx_interop_roots_count s + interop_roots_in tx \<le> pc_interop_roots_per_block command"
    using should_exclude_None assms(2,3) by (auto simp: accepts_def block_limits_def)
  have "vt_gas_used res \<le> tx_gas_limit tx" if "tx_type tx \<noteq> TySystem"
    using assms(1) r(1) that unfolding vm_respects_gas_limits_def by blast
  then show ?thesis using assms(3) r(2-4) n by (auto simp: block_limits_def)
qed

lemma declines_limits: "declines vm tx s s' \<Longrightarrow> block_limits command s \<Longrightarrow> block_limits command s'"
  by (simp add: declines_def block_limits_def)

lemma block_loop_limits:
  assumes "block_loop vm command policy events s = SealedBecause reason s'" "vm_respects_gas_limits vm" "block_limits command s"
  shows "block_limits command s'"
  using assms
proof (induction vm command policy events s rule: block_loop.induct)
  case (4 vm command policy tx events s)
  show ?case
  proof (cases "process_tx vm command policy tx s")
    case (NextTx s1)
    then have "block_limits command s1"
      using process_tx_NextTx [OF NextTx] accepts_limits [OF "4.prems"(2) _ "4.prems"(3)] declines_limits [OF _ "4.prems"(3)] by blast
    then show ?thesis using "4.IH" NextTx "4.prems" by simp
  next
    case (Break r s1)
    then have "s' = s1" using "4.prems" by simp
    then show ?thesis
      using process_tx_Break [OF Break] accepts_limits [OF "4.prems"(2) _ "4.prems"(3)] declines_limits [OF _ "4.prems"(3)] by blast
  qed (use "4.prems" in simp_all)
qed (auto split: if_splits)

lemma execute_block_Executed:
  assumes "execute_block_in_vm keccak256 node_version vm command events = Executed (out, record, purged, strict)"
  shows "\<exists>reason s sealed. block_loop vm command (effective_seal_policy command) events (initial_block_state vm command) = SealedBecause reason s \<and>
    seal_reason_valid (effective_seal_policy command) reason (bc_block_number (pc_block_context command)) = None \<and>
    vm_seal_block vm (bx_runner s) = Inr sealed \<and> out = finish_output command sealed \<and>
    (\<forall>h. pc_expected_block_output_hash command = Some h \<longrightarrow> h = hash_block_output keccak256 out) \<and>
    replay_record_new (pc_block_context command) (bx_executed_txs s) (pc_previous_block_timestamp command) node_version
      (pc_protocol_version command) (hash_block_output keccak256 out) (pc_force_preimages command) (pc_starting_cursors command) = Some record \<and>
    purged = bx_purged_txs s \<and> strict = pc_strict_subpool_cleanup command"
  using assms
  by (auto simp: execute_block_in_vm_def seal_block_output_def Let_def
      split: loop_result.splits option.splits sum.splits if_splits)

lemma replay_record_new_fields:
  assumes "replay_record_new ctx txs prev_ts node_version pv output_hash preimages cursors = Some record"
  shows "rr_block_context record = ctx" "rr_transactions record = txs" "rr_previous_block_timestamp record = prev_ts"
    "rr_protocol_version record = pv" "rr_block_output_hash record = output_hash" "rr_force_preimages record = preimages"
    "rr_starting_cursors record = cursors"
    "case first_l1_priority_id txs of None \<Rightarrow> True | Some i \<Rightarrow> i = l1_priority_id cursors"
  using assms by (auto simp: replay_record_new_def bind_eq_Some_conv)

text \<open>C3. In every executed block, the transactions are a subsequence of what the stream delivered,
  and apart from L2 transactions nothing the stream delivered before the last one was left out:
  a priority, upgrade or system transaction is never skipped.  The interop roots stay within
  their limit, and a block without system transactions within the gas limit.\<close>

theorem executed_block_keeps_order_and_limits:
  assumes "execute_block_in_vm keccak256 node_version vm command events = Executed (out, record, purged, strict)"
    and "vm_respects_gas_limits vm"
  shows "\<exists>k reason s. block_loop vm command (effective_seal_policy command) events (initial_block_state vm command) =
      SealedBecause reason s \<and> rr_transactions record = bx_executed_txs s \<and>
    subseq (rr_transactions record) (take k (stream_txs events)) \<and>
    filter not_l2 (rr_transactions record) = filter not_l2 (take k (stream_txs events)) \<and>
    sum_list (map interop_roots_in (rr_transactions record)) \<le> pc_interop_roots_per_block command \<and>
    ((\<forall>tx \<in> set (rr_transactions record). tx_type tx \<noteq> TySystem) \<longrightarrow>
       bx_cumulative_gas_used s \<le> bc_gas_limit (rr_block_context record))"
proof -
  obtain reason s where l: "block_loop vm command (effective_seal_policy command) events (initial_block_state vm command) = SealedBecause reason s"
      and r: "rr_transactions record = bx_executed_txs s" "rr_block_context record = pc_block_context command"
    using execute_block_Executed [OF assms(1)] replay_record_new_fields(1,2) by fastforce
  have lim: "block_limits command s"
    by (rule block_loop_limits [OF l assms(2)]) (simp add: block_limits_def initial_block_state_def)
  obtain k where "subseq (bx_executed_txs s) (take k (stream_txs events))"
      "filter not_l2 (bx_executed_txs s) = filter not_l2 (take k (stream_txs events))"
    using block_loop_order [OF l] by (auto simp: initial_block_state_def)
  then show ?thesis using r l lim unfolding block_limits_def
    by (intro exI [of _ k] exI [of _ reason] exI [of _ s]) (simp add: r)
qed

subsection \<open>Replay\<close>

text \<open>Executing strictly: a fixed list of transactions, all of which must be accepted.\<close>

definition strict_command :: "prepared_block_command \<Rightarrow> bool" where
  "strict_command command \<longleftrightarrow> pc_seal_policy command = UntilExhausted False \<and> pc_invalid_tx_policy command = Abort"

lemma strict_effective [simp]: "strict_command command \<Longrightarrow> effective_seal_policy command = UntilExhausted False"
  by (simp add: strict_command_def effective_seal_policy_def)

lemma strict_loop:
  assumes "block_loop vm command policy (map StreamTx txs @ StreamEnded # rest) s = SealedBecause TxStreamExhausted s'"
    and "strict_command command"
  shows "bx_executed_txs s' = bx_executed_txs s @ txs \<and> bx_purged_txs s' = bx_purged_txs s"
  using assms
proof (induction txs arbitrary: s)
  case (Cons tx txs)
  show ?case
  proof (cases "process_tx vm command policy tx s")
    case (NextTx s1)
    then have "bx_executed_txs s1 = bx_executed_txs s @ [tx]" "bx_purged_txs s1 = bx_purged_txs s"
      using process_tx_NextTx [OF NextTx] Cons.prems(2) by (auto simp: accepts_def strict_command_def)
    then show ?thesis using Cons.IH [of s1] Cons.prems NextTx by simp
  next
    case (Break r s1)
    then show ?thesis using process_tx_Break [OF Break] Cons.prems(1) by simp
  qed (use Cons.prems in simp_all)
qed simp

lemma strict_execution:
  assumes "execute_block_in_vm keccak256 node_version vm command (map StreamTx txs @ StreamEnded # rest) =
      Executed (out, record, purged, strict)"
    and "strict_command command"
  shows "rr_transactions record = txs \<and> purged = [] \<and> rr_block_context record = pc_block_context command \<and>
    rr_previous_block_timestamp record = pc_previous_block_timestamp command \<and>
    rr_protocol_version record = pc_protocol_version command \<and> rr_force_preimages record = pc_force_preimages command \<and>
    rr_starting_cursors record = pc_starting_cursors command \<and>
    (\<forall>h. pc_expected_block_output_hash command = Some h \<longrightarrow> rr_block_output_hash record = h)"
proof -
  obtain reason s where l: "block_loop vm command (effective_seal_policy command) (map StreamTx txs @ StreamEnded # rest)
        (initial_block_state vm command) = SealedBecause reason s"
      and v: "seal_reason_valid (effective_seal_policy command) reason (bc_block_number (pc_block_context command)) = None"
      and h: "\<forall>h. pc_expected_block_output_hash command = Some h \<longrightarrow> h = hash_block_output keccak256 out"
      and r: "replay_record_new (pc_block_context command) (bx_executed_txs s) (pc_previous_block_timestamp command) node_version
        (pc_protocol_version command) (hash_block_output keccak256 out) (pc_force_preimages command) (pc_starting_cursors command) = Some record"
      and p: "purged = bx_purged_txs s"
    using execute_block_Executed [OF assms(1)] by auto
  have "reason = TxStreamExhausted" using v assms(2) by (simp add: seal_reason_valid_def split: if_splits)
  note strict_loop [OF l [unfolded this] assms(2)]
  then have "bx_executed_txs s = txs" "bx_purged_txs s = []" by (simp_all add: initial_block_state_def)
  then show ?thesis using replay_record_new_fields [OF r] h p by auto
qed

text \<open>The transactions a virtual machine accepts one after the other.\<close>

fun accepted_run ::
    "'vm virtual_machine \<Rightarrow> block_context \<Rightarrow> u64 \<Rightarrow> 'vm \<Rightarrow> u64 \<Rightarrow> u64 \<Rightarrow> zk_envelope list \<Rightarrow> 'vm option" where
  "accepted_run vm ctx m w g n [] = Some w"
| "accepted_run vm ctx m w g n (tx # txs) =
     (if should_exclude_and_seal ctx g n m tx \<noteq> Some None then None
      else (case vm_execute_next_tx vm w tx of
              Inr (Inr res, w') \<Rightarrow>
                (case (checked_add g (vt_gas_used res), checked_add n (interop_roots_in tx)) of
                   (Some g', Some n') \<Rightarrow>
                     if tx_type tx = TyUpgrade \<and> \<not> vt_status res then None else accepted_run vm ctx m w' g' n' txs
                 | _ \<Rightarrow> None)
            | _ \<Rightarrow> None))"

text \<open>Rejected transactions do not affect the state of the virtual machine or its output, apart
  from their own results.\<close>

definition vm_rejections_invisible :: "'vm virtual_machine \<Rightarrow> ('vm \<Rightarrow> 'vm \<Rightarrow> bool) \<Rightarrow> bool" where
  "vm_rejections_invisible vm R \<longleftrightarrow>
     (\<forall>ctx preimages. R (vm_new vm ctx preimages) (vm_new vm ctx preimages)) \<and>
     (\<forall>v w tx res v'. R v w \<and> vm_execute_next_tx vm v tx = Inr (Inr res, v') \<longrightarrow>
        (\<exists>w'. vm_execute_next_tx vm w tx = Inr (Inr res, w') \<and> R v' w')) \<and>
     (\<forall>v w tx e v'. R v w \<and> vm_execute_next_tx vm v tx = Inr (Inl e, v') \<longrightarrow> R v' w) \<and>
     (\<forall>v w out. R v w \<and> vm_seal_block vm v = Inr out \<longrightarrow>
        (\<exists>out'. vm_seal_block vm w = Inr out' \<and>
           out'\<lparr> vo_tx_results := filter is_ok (vo_tx_results out') \<rparr> = out\<lparr> vo_tx_results := filter is_ok (vo_tx_results out) \<rparr>))"

lemma block_loop_accepted_run:
  assumes "block_loop vm command policy events s = SealedBecause reason s'" "vm_rejections_invisible vm R" "R (bx_runner s) w"
  shows "\<exists>txs w'. bx_executed_txs s' = bx_executed_txs s @ txs \<and>
    accepted_run vm (pc_block_context command) (pc_interop_roots_per_block command) w (bx_cumulative_gas_used s)
      (bx_interop_roots_count s) txs = Some w' \<and> R (bx_runner s') w'"
  using assms
proof (induction vm command policy events s arbitrary: w rule: block_loop.induct)
  case (2 vm command policy events s)
  then show ?case by (auto split: if_splits intro!: exI [of _ "[]"])
next
  case (3 vm command policy events s)
  then show ?case by (auto intro!: exI [of _ "[]"])
next
  case (4 vm command policy tx events s)
  have dec: "R (bx_runner t) w" if "declines vm tx s t" for t
    using that "4.prems"(2,3) unfolding declines_def vm_rejections_invisible_def by metis
  have acc: "\<exists>res w1. should_exclude_and_seal (pc_block_context command) (bx_cumulative_gas_used s) (bx_interop_roots_count s)
        (pc_interop_roots_per_block command) tx = Some None \<and> vm_execute_next_tx vm w tx = Inr (Inr res, w1) \<and>
      (tx_type tx = TyUpgrade \<longrightarrow> vt_status res) \<and> R (bx_runner t) w1 \<and> bx_executed_txs t = bx_executed_txs s @ [tx] \<and>
      checked_add (bx_cumulative_gas_used s) (vt_gas_used res) = Some (bx_cumulative_gas_used t) \<and>
      checked_add (bx_interop_roots_count s) (interop_roots_in tx) = Some (bx_interop_roots_count t)" if "accepts vm command tx s t" for t
    using that "4.prems"(2,3) unfolding accepts_def vm_rejections_invisible_def by metis
  show ?case
  proof (cases "process_tx vm command policy tx s")
    case (NextTx s1)
    then have l: "block_loop vm command policy events s1 = SealedBecause reason s'" using "4.prems"(1) by simp
    consider "accepts vm command tx s s1" | "declines vm tx s s1" using process_tx_NextTx [OF NextTx] by blast
    then show ?thesis
    proof cases
      case 1
      from acc [OF 1] obtain res w1 where a: "should_exclude_and_seal (pc_block_context command) (bx_cumulative_gas_used s)
          (bx_interop_roots_count s) (pc_interop_roots_per_block command) tx = Some None" "vm_execute_next_tx vm w tx = Inr (Inr res, w1)"
        "tx_type tx = TyUpgrade \<longrightarrow> vt_status res" "R (bx_runner s1) w1" "bx_executed_txs s1 = bx_executed_txs s @ [tx]"
        "checked_add (bx_cumulative_gas_used s) (vt_gas_used res) = Some (bx_cumulative_gas_used s1)"
        "checked_add (bx_interop_roots_count s) (interop_roots_in tx) = Some (bx_interop_roots_count s1)" by blast
      obtain txs w' where "bx_executed_txs s' = bx_executed_txs s1 @ txs" "R (bx_runner s') w'"
        "accepted_run vm (pc_block_context command) (pc_interop_roots_per_block command) w1 (bx_cumulative_gas_used s1)
          (bx_interop_roots_count s1) txs = Some w'"
        using "4.IH" [OF NextTx l "4.prems"(2) a(4)] by blast
      then show ?thesis using a by (intro exI [of _ "tx # txs"] exI [of _ w']) auto
    next
      case 2
      then show ?thesis using "4.IH" [OF NextTx l "4.prems"(2) dec [OF 2]] by (auto simp: declines_def)
    qed
  next
    case (Break r s1)
    then have s': "s' = s1" using "4.prems" by simp
    consider "accepts vm command tx s s1" | "declines vm tx s s1" using process_tx_Break [OF Break] by blast
    then show ?thesis
    proof cases
      case 1
      then show ?thesis using acc [OF 1] s' by (auto intro!: exI [of _ "[tx]"])
    next
      case 2
      then show ?thesis using dec [OF 2] s' by (auto simp: declines_def intro!: exI [of _ "[]"])
    qed
  qed (use "4.prems" in simp_all)
qed simp

lemma accepted_run_loop:
  assumes "accepted_run vm (pc_block_context command) (pc_interop_roots_per_block command) (bx_runner s)
      (bx_cumulative_gas_used s) (bx_interop_roots_count s) txs = Some w" "strict_command command"
  shows "\<exists>s'. block_loop vm command (UntilExhausted False) (map StreamTx txs @ StreamEnded # rest) s =
      SealedBecause TxStreamExhausted s' \<and> bx_runner s' = w \<and> bx_executed_txs s' = bx_executed_txs s @ txs \<and>
      bx_purged_txs s' = bx_purged_txs s"
  using assms
proof (induction txs arbitrary: s)
  case (Cons tx txs)
  obtain res w1 g n where a: "should_exclude_and_seal (pc_block_context command) (bx_cumulative_gas_used s)
        (bx_interop_roots_count s) (pc_interop_roots_per_block command) tx = Some None"
      "vm_execute_next_tx vm (bx_runner s) tx = Inr (Inr res, w1)" "\<not> (tx_type tx = TyUpgrade \<and> \<not> vt_status res)"
      "accepted_run vm (pc_block_context command) (pc_interop_roots_per_block command) w1 g n txs = Some w"
      "checked_add (bx_cumulative_gas_used s) (vt_gas_used res) = Some g"
      "checked_add (bx_interop_roots_count s) (interop_roots_in tx) = Some n"
    using Cons.prems(1) by (auto split: if_splits sum.splits option.splits)
  let ?s = "s\<lparr> bx_all_processed_txs := bx_all_processed_txs s @ [tx], bx_runner := w1,
    bx_interop_roots_count := n, bx_executed_txs := bx_executed_txs s @ [tx], bx_cumulative_gas_used := g \<rparr>"
  have "process_tx vm command (UntilExhausted False) tx s = NextTx ?s"
    using a(1-3,5,6) Cons.prems(2)
    by (auto simp: process_tx_def tx_accepted_def can_finish_early_def strict_command_def Let_def)
  then show ?case using Cons.IH [of ?s] a(4) Cons.prems(2) by simp
qed simp

text \<open>The command that replays a record, as the block context provider prepares it.\<close>

definition replays :: "replay_record \<Rightarrow> prepared_block_command \<Rightarrow> bool" where
  "replays record command \<longleftrightarrow>
     strict_command command \<and> pc_block_context command = rr_block_context record \<and>
     pc_tx_source command = FixedTxs (rr_transactions record) \<and>
     pc_protocol_version command = rr_protocol_version record \<and>
     pc_expected_block_output_hash command = Some (rr_block_output_hash record) \<and>
     pc_previous_block_timestamp command = rr_previous_block_timestamp record \<and>
     pc_force_preimages command = rr_force_preimages record \<and> pc_starting_cursors command = rr_starting_cursors record"

text \<open>C22. A replay that succeeds reproduces the replayed record: the same transactions in the same
  order, the same context, cursors and block output hash, and nothing is purged.\<close>

theorem replay_reproduces_record:
  assumes "execute_block_in_vm keccak256 node_version vm command (map StreamTx (rr_transactions record) @ [StreamEnded]) =
      Executed (out, record', purged, strict)"
    and "replays record command"
  shows "replay_record_eq record' record \<and> purged = []"
  using strict_execution [OF assms(1)] assms(2) by (simp add: replays_def replay_record_eq_def)

text \<open>Every block a node executes, whatever its command and however many transactions were
  rejected on the way, replays on every node with the same interop limit and a virtual machine
  on which rejected transactions leave no trace: the replay is not rejected and ends with the
  same record.\<close>

theorem executed_block_replays:
  assumes "execute_block_in_vm keccak256 node_version vm command events = Executed (out, record, purged, strict)"
    and "vm_rejections_invisible vm R" "replays record command'"
    and "pc_interop_roots_per_block command' = pc_interop_roots_per_block command"
  shows "\<exists>out' record'. execute_block_in_vm keccak256 node_version' vm command'
      (map StreamTx (rr_transactions record) @ [StreamEnded]) =
      Executed (out', record', [], pc_strict_subpool_cleanup command') \<and>
    replay_record_eq record' record \<and> hash_block_output keccak256 out' = rr_block_output_hash record"
proof -
  obtain reason s sealed where l: "block_loop vm command (effective_seal_policy command) events (initial_block_state vm command) =
        SealedBecause reason s"
      and seal: "vm_seal_block vm (bx_runner s) = Inr sealed" and out: "out = finish_output command sealed"
      and r: "replay_record_new (pc_block_context command) (bx_executed_txs s) (pc_previous_block_timestamp command) node_version
        (pc_protocol_version command) (hash_block_output keccak256 out) (pc_force_preimages command) (pc_starting_cursors command) = Some record"
    using execute_block_Executed [OF assms(1)] by auto
  note f = replay_record_new_fields [OF r]
  have c: "pc_block_context command' = pc_block_context command" "pc_force_preimages command' = pc_force_preimages command"
      "strict_command command'" "pc_expected_block_output_hash command' = Some (rr_block_output_hash record)"
      "pc_starting_cursors command' = pc_starting_cursors command"
    using assms(3) f by (simp_all add: replays_def)
  have new: "R (vm_new vm ctx p) (vm_new vm ctx p)" for ctx p using assms(2) by (simp add: vm_rejections_invisible_def)
  obtain w where w: "accepted_run vm (pc_block_context command') (pc_interop_roots_per_block command')
      (bx_runner (initial_block_state vm command')) 0 0 (rr_transactions record) = Some w" "R (bx_runner s) w"
    using block_loop_accepted_run [OF l assms(2), of "bx_runner (initial_block_state vm command')"] new f(2) c assms(4)
    by (auto simp: initial_block_state_def)
  obtain s' where s': "block_loop vm command' (UntilExhausted False) (map StreamTx (rr_transactions record) @ [StreamEnded])
        (initial_block_state vm command') = SealedBecause TxStreamExhausted s'"
      "bx_runner s' = w" "bx_executed_txs s' = rr_transactions record" "bx_purged_txs s' = []"
    using accepted_run_loop [of vm command' "initial_block_state vm command'" "rr_transactions record" w "[]"] w(1) c(3)
    by (auto simp: initial_block_state_def)
  obtain sealed' where sealed': "vm_seal_block vm w = Inr sealed'"
      "sealed'\<lparr> vo_tx_results := filter is_ok (vo_tx_results sealed') \<rparr> = sealed\<lparr> vo_tx_results := filter is_ok (vo_tx_results sealed) \<rparr>"
    using assms(2) w(2) seal unfolding vm_rejections_invisible_def by metis
  have out': "finish_output command' sealed' = out"
    using sealed'(2) unfolding out finish_output_def c(2) by (cases sealed, cases sealed') simp
  obtain record' where r': "replay_record_new (pc_block_context command') (rr_transactions record) (pc_previous_block_timestamp command')
      node_version' (pc_protocol_version command') (hash_block_output keccak256 out) (pc_force_preimages command')
      (pc_starting_cursors command') = Some record'"
    using f(2,8) c(5) by (simp add: replay_record_new_def)
  have h: "hash_block_output keccak256 out = rr_block_output_hash record" using f(5) by simp
  have "execute_block_in_vm keccak256 node_version' vm command' (map StreamTx (rr_transactions record) @ [StreamEnded]) =
      Executed (out, record', [], pc_strict_subpool_cleanup command')"
    using s' sealed'(1) out' r' c(3,4) h
    by (simp add: execute_block_in_vm_def seal_block_output_def seal_reason_valid_def Let_def)
  moreover from strict_execution [OF _ c(3), of keccak256 node_version' vm _ "[]"] this
  have "replay_record_eq record' record" using assms(3) by (simp add: replay_record_eq_def replays_def)
  ultimately show ?thesis using h by blast
qed

subsection \<open>Panics\<close>

definition vm_charges_at_most :: "'vm virtual_machine \<Rightarrow> u64 \<Rightarrow> bool" where
  "vm_charges_at_most vm gas \<longleftrightarrow>
     (\<forall>v tx res v'. vm_execute_next_tx vm v tx = Inr (Inr res, v') \<longrightarrow> vt_gas_used res \<le> gas)"

text \<open>The additions of a transaction with \<open>n\<close> transactions to come, itself included, do not overflow.\<close>

definition additions_fit :: "prepared_block_command \<Rightarrow> u64 \<Rightarrow> 'vm block_state \<Rightarrow> nat \<Rightarrow> zk_envelope \<Rightarrow> bool" where
  "additions_fit command gas s n tx \<longleftrightarrow>
     bx_cumulative_gas_used s + n * gas + tx_gas_limit tx < 2 ^ 64 \<and>
     pc_interop_roots_per_block command + interop_roots_in tx < 2 ^ 64"

lemma tx_accepted_StepPanics:
  "tx_accepted policy b tx res s = StepPanics \<Longrightarrow>
     checked_add (bx_interop_roots_count s) (interop_roots_in tx) = None \<or>
     checked_add (bx_cumulative_gas_used s) (vt_gas_used res) = None"
  by (auto simp: tx_accepted_def Let_def split: option.splits if_splits seal_policy.splits)

lemma tx_rejected_StepPanics: "tx_rejected policy p m tx e s = StepPanics \<Longrightarrow> tx_type tx = TyL2 \<and> \<not> m"
  by (auto simp: tx_rejected_def tx_type_def Let_def
      split: if_splits seal_policy.splits zk_envelope.splits invalid_tx_policy.splits tx_rejection_method.splits)

lemma should_exclude_fits:
  assumes "additions_fit command gas s n tx" "bx_interop_roots_count s \<le> pc_interop_roots_per_block command"
  shows "should_exclude_and_seal ctx (bx_cumulative_gas_used s) (bx_interop_roots_count s) m tx \<noteq> None"
  using assms
  by (auto simp: should_exclude_and_seal_def additions_fit_def checked_add_def interop_roots_in_def
      split: option.splits system_tx_type.splits)

lemma process_tx_StepPanics:
  assumes "process_tx vm command policy tx s = StepPanics" "additions_fit command gas s (Suc n) tx"
    and "vm_charges_at_most vm gas" "bx_interop_roots_count s \<le> pc_interop_roots_per_block command"
  shows "tx_type tx = TyL2 \<and> \<not> markable (pc_tx_source command)"
proof -
  obtain x where x: "should_exclude_and_seal (pc_block_context command) (bx_cumulative_gas_used s) (bx_interop_roots_count s)
      (pc_interop_roots_per_block command) tx = Some x"
    using should_exclude_fits [OF assms(2,4)] by blast
  have fit: "checked_add (bx_interop_roots_count s) (interop_roots_in tx) \<noteq> None"
    "checked_add (bx_cumulative_gas_used s) (vt_gas_used res) \<noteq> None"
    if "vm_execute_next_tx vm (bx_runner s) tx = Inr (Inr res, v)" for res v
  proof -
    have "vt_gas_used res \<le> gas" using assms(3) that unfolding vm_charges_at_most_def by blast
    then show "checked_add (bx_interop_roots_count s) (interop_roots_in tx) \<noteq> None"
      "checked_add (bx_cumulative_gas_used s) (vt_gas_used res) \<noteq> None"
      using assms(2,4) by (simp_all add: additions_fit_def checked_add_def)
  qed
  show ?thesis
    using assms(1) x fit
    by (auto simp: process_tx_def Let_def split: option.splits sum.splits dest!: tx_accepted_StepPanics tx_rejected_StepPanics)
qed

lemma process_tx_NextTx_fits:
  assumes "process_tx vm command policy tx s = NextTx s'" "vm_charges_at_most vm gas"
    and "bx_interop_roots_count s \<le> pc_interop_roots_per_block command"
  shows "bx_cumulative_gas_used s' \<le> bx_cumulative_gas_used s + gas \<and>
    bx_interop_roots_count s' \<le> pc_interop_roots_per_block command"
proof -
  consider "accepts vm command tx s s'" | "declines vm tx s s'" using process_tx_NextTx [OF assms(1)] by blast
  then show ?thesis
  proof cases
    case 1
    then obtain res where res: "vm_execute_next_tx vm (bx_runner s) tx = Inr (Inr res, bx_runner s')"
        "bx_cumulative_gas_used s' = bx_cumulative_gas_used s + vt_gas_used res"
        "bx_interop_roots_count s' = bx_interop_roots_count s + interop_roots_in tx"
      by (auto simp: accepts_def checked_add_Some)
    have "vt_gas_used res \<le> gas" using assms(2) res(1) unfolding vm_charges_at_most_def by blast
    moreover have "bx_interop_roots_count s' \<le> pc_interop_roots_per_block command"
      using 1 should_exclude_None [OF _ assms(3)] res(3) by (auto simp: accepts_def)
    ultimately show ?thesis using res(2) by simp
  qed (use assms(3) in \<open>simp add: declines_def\<close>)
qed

lemma block_loop_not_panics:
  assumes "markable (pc_tx_source command) \<or> (\<forall>tx \<in> set (stream_txs events). tx_type tx \<noteq> TyL2)"
    and "vm_charges_at_most vm gas" "bx_interop_roots_count s \<le> pc_interop_roots_per_block command"
    and "\<forall>tx \<in> set (stream_txs events). additions_fit command gas s (length (stream_txs events)) tx"
  shows "block_loop vm command policy events s \<noteq> LoopPanics"
  using assms
proof (induction vm command policy events s rule: block_loop.induct)
  case (4 vm command policy tx events s)
  show ?case
  proof (cases "process_tx vm command policy tx s")
    case (NextTx s1)
    note f = process_tx_NextTx_fits [OF NextTx "4.prems"(2,3)]
    have "\<forall>t \<in> set (stream_txs events). additions_fit command gas s1 (length (stream_txs events)) t"
    proof
      fix t assume "t \<in> set (stream_txs events)"
      then have "additions_fit command gas s (Suc (length (stream_txs events))) t" using "4.prems"(4) by simp
      then show "additions_fit command gas s1 (length (stream_txs events)) t" using f by (simp add: additions_fit_def)
    qed
    moreover have "markable (pc_tx_source command) \<or> (\<forall>t \<in> set (stream_txs events). tx_type t \<noteq> TyL2)"
      using "4.prems"(1) by auto
    ultimately show ?thesis using "4.IH" [OF NextTx _ "4.prems"(2)] f NextTx by simp
  next
    case StepPanics
    have "additions_fit command gas s (Suc (length (stream_txs events))) tx" using "4.prems"(4) by simp
    from process_tx_StepPanics [OF StepPanics this "4.prems"(2,3)] show ?thesis using "4.prems"(1) by auto
  qed simp_all
qed auto

lemma first_l1_priority_id_filter: "first_l1_priority_id (filter not_l2 txs) = first_l1_priority_id txs"
  by (induction txs rule: first_l1_priority_id.induct) (auto simp: not_l2_def tx_type_def)

lemma first_l1_priority_id_take:
  "first_l1_priority_id (take k txs) = None \<or> first_l1_priority_id (take k txs) = first_l1_priority_id txs"
proof (induction txs arbitrary: k)
  case (Cons tx txs)
  show ?case
  proof (cases k)
    case (Suc n)
    then show ?thesis using Cons.IH [of n] by (cases tx) simp_all
  qed simp
qed simp

text \<open>C21. Executing a block never panics when the first priority transaction of its stream has the id
  of the cursor, only streams with a marker carry L2 transactions, and the gas and the interop
  roots of the stream fit into 64 bits: neither an addition nor the marking of a rejected
  transaction nor the assertion on the cursor can fail.\<close>

theorem execution_never_panics:
  assumes "markable (pc_tx_source command) \<or> (\<forall>tx \<in> set (stream_txs events). tx_type tx \<noteq> TyL2)"
    and "first_l1_priority_id (stream_txs events) = None \<or>
      first_l1_priority_id (stream_txs events) = Some (l1_priority_id (pc_starting_cursors command))"
    and "vm_charges_at_most vm gas"
    and "\<forall>tx \<in> set (stream_txs events). length (stream_txs events) * gas + tx_gas_limit tx < 2 ^ 64 \<and>
      pc_interop_roots_per_block command + interop_roots_in tx < 2 ^ 64"
  shows "execute_block_in_vm keccak256 node_version vm command events \<noteq> ExecutionPanics"
proof (cases "block_loop vm command (effective_seal_policy command) events (initial_block_state vm command)")
  case (SealedBecause reason s)
  obtain k where "filter not_l2 (bx_executed_txs s) = filter not_l2 (take k (stream_txs events))"
    using block_loop_order [OF SealedBecause] by (auto simp: initial_block_state_def)
  then have "first_l1_priority_id (bx_executed_txs s) = first_l1_priority_id (take k (stream_txs events))"
    by (metis first_l1_priority_id_filter)
  then have "case first_l1_priority_id (bx_executed_txs s) of None \<Rightarrow> True | Some i \<Rightarrow> i = l1_priority_id (pc_starting_cursors command)"
    using first_l1_priority_id_take [of k "stream_txs events"] assms(2) by auto
  then show ?thesis using SealedBecause
    by (simp add: execute_block_in_vm_def seal_block_output_def replay_record_new_def Let_def split: option.splits sum.splits)
next
  case LoopPanics
  then show ?thesis
    using block_loop_not_panics [OF assms(1,3), of "initial_block_state vm command" "effective_seal_policy command"] assms(4)
    by (simp add: initial_block_state_def additions_fit_def)
qed (auto simp: execute_block_in_vm_def Let_def)

subsection \<open>Witnesses\<close>

text \<open>A virtual machine that rejects transactions without gas and keeps the accepted ones.\<close>

definition example_vm :: "zk_envelope list virtual_machine" where
  "example_vm =
     \<lparr> vm_new = (\<lambda>_ _. []),
       vm_execute_next_tx = (\<lambda>v tx. if tx_gas_limit tx = 0 then Inr (Inl NonceTooHigh, v)
                                    else Inr (Inr \<lparr> vt_status = True, vt_gas_used = 1 \<rparr>, v @ [tx])),
       vm_seal_block = (\<lambda>v. Inr \<lparr> vo_header_hash = [of_nat (length v)],
         vo_tx_results = map (\<lambda>_. Inr \<lparr> vt_status = True, vt_gas_used = 1 \<rparr>) v,
         vo_storage_writes = [], vo_account_diffs = [], vo_published_preimages = [] \<rparr>) \<rparr>"

lemma example_vm_gas: "vm_respects_gas_limits example_vm"
  by (auto simp: vm_respects_gas_limits_def example_vm_def split: if_splits)

lemma example_vm_rejections: "vm_rejections_invisible example_vm (=)"
  by (auto simp: vm_rejections_invisible_def example_vm_def split: if_splits)

definition example_l2_tx :: "u64 \<Rightarrow> zk_envelope" where
  "example_l2_tx gas = L2 \<lparr> l2_hash = replicate 32 7, l2_signer = replicate 20 3, l2_nonce = 0, l2_gas_limit = gas \<rparr>"

definition example_command :: prepared_block_command where
  "example_command =
     \<lparr> pc_block_context = example_block_context, pc_seal_policy = Decide 250 2, pc_invalid_tx_policy = RejectAndContinue True,
       pc_tx_source = PoolTxs L1L2Transactions None, pc_protocol_version = MIN_VERSION_WITH_RELIABLE_UPGRADE_LOGS,
       pc_expected_block_output_hash = None, pc_previous_block_timestamp = 999, pc_force_preimages = [],
       pc_expect_sl_chain_id_tx_after_upgrade = False,
       pc_starting_cursors = \<lparr> l1_priority_id = 3, interop_root_id = 0, migration_number = 0, interop_fee_number = 0 \<rparr>,
       pc_interop_roots_per_block = 10, pc_strict_subpool_cleanup = True \<rparr>"

definition example_events :: "exec_event list" where
  "example_events = [StreamTx (L1 (example_l1_tx 3)), StreamTx (example_l2_tx 0), StreamTx (example_l2_tx 21000)]"

definition produced_record :: replay_record where
  "produced_record =
     \<lparr> rr_block_context = example_block_context, rr_transactions = [L1 (example_l1_tx 3), example_l2_tx 21000],
       rr_previous_block_timestamp = 999, rr_node_version = (0, 1, 0),
       rr_protocol_version = MIN_VERSION_WITH_RELIABLE_UPGRADE_LOGS, rr_block_output_hash = [2, 1, 0, 0, 0, 0, 0, 0, 0, 1, 1, 0, 0, 0, 0, 0, 0, 0, 1],
       rr_force_preimages = [],
       rr_starting_cursors = \<lparr> l1_priority_id = 3, interop_root_id = 0, migration_number = 0, interop_fee_number = 0 \<rparr> \<rparr>"

lemmas example_execution_defs = execute_block_in_vm_def seal_block_output_def replay_record_new_def process_tx_def
  should_exclude_and_seal_def tx_accepted_def tx_rejected_def tx_type_def effective_seal_policy_def initial_block_state_def
  seal_reason_valid_def finish_output_def hash_block_output_def is_ok_def markable_def interop_roots_in_def as_system_tx_type_def
  can_finish_early_def is_sl_chain_id_tx_def rejection_method_def example_vm_def example_l2_tx_def example_l1_tx_def
  tx_gas_limit_def tx_hash_of_def priority_id_def u64_to_be_bytes_def checked_add_def

lemma example_execution:
  "\<exists>out. execute_block_in_vm (\<lambda>b. b) (0, 1, 0) example_vm example_command example_events =
     Executed (out, produced_record, [], True)"
  by (simp add: example_execution_defs example_command_def example_events_def produced_record_def example_block_context_def
      Let_def upt_rec)

theorem executed_block_keeps_order_and_limits_witness:
  "sum_list (map interop_roots_in (rr_transactions produced_record)) \<le> 10 \<and>
   (\<exists>k. filter not_l2 (rr_transactions produced_record) = filter not_l2 (take k (stream_txs example_events)))"
proof -
  have "pc_interop_roots_per_block example_command = 10" by (simp add: example_command_def)
  moreover obtain out where "execute_block_in_vm (\<lambda>b. b) (0, 1, 0) example_vm example_command example_events =
      Executed (out, produced_record, [], True)" using example_execution by blast
  ultimately show ?thesis using executed_block_keeps_order_and_limits [OF _ example_vm_gas] by metis
qed

definition example_replay_command :: prepared_block_command where
  "example_replay_command = example_command\<lparr> pc_seal_policy := UntilExhausted False, pc_invalid_tx_policy := Abort,
     pc_tx_source := FixedTxs (rr_transactions produced_record),
     pc_expected_block_output_hash := Some (rr_block_output_hash produced_record), pc_strict_subpool_cleanup := False \<rparr>"

lemma example_replays: "replays produced_record example_replay_command"
  by (simp add: replays_def strict_command_def example_replay_command_def example_command_def produced_record_def)

theorem executed_block_replays_witness:
  "\<exists>out record. execute_block_in_vm (\<lambda>b. b) (0, 2, 0) example_vm example_replay_command
      (map StreamTx (rr_transactions produced_record) @ [StreamEnded]) = Executed (out, record, [], False) \<and>
    replay_record_eq record produced_record"
proof -
  obtain out where 1: "execute_block_in_vm (\<lambda>b. b) (0, 1, 0) example_vm example_command example_events =
      Executed (out, produced_record, [], True)" using example_execution by blast
  have 2: "pc_interop_roots_per_block example_replay_command = pc_interop_roots_per_block example_command"
    and 3: "pc_strict_subpool_cleanup example_replay_command = False"
    by (simp_all add: example_replay_command_def)
  show ?thesis using executed_block_replays [OF 1 example_vm_rejections example_replays 2] 3 by metis
qed

theorem replay_reproduces_record_witness:
  "\<exists>out record. execute_block_in_vm (\<lambda>b. b) (0, 1, 0) example_vm example_replay_command
      (map StreamTx (rr_transactions produced_record) @ [StreamEnded]) = Executed (out, record, [], False) \<and>
    replay_record_eq record produced_record"
proof -
  have "\<exists>out. execute_block_in_vm (\<lambda>b. b) (0, 1, 0) example_vm example_replay_command
      (map StreamTx (rr_transactions produced_record) @ [StreamEnded]) = Executed (out, produced_record, [], False)"
    by (simp add: example_execution_defs example_replay_command_def example_command_def produced_record_def
        example_block_context_def Let_def upt_rec)
  then show ?thesis using replay_reproduces_record [OF _ example_replays] by blast
qed

theorem execution_never_panics_witness:
  "execute_block_in_vm (\<lambda>b. b) (0, 1, 0) example_vm example_command example_events \<noteq> ExecutionPanics"
proof -
  have gas: "vm_charges_at_most example_vm 1" by (auto simp: vm_charges_at_most_def example_vm_def split: if_splits)
  show ?thesis
    by (rule execution_never_panics [OF _ _ gas])
      (simp_all add: example_command_def example_events_def markable_def example_l1_tx_def example_l2_tx_def priority_id_def
        tx_gas_limit_def interop_roots_in_def as_system_tx_type_def)
qed

end
