(* ===== verification/Backpressure.thy ===== *)
theory Backpressure
  imports Types "HOL-Library.List_Lexorder" "HOL-Library.Char_ord"
begin

text \<open>
  Backpressure of the pipeline (\<open>lib/backpressure\<close>): how far each stage is behind its upstream neighbour,
  the thresholds on it (\<open>config.rs\<close>), and when the node stops accepting transactions (\<open>monitor.rs\<close>,
  \<open>gate.rs\<close>).  Durations are in nanoseconds; metrics are left out.
\<close>

datatype component_id =
    ConsensusNodeCommandSource | ExternalNodeCommandSource | BlockExecutor | BlockApplier | TreeManager | BatchSink
  | NoopSink | BatchVerificationResponder | BlockCanonizer | ProverInputGenerator | BatcherStage | BatchVerificationStage
  | FriJobManager | GaplessCommitter | UpgradeGatekeeper | L1SenderCommit | SnarkJobManager | GaplessL1ProofSender
  | L1SenderProve | PriorityTreeStage | L1SenderExecute | RevmConsistencyChecker | MigrationGate | ReplayArchiveGate

primrec as_str :: "component_id \<Rightarrow> string" where
  "as_str ConsensusNodeCommandSource = ''consensus_node_command_source''"
| "as_str ExternalNodeCommandSource = ''external_node_command_source''"
| "as_str BlockExecutor = ''block_executor''"
| "as_str BlockApplier = ''block_applier''"
| "as_str TreeManager = ''tree_manager''"
| "as_str BatchSink = ''batch_sink''"
| "as_str NoopSink = ''noop_sink''"
| "as_str BatchVerificationResponder = ''batch_verification_responder''"
| "as_str BlockCanonizer = ''block_canonizer''"
| "as_str ProverInputGenerator = ''prover_input_generator''"
| "as_str BatcherStage = ''batcher''"
| "as_str BatchVerificationStage = ''batch_verification''"
| "as_str FriJobManager = ''fri_job_manager''"
| "as_str GaplessCommitter = ''gapless_committer''"
| "as_str UpgradeGatekeeper = ''upgrade_gatekeeper''"
| "as_str L1SenderCommit = ''l1_sender_commit''"
| "as_str SnarkJobManager = ''snark_job_manager''"
| "as_str GaplessL1ProofSender = ''gapless_l1_proof_sender''"
| "as_str L1SenderProve = ''l1_sender_prove''"
| "as_str PriorityTreeStage = ''priority_tree''"
| "as_str L1SenderExecute = ''l1_sender_execute''"
| "as_str RevmConsistencyChecker = ''revm_consistency_checker''"
| "as_str MigrationGate = ''migration_gate''"
| "as_str ReplayArchiveGate = ''replay_archive_gate''"

record pipeline_condition =
  pc_max_block_diff_to_upstream :: "u64 option"
  pc_max_time_diff_to_upstream :: "nat option"
  pc_max_batch_diff_to_upstream :: "u64 option"

definition pipeline_condition_default :: pipeline_condition where
  "pipeline_condition_default = \<lparr> pc_max_block_diff_to_upstream = None, pc_max_time_diff_to_upstream = None,
     pc_max_batch_diff_to_upstream = None \<rparr>"

record backpressure_config =
  bp_conditions :: "component_id \<rightharpoonup> pipeline_condition"
  bp_default_block_diff_limit :: u64
  bp_default_batch_diff_limit :: u64

definition backpressure_config_default :: backpressure_config where
  "backpressure_config_default =
     \<lparr> bp_conditions = Map.empty, bp_default_block_diff_limit = 256, bp_default_batch_diff_limit = 128 \<rparr>"

definition default_condition_for :: "backpressure_config \<Rightarrow> component_id \<Rightarrow> pipeline_condition" where
  "default_condition_for cfg i =
     (if i \<in> {BlockCanonizer, BlockApplier, RevmConsistencyChecker, TreeManager, ProverInputGenerator}
      then pipeline_condition_default \<lparr> pc_max_block_diff_to_upstream := Some (bp_default_block_diff_limit cfg) \<rparr>
      else if i \<in> {BatchVerificationStage, FriJobManager, SnarkJobManager, GaplessCommitter, UpgradeGatekeeper,
        MigrationGate, ReplayArchiveGate, L1SenderCommit, L1SenderProve, L1SenderExecute, GaplessL1ProofSender,
        PriorityTreeStage}
      then pipeline_condition_default \<lparr> pc_max_batch_diff_to_upstream := Some (bp_default_batch_diff_limit cfg) \<rparr>
      else pipeline_condition_default)"

definition bp_config_set :: "component_id \<Rightarrow> pipeline_condition \<Rightarrow> backpressure_config \<Rightarrow> backpressure_config" where
  "bp_config_set i condition cfg = cfg \<lparr> bp_conditions := (bp_conditions cfg)(i \<mapsto> condition) \<rparr>"

definition condition_for :: "backpressure_config \<Rightarrow> component_id \<Rightarrow> pipeline_condition" where
  "condition_for cfg i = (case bp_conditions cfg i of Some c \<Rightarrow> c | None \<Rightarrow> default_condition_for cfg i)"

definition is_pipeline_stage :: "component_id \<Rightarrow> bool" where
  "is_pipeline_stage i = (i \<notin> {ConsensusNodeCommandSource, ExternalNodeCommandSource, BatchSink, NoopSink,
     BatchVerificationResponder})"

record tracking_coordinates =
  tc_block_number :: u64
  tc_timestamp :: "u64 option"
  tc_batch_number :: "u64 option"

text \<open>Of a component's state the last processed item is read.\<close>

type_synonym pipeline_snapshot = "(component_id \<times> tracking_coordinates option) list"

record adjacent_snapshot =
  as_block_diff :: u64
  as_time_diff :: "nat option"
  as_batch_diff :: "u64 option"

definition adjacent_diff :: "tracking_coordinates \<Rightarrow> tracking_coordinates \<Rightarrow> adjacent_snapshot" where
  "adjacent_diff up down =
     \<lparr> as_block_diff = tc_block_number up - tc_block_number down,
       as_time_diff = (case (tc_timestamp up, tc_timestamp down) of
          (Some u, Some d) \<Rightarrow> Some ((u - d) * 10 ^ 9) | _ \<Rightarrow> None),
       as_batch_diff = (case (tc_batch_number up, tc_batch_number down) of
          (Some u, Some d) \<Rightarrow> Some (u - d) | _ \<Rightarrow> None) \<rparr>"

text \<open>The windows of two; a later entry for the same component replaces an earlier one.\<close>

fun adjacent_windows :: "pipeline_snapshot \<Rightarrow> (component_id \<rightharpoonup> adjacent_snapshot) \<Rightarrow> (component_id \<rightharpoonup> adjacent_snapshot)" where
  "adjacent_windows (u # d # rest) m =
     adjacent_windows (d # rest)
       (case (snd u, snd d) of (Some up, Some down) \<Rightarrow> m(fst d \<mapsto> adjacent_diff up down) | _ \<Rightarrow> m)"
| "adjacent_windows _ m = m"

definition compute_adjacent_snapshots :: "pipeline_snapshot \<Rightarrow> (component_id \<rightharpoonup> adjacent_snapshot)" where
  "compute_adjacent_snapshots snapshot = adjacent_windows (filter (\<lambda>(i, _). is_pipeline_stage i) snapshot) Map.empty"

datatype backpressure_trigger =
    BlockDiffToUpstreamTooHigh u64 u64 | TimeDiffToUpstreamTooHigh nat nat | BatchDiffToUpstreamTooHigh u64 u64

record backpressure_cause =
  ca_component :: string
  ca_trigger :: backpressure_trigger

datatype not_accepting_reason = BlockProductionDisabled | PipelineBackpressure "backpressure_cause list"

datatype transaction_acceptance_state = Accepting | NotAccepting "not_accepting_reason list"

definition evaluate ::
    "backpressure_config \<Rightarrow> component_id \<Rightarrow> u64 \<Rightarrow> nat option \<Rightarrow> u64 option \<Rightarrow> backpressure_cause list" where
  "evaluate cfg i block_diff time_diff batch_diff =
     (let condition = condition_for cfg i in
      (case pc_max_block_diff_to_upstream condition of
         Some m \<Rightarrow> if block_diff > m then [\<lparr> ca_component = as_str i, ca_trigger = BlockDiffToUpstreamTooHigh m block_diff \<rparr>] else []
       | None \<Rightarrow> []) @
      (case (pc_max_time_diff_to_upstream condition, time_diff) of
         (Some m, Some actual) \<Rightarrow>
           if actual > m then [\<lparr> ca_component = as_str i, ca_trigger = TimeDiffToUpstreamTooHigh m actual \<rparr>] else []
       | _ \<Rightarrow> []) @
      (case (pc_max_batch_diff_to_upstream condition, batch_diff) of
         (Some m, Some actual) \<Rightarrow>
           if actual > m then [\<lparr> ca_component = as_str i, ca_trigger = BatchDiffToUpstreamTooHigh m actual \<rparr>] else []
       | _ \<Rightarrow> []))"

definition compute_acceptance_state ::
    "backpressure_config \<Rightarrow> pipeline_snapshot \<Rightarrow> (component_id \<rightharpoonup> adjacent_snapshot) \<Rightarrow> transaction_acceptance_state" where
  "compute_acceptance_state cfg snapshot adjacent =
     (let active_causes = concat (map (\<lambda>(i, _).
            (case adjacent i of
               None \<Rightarrow> evaluate cfg i 0 None None
             | Some adj \<Rightarrow> evaluate cfg i (as_block_diff adj) (as_time_diff adj) (as_batch_diff adj))) snapshot);
          active_causes = sort_key ca_component active_causes
      in if active_causes = [] then Accepting else NotAccepting [PipelineBackpressure active_causes])"

record backpressure_monitor =
  mo_config :: backpressure_config
  mo_acceptance :: transaction_acceptance_state
  mo_gate_open :: bool

definition backpressure_monitor_new :: "backpressure_config \<Rightarrow> backpressure_monitor" where
  "backpressure_monitor_new cfg = \<lparr> mo_config = cfg, mo_acceptance = Accepting, mo_gate_open = True \<rparr>"

definition update_acceptance_state :: "transaction_acceptance_state \<Rightarrow> backpressure_monitor \<Rightarrow> backpressure_monitor" where
  "update_acceptance_state new_state mo =
     (let mo = mo \<lparr> mo_gate_open := (new_state = Accepting) \<rparr> in
      if mo_acceptance mo = new_state then mo else mo \<lparr> mo_acceptance := new_state \<rparr>)"

definition evaluate_and_update :: "pipeline_snapshot \<Rightarrow> backpressure_monitor \<Rightarrow> backpressure_monitor" where
  "evaluate_and_update snapshot mo =
     update_acceptance_state (compute_acceptance_state (mo_config mo) snapshot (compute_adjacent_snapshots snapshot)) mo"

subsection \<open>Lemmas\<close>

text \<open>A stage lags behind its neighbour if the neighbour is ahead by more blocks, time or batches than the
  stage's threshold allows.\<close>

definition lags :: "backpressure_config \<Rightarrow> component_id \<times> tracking_coordinates option \<Rightarrow> component_id \<times> tracking_coordinates option \<Rightarrow> bool" where
  "lags cfg u d \<longleftrightarrow> (\<exists>up down. snd u = Some up \<and> snd d = Some down \<and>
     ((\<exists>m. pc_max_block_diff_to_upstream (condition_for cfg (fst d)) = Some m \<and>
         tc_block_number down + m < tc_block_number up) \<or>
      (\<exists>m t t'. pc_max_time_diff_to_upstream (condition_for cfg (fst d)) = Some m \<and>
         tc_timestamp up = Some t \<and> tc_timestamp down = Some t' \<and> t' * 10 ^ 9 + m < t * 10 ^ 9) \<or>
      (\<exists>m n n'. pc_max_batch_diff_to_upstream (condition_for cfg (fst d)) = Some m \<and>
         tc_batch_number up = Some n \<and> tc_batch_number down = Some n' \<and> n' + m < n)))"

lemma evaluate_lags:
  assumes "snd u = Some up" "snd d = Some down" "adj = adjacent_diff up down"
  shows "evaluate cfg (fst d) (as_block_diff adj) (as_time_diff adj) (as_batch_diff adj) \<noteq> [] \<longleftrightarrow> lags cfg u d"
proof -
  have t: "m < (t - t') * 10 ^ 9 \<longleftrightarrow> t' * 10 ^ 9 + m < t * 10 ^ 9" for m t t' :: nat
    by (simp add: diff_mult_distrib less_diff_conv add.commute)
  have n: "m < x - y \<longleftrightarrow> y + m < x" for m x y :: nat by arith
  show ?thesis
    unfolding lags_def evaluate_def Let_def assms(3) adjacent_diff_def
    by (auto simp: assms(1,2) t n split: option.splits if_splits)
qed

lemma evaluate_none: "evaluate cfg i 0 None None = []"
  by (simp add: evaluate_def Let_def split: option.split)

lemma adjacent_windows_other: "i \<notin> fst ` set (tl xs) \<Longrightarrow> adjacent_windows xs m i = m i"
  by (induction xs m rule: adjacent_windows.induct) (auto split: option.split)

lemma adjacent_windows_at:
  assumes "distinct (map fst xs)" "Suc k < length xs" "m (fst (xs ! Suc k)) = None"
  shows "adjacent_windows xs m (fst (xs ! Suc k)) = (case (snd (xs ! k), snd (xs ! Suc k)) of
    (Some up, Some down) \<Rightarrow> Some (adjacent_diff up down) | _ \<Rightarrow> None)"
  using assms
proof (induction xs m arbitrary: k rule: adjacent_windows.induct)
  case (1 u d rest m)
  let ?m = "case (snd u, snd d) of (Some up, Some down) \<Rightarrow> m(fst d \<mapsto> adjacent_diff up down) | _ \<Rightarrow> m"
  show ?case
  proof (cases k)
    case 0
    with 1(2,4) adjacent_windows_other [of "fst d" "d # rest" ?m] show ?thesis by (auto split: option.splits)
  next
    case (Suc j)
    with 1(3) have "fst (rest ! j) \<in> fst ` set rest" by simp
    moreover have "fst d \<notin> fst ` set rest" using 1(2) by simp
    ultimately have "fst ((d # rest) ! Suc j) \<noteq> fst d" by (metis nth_Cons_Suc)
    with 1(4) Suc have "?m (fst ((d # rest) ! Suc j)) = None" by (auto split: option.split)
    with 1(1) [of j] 1(2,3) Suc show ?thesis by simp
  qed
qed simp_all

lemma compute_acceptance_Accepting:
  "compute_acceptance_state cfg snapshot adjacent = Accepting \<longleftrightarrow> (\<forall>(i, c) \<in> set snapshot. case adjacent i of
     None \<Rightarrow> True | Some adj \<Rightarrow> evaluate cfg i (as_block_diff adj) (as_time_diff adj) (as_batch_diff adj) = [])"
proof -
  have "sort_key ca_component xs = [] \<longleftrightarrow> xs = []" for xs :: "backpressure_cause list"
    by (metis length_0_conv length_sort)
  then have "compute_acceptance_state cfg snapshot adjacent = Accepting \<longleftrightarrow> (\<forall>(i, c) \<in> set snapshot.
      (case adjacent i of None \<Rightarrow> evaluate cfg i 0 None None
        | Some adj \<Rightarrow> evaluate cfg i (as_block_diff adj) (as_time_diff adj) (as_batch_diff adj)) = [])"
    by (simp add: compute_acceptance_state_def Let_def case_prod_unfold)
  also have "\<dots> \<longleftrightarrow> (\<forall>(i, c) \<in> set snapshot. case adjacent i of
     None \<Rightarrow> True | Some adj \<Rightarrow> evaluate cfg i (as_block_diff adj) (as_time_diff adj) (as_batch_diff adj) = [])"
    by (rule ball_cong) (auto simp: evaluate_none split: option.split)
  finally show ?thesis .
qed

lemma adjacent_stages:
  assumes "distinct (map fst xs)" "(i, c) \<in> set xs" "adjacent_windows xs Map.empty i = Some adj"
  obtains k up down where "Suc k < length xs" "i = fst (xs ! Suc k)" "snd (xs ! k) = Some up"
    "snd (xs ! Suc k) = Some down" "adj = adjacent_diff up down"
proof -
  obtain j where j: "j < length xs" "xs ! j = (i, c)" using assms(2) by (auto simp: in_set_conv_nth)
  show ?thesis
  proof (cases j)
    case 0
    then have "i \<notin> fst ` set (tl xs)" using j assms(1) by (cases xs) auto
    with adjacent_windows_other assms(3) show ?thesis by fastforce
  next
    case (Suc k)
    with adjacent_windows_at [of xs k Map.empty] assms(1,3) j that [of k] show ?thesis
      by (auto split: option.splits)
  qed
qed

subsection \<open>Properties\<close>

text \<open>C15.  Transactions are accepted, and the gate of the pipeline is open, exactly as long as no stage of the
  pipeline lags behind its upstream neighbour by more than its threshold; components that are not
  stages neither count nor separate neighbours.\<close>

theorem accepting_iff_no_lag:
  assumes "distinct (map fst snapshot)" "stages = filter (\<lambda>(i, _). is_pipeline_stage i) snapshot"
  shows "(mo_gate_open (evaluate_and_update snapshot mo) \<longleftrightarrow>
      (\<forall>k. Suc k < length stages \<longrightarrow> \<not> lags (mo_config mo) (stages ! k) (stages ! Suc k))) \<and>
    (mo_acceptance (evaluate_and_update snapshot mo) = Accepting \<longleftrightarrow> mo_gate_open (evaluate_and_update snapshot mo))"
proof -
  let ?adj = "adjacent_windows stages Map.empty"
  have d: "distinct (map fst stages)" using assms by (simp add: distinct_map_filter)
  have "compute_acceptance_state (mo_config mo) snapshot ?adj = Accepting \<longleftrightarrow>
      (\<forall>k. Suc k < length stages \<longrightarrow> \<not> lags (mo_config mo) (stages ! k) (stages ! Suc k))"
    (is "?l \<longleftrightarrow> ?r")
  proof
    assume l: ?l
    show ?r
    proof (intro allI impI notI)
      fix k assume k: "Suc k < length stages" "lags (mo_config mo) (stages ! k) (stages ! Suc k)"
      then have "stages ! Suc k \<in> set snapshot" using assms(2) nth_mem [OF k(1)] by auto
      then have "(fst (stages ! Suc k), snd (stages ! Suc k)) \<in> set snapshot" by simp
      with l have a: "case ?adj (fst (stages ! Suc k)) of None \<Rightarrow> True | Some adj \<Rightarrow>
          evaluate (mo_config mo) (fst (stages ! Suc k)) (as_block_diff adj) (as_time_diff adj) (as_batch_diff adj) = []"
        unfolding compute_acceptance_Accepting by blast
      from k(2) obtain up down where ud: "snd (stages ! k) = Some up" "snd (stages ! Suc k) = Some down"
        by (auto simp: lags_def)
      with adjacent_windows_at [OF d k(1), of Map.empty] have "?adj (fst (stages ! Suc k)) = Some (adjacent_diff up down)"
        by simp
      with a evaluate_lags [OF ud refl, of "mo_config mo"] k(2) show False by simp
    qed
  next
    assume r: ?r
    show ?l unfolding compute_acceptance_Accepting
    proof (intro ballI, clarify)
      fix i c assume i: "(i, c) \<in> set snapshot"
      show "case ?adj i of None \<Rightarrow> True
        | Some adj \<Rightarrow> evaluate (mo_config mo) i (as_block_diff adj) (as_time_diff adj) (as_batch_diff adj) = []"
      proof (cases "?adj i")
        case (Some adj)
        then have "i \<in> fst ` set (tl stages)" using adjacent_windows_other [of i stages Map.empty] by fastforce
        then obtain c' where "(i, c') \<in> set stages" by (cases stages) force+
        from adjacent_stages [OF d this Some] obtain k up down where
          "Suc k < length stages" "i = fst (stages ! Suc k)" "snd (stages ! k) = Some up"
          "snd (stages ! Suc k) = Some down" "adj = adjacent_diff up down" .
        with r Some evaluate_lags [of "stages ! k" up "stages ! Suc k" down adj "mo_config mo"] show ?thesis by auto
      qed simp
    qed
  qed
  then show ?thesis
    using assms(2) by (simp add: evaluate_and_update_def update_acceptance_state_def compute_adjacent_snapshots_def Let_def)
qed

definition sample_snapshot :: pipeline_snapshot where
  "sample_snapshot =
     [(ConsensusNodeCommandSource, None),
      (BlockExecutor, Some \<lparr> tc_block_number = 1000, tc_timestamp = None, tc_batch_number = None \<rparr>),
      (BlockApplier, Some \<lparr> tc_block_number = 700, tc_timestamp = None, tc_batch_number = None \<rparr>)]"

lemma sample_stages: "filter (\<lambda>(i, _). is_pipeline_stage i) sample_snapshot = tl sample_snapshot"
  by (simp add: sample_snapshot_def is_pipeline_stage_def)

lemma sample_lags: "lags backpressure_config_default (tl sample_snapshot ! 0) (tl sample_snapshot ! Suc 0)"
  by (simp add: sample_snapshot_def lags_def condition_for_def
      backpressure_config_default_def default_condition_for_def pipeline_condition_default_def Let_def)

theorem accepting_iff_no_lag_witness:
  "\<not> mo_gate_open (evaluate_and_update sample_snapshot (backpressure_monitor_new backpressure_config_default))"
proof -
  have "distinct (map fst sample_snapshot)" "Suc 0 < length (tl sample_snapshot)"
    "mo_config (backpressure_monitor_new backpressure_config_default) = backpressure_config_default"
    by (simp_all add: sample_snapshot_def backpressure_monitor_new_def)
  with accepting_iff_no_lag [of sample_snapshot "tl sample_snapshot"] sample_stages sample_lags show ?thesis by metis
qed

end
