(* ===== verification/Sequencer.thy ===== *)
theory Sequencer
  imports BlockExecution Backpressure
begin

text \<open>
  The stages of the sequencer around the execution of a block
  (\<open>lib/sequencer/src/execution\<close>): the block context provider turns commands into prepared
  commands and keeps the cursors of the chain, the canonizer lets only canonized blocks pass,
  the applier persists them.

  Clocks, fee inputs, the genesis input and what the streams of the pool yield are arguments;
  consensus and the storages appear as the messages exchanged with them.
\<close>

subsection \<open>Commands\<close>

record rebuild_command =
  rb_replay_record :: replay_record
  rb_make_empty :: bool
  rb_reset_timestamp :: bool

datatype block_command = Replay replay_record | Produce | Rebuild rebuild_command

datatype block_command_type = ReplayCommand | ProduceCommand | RebuildCommand

definition command_type :: "block_command \<Rightarrow> block_command_type" where
  "command_type c = (case c of Replay _ \<Rightarrow> ReplayCommand | Produce \<Rightarrow> ProduceCommand | Rebuild _ \<Rightarrow> RebuildCommand)"

subsection \<open>Block context provider\<close>

record provider_config =
  cfg_l2_chain_id :: u64
  cfg_l1_chain_id :: u64
  cfg_gas_limit :: u64
  cfg_pubdata_limit :: u64
  cfg_fee_collector_address :: address
  cfg_block_time :: nat
  cfg_service_block_delay :: nat
  cfg_max_transactions_in_block :: usize
  cfg_interop_roots_per_block :: u64

record last_block =
  lb_record :: replay_record
  lb_hash :: b256
  lb_next_cursors :: block_start_cursors

record block_context_provider =
  bp_fee_provider :: fee_provider
  bp_pool :: pool
  bp_config :: provider_config
  bp_last_block :: "last_block option"
  bp_next_interop_tx_allowed_after :: nat
  bp_last_constructed_block_ctx :: "block_context option"

datatype provider_error =
    MempoolClosed
  | PricesClosed
  | UpgradeTooEarly u64 u64
  | UnsupportedExecutionVersion protocol_semantic_version
  | BlocksOutOfOrder u64 u64
  | InconsistentTimestamp u64 u64
  | InconsistentBlockHashes u64
  | EmptyBlockWithUpgrade u64

definition last_block_number :: "block_context_provider \<Rightarrow> u64 option" where
  "last_block_number p = map_option (\<lambda>b. bc_block_number (rr_block_context (lb_record b))) (bp_last_block p)"

definition U64_MAX :: u64 where
  "U64_MAX = 2 ^ 64 - 1"

text \<open>The protocol version and the preimages of the new block.\<close>

definition upgrade_of_block ::
    "upgrade_metadata option \<Rightarrow> protocol_semantic_version \<Rightarrow> u64 \<Rightarrow>
      provider_error + (protocol_semantic_version \<times> (b256 \<times> byte list) list)" where
  "upgrade_of_block metadata previous_version timestamp =
     (case metadata of
        Some m \<Rightarrow>
          if um_protocol_version m > previous_version then
            (let current_timestamp = min (timestamp + 5) U64_MAX in
             if um_timestamp m \<le> current_timestamp then Inr (um_protocol_version m, um_force_preimages m)
             else Inl (UpgradeTooEarly (um_timestamp m) current_timestamp))
          else Inr (previous_version, [])
      | None \<Rightarrow> Inr (previous_version, []))"

definition produce_command ::
    "(system_tx \<Rightarrow> tx_hash) \<Rightarrow> provider_config \<Rightarrow> last_block \<Rightarrow> fee_params \<Rightarrow> u64 \<Rightarrow> stream_outcome \<Rightarrow>
      provider_error + prepared_block_command" where
  "produce_command calculate_hash cfg lb fees timestamp best_txs =
     (let previous_record = lb_record lb; previous_context = rr_block_context previous_record in
      case upgrade_of_block (so_upgrade_metadata best_txs) (rr_protocol_version previous_record) timestamp of
        Inl e \<Rightarrow> Inl e
      | Inr (protocol_version, force_preimages) \<Rightarrow>
          (case execution_version_try_from protocol_version of
             Inl _ \<Rightarrow> Inl (UnsupportedExecutionVersion protocol_version)
           | Inr execution_version \<Rightarrow>
               (let first_post_v31_block = (minor (rr_protocol_version previous_record) < 31 \<or> bc_block_number previous_context = 0);
                    inject = (is_post_v31 protocol_version \<and> first_post_v31_block);
                    sl_chain_id_tx = System (set_sl_chain_id calculate_hash (cfg_l1_chain_id cfg) U64_MAX)
                in Inr \<lparr>
                  pc_block_context = \<lparr>
                    bc_chain_id = cfg_l2_chain_id cfg, bc_block_number = bc_block_number previous_context + 1,
                    bc_block_hashes = block_hashes_push (bc_block_hashes previous_context) (lb_hash lb),
                    bc_timestamp = timestamp, bc_eip1559_basefee = fp_eip1559_basefee fees,
                    bc_pubdata_price = fp_pubdata_price fees, bc_native_price = fp_native_price fees,
                    bc_coinbase = cfg_fee_collector_address cfg, bc_gas_limit = cfg_gas_limit cfg,
                    bc_pubdata_limit = cfg_pubdata_limit cfg, bc_mix_hash = 0,
                    bc_execution_version = execution_version_repr execution_version, bc_blob_fee = 1 \<rparr>,
                  pc_seal_policy = Decide (cfg_block_time cfg) (cfg_max_transactions_in_block cfg),
                  pc_invalid_tx_policy = RejectAndContinue True,
                  pc_tx_source = PoolTxs (so_stream best_txs) (if inject then Some sl_chain_id_tx else None),
                  pc_protocol_version = protocol_version, pc_expected_block_output_hash = None,
                  pc_previous_block_timestamp = bc_timestamp previous_context, pc_force_preimages = force_preimages,
                  pc_expect_sl_chain_id_tx_after_upgrade = inject, pc_starting_cursors = lb_next_cursors lb,
                  pc_interop_roots_per_block = cfg_interop_roots_per_block cfg, pc_strict_subpool_cleanup = True \<rparr>)))"

text \<open>What the streams of the pool yield when they are polled.  The fee inputs are awaited before; they are
  missing when the channel of the token prices is closed.\<close>

record stream_polls =
  sp_upgrade :: "upgrade_info option poll"
  sp_fee :: "zk_envelope option poll"
  sp_roots :: "zk_envelope option poll"
  sp_l1 :: "zk_envelope option poll"
  sp_l2 :: "zk_envelope option poll"

type_synonym prepared = "(provider_error + (prepared_block_command option \<times> block_context_provider)) awaited"

definition produce ::
    "(system_tx \<Rightarrow> tx_hash) \<Rightarrow> fee_inputs option poll \<Rightarrow> stream_polls \<Rightarrow> u64 \<Rightarrow> block_context_provider \<Rightarrow> prepared" where
  "produce calculate_hash inputs polls timestamp p =
     (case bp_last_block p of
        None \<Rightarrow> None
      | Some lb \<Rightarrow>
          (case map_poll (map_option (produce_fee_params (bp_fee_provider p))) inputs of
             Pending \<Rightarrow> Some Pending
           | Ready None \<Rightarrow> Some (Ready (Inl PricesClosed))
           | Ready (Some None) \<Rightarrow> None
           | Ready (Some (Some fees)) \<Rightarrow>
               (let pool = update_pending_block_fees fees None (bp_pool p);
                    include_interop_traffic = supports_l1_interop (rr_protocol_version (lb_record lb))
                in case best_transactions_stream (sp_upgrade polls) include_interop_traffic (sp_fee polls) (sp_roots polls)
                          (sp_l1 polls) (sp_l2 polls) of
                     Pending \<Rightarrow> Some Pending
                   | Ready None \<Rightarrow> Some (Ready (Inl MempoolClosed))
                   | Ready (Some best_txs) \<Rightarrow>
                       (case produce_command calculate_hash (bp_config p) lb fees timestamp best_txs of
                          Inl e \<Rightarrow> Some (Ready (Inl e))
                        | Inr command \<Rightarrow> Some (Ready (Inr (Some command,
                            p\<lparr> bp_pool := pool, bp_last_block := None,
                               bp_last_constructed_block_ctx := Some (pc_block_context command) \<rparr>)))))))"

fun upgrade_then_sl_chain_id :: "zk_envelope list \<Rightarrow> bool" where
  "upgrade_then_sl_chain_id (a # b # txs) =
     (tx_type a = TyUpgrade \<and> is_sl_chain_id_tx b \<or> upgrade_then_sl_chain_id (b # txs))"
| "upgrade_then_sl_chain_id _ = False"

definition replay_command :: "provider_config \<Rightarrow> replay_record \<Rightarrow> prepared_block_command" where
  "replay_command cfg record =
     \<lparr> pc_block_context = rr_block_context record, pc_seal_policy = UntilExhausted False, pc_invalid_tx_policy = Abort,
       pc_tx_source = FixedTxs (rr_transactions record), pc_protocol_version = rr_protocol_version record,
       pc_expected_block_output_hash = Some (rr_block_output_hash record),
       pc_previous_block_timestamp = rr_previous_block_timestamp record, pc_force_preimages = rr_force_preimages record,
       pc_expect_sl_chain_id_tx_after_upgrade = upgrade_then_sl_chain_id (rr_transactions record),
       pc_starting_cursors = rr_starting_cursors record, pc_interop_roots_per_block = cfg_interop_roots_per_block cfg,
       pc_strict_subpool_cleanup = False \<rparr>"

text \<open>The mempool is initialised by the first command.\<close>

definition init_pool :: "genesis_upgrade \<Rightarrow> replay_record \<Rightarrow> block_context_provider \<Rightarrow> block_context_provider option" where
  "init_pool genesis record p =
     (case bp_last_block p of
        None \<Rightarrow> map_option (\<lambda>pool. p\<lparr> bp_pool := pool \<rparr>) (pool_init genesis record (bp_pool p))
      | Some _ \<Rightarrow> Some p)"

definition check_follows :: "replay_record \<Rightarrow> replay_record \<Rightarrow> provider_error option" where
  "check_follows last_record record =
     (let last_ctx = rr_block_context last_record; ctx = rr_block_context record in
      if bc_block_number last_ctx + 1 \<noteq> bc_block_number ctx
      then Some (BlocksOutOfOrder (bc_block_number last_ctx) (bc_block_number ctx))
      else if bc_timestamp last_ctx \<noteq> rr_previous_block_timestamp record
      then Some (InconsistentTimestamp (bc_timestamp last_ctx) (rr_previous_block_timestamp record))
      else if drop 1 (bc_block_hashes last_ctx) \<noteq> take 255 (bc_block_hashes ctx)
      then Some (InconsistentBlockHashes (bc_block_number last_ctx))
      else None)"

definition default_cursors :: block_start_cursors where
  "default_cursors = \<lparr> l1_priority_id = 0, interop_root_id = 0, migration_number = 0, interop_fee_number = 0 \<rparr>"

definition replay :: "genesis_upgrade \<Rightarrow> b256 \<Rightarrow> replay_record \<Rightarrow> block_context_provider \<Rightarrow> prepared" where
  "replay genesis genesis_hash record p =
     (case init_pool genesis record p of
        None \<Rightarrow> None
      | Some q \<Rightarrow>
          if bc_block_number (rr_block_context record) = 0 then
            Some (Ready (Inr (None, q\<lparr> bp_last_block :=
              Some \<lparr> lb_record = record, lb_hash = genesis_hash, lb_next_cursors = default_cursors \<rparr> \<rparr>)))
          else
            (case (case bp_last_block q of None \<Rightarrow> None | Some lb \<Rightarrow> check_follows (lb_record lb) record) of
               Some e \<Rightarrow> Some (Ready (Inl e))
             | None \<Rightarrow> Some (Ready (Inr (Some (replay_command (bp_config q) record), q)))))"

definition rebuilt_txs :: "rebuild_command \<Rightarrow> block_start_cursors \<Rightarrow> zk_envelope list" where
  "rebuilt_txs rebuild next_cursors =
     (let txs = rr_transactions (rb_replay_record rebuild) in
      if rb_make_empty rebuild then []
      else (case first_l1_priority_id txs of
              Some i \<Rightarrow> if i \<noteq> l1_priority_id next_cursors then filter (\<lambda>tx. tx_type tx \<noteq> TyL1) txs else txs
            | None \<Rightarrow> txs))"

definition rebuild :: "genesis_upgrade \<Rightarrow> rebuild_command \<Rightarrow> u64 \<Rightarrow> block_context_provider \<Rightarrow> prepared" where
  "rebuild genesis command now p =
     (let record = rb_replay_record command; ctx = rr_block_context record in
      case init_pool genesis record p of
        None \<Rightarrow> None
      | Some q \<Rightarrow>
          (let cfg = bp_config q;
               (previous_block_timestamp, next_cursors, block_hashes) =
                 (case bp_last_block q of
                    Some lb \<Rightarrow> (bc_timestamp (rr_block_context (lb_record lb)), lb_next_cursors lb,
                                block_hashes_push (bc_block_hashes (rr_block_context (lb_record lb))) (lb_hash lb))
                  | None \<Rightarrow> (rr_previous_block_timestamp record, rr_starting_cursors record, bc_block_hashes ctx))
           in if rb_make_empty command \<and> (\<exists>tx \<in> set (rr_transactions record). tx_type tx = TyUpgrade)
              then Some (Ready (Inl (EmptyBlockWithUpgrade (bc_block_number ctx))))
              else
                (let txs = rebuilt_txs command next_cursors in
                 Some (Ready (Inr (Some \<lparr>
                   pc_block_context = \<lparr>
                     bc_chain_id = cfg_l2_chain_id cfg, bc_block_number = bc_block_number ctx,
                     bc_block_hashes = block_hashes, bc_timestamp = (if rb_reset_timestamp command then now else bc_timestamp ctx),
                     bc_eip1559_basefee = bc_eip1559_basefee ctx, bc_pubdata_price = bc_pubdata_price ctx,
                     bc_native_price = bc_native_price ctx, bc_coinbase = cfg_fee_collector_address cfg,
                     bc_gas_limit = cfg_gas_limit cfg, bc_pubdata_limit = cfg_pubdata_limit cfg, bc_mix_hash = 0,
                     bc_execution_version = bc_execution_version ctx, bc_blob_fee = bc_blob_fee ctx \<rparr>,
                   pc_seal_policy = UntilExhausted True, pc_invalid_tx_policy = RejectAndContinue False,
                   pc_tx_source = FixedTxs txs, pc_protocol_version = rr_protocol_version record,
                   pc_expected_block_output_hash = None, pc_previous_block_timestamp = previous_block_timestamp,
                   pc_force_preimages = rr_force_preimages record,
                   pc_expect_sl_chain_id_tx_after_upgrade = upgrade_then_sl_chain_id txs,
                   pc_starting_cursors = next_cursors, pc_interop_roots_per_block = cfg_interop_roots_per_block cfg,
                   pc_strict_subpool_cleanup = False \<rparr>, q))))))"

definition prepare_command ::
    "(system_tx \<Rightarrow> tx_hash) \<Rightarrow> genesis_upgrade \<Rightarrow> b256 \<Rightarrow> fee_inputs option poll \<Rightarrow> stream_polls \<Rightarrow> u64 \<Rightarrow> block_command \<Rightarrow>
      block_context_provider \<Rightarrow> prepared" where
  "prepare_command calculate_hash genesis genesis_hash inputs polls now command p =
     (case command of
        Produce \<Rightarrow> produce calculate_hash inputs polls now p
      | Replay record \<Rightarrow> replay genesis genesis_hash record p
      | Rebuild c \<Rightarrow> rebuild genesis c now p)"

definition advance_cursors :: "state_change_outcome \<Rightarrow> block_start_cursors \<Rightarrow> block_start_cursors" where
  "advance_cursors outcome c =
     c\<lparr> l1_priority_id := (case sco_last_l1_priority_id outcome of Some i \<Rightarrow> i + 1 | None \<Rightarrow> l1_priority_id c),
        interop_root_id := (case sco_last_interop_log_id outcome of Some i \<Rightarrow> i + 1 | None \<Rightarrow> interop_root_id c),
        interop_fee_number := (case sco_last_interop_fee_number outcome of Some n \<Rightarrow> n + 1 | None \<Rightarrow> interop_fee_number c) \<rparr>"

definition provider_on_canonical_state_change ::
    "(system_tx \<Rightarrow> tx_hash) \<Rightarrow> vm_block_output \<Rightarrow> replay_record \<Rightarrow> bool \<Rightarrow> nat \<Rightarrow> schedules \<Rightarrow> block_context_provider \<Rightarrow>
      block_context_provider awaited" where
  "provider_on_canonical_state_change calculate_hash out record strict_subpool_cleanup now sch p =
     await_then (pool_on_canonical_state_change calculate_hash (vo_header_hash out) (vo_account_diffs out) record
       strict_subpool_cleanup (bp_pool p) sch) (\<lambda>(outcome, pool).
       Some (Ready (p\<lparr> bp_pool := pool,
         bp_next_interop_tx_allowed_after :=
           (if sco_last_interop_log_id outcome = None then bp_next_interop_tx_allowed_after p
            else now + cfg_service_block_delay (bp_config p)),
         bp_fee_provider := fee_on_canonical_state_change record (bp_fee_provider p),
         bp_last_block := Some \<lparr> lb_record = record, lb_hash = vo_header_hash out,
           lb_next_cursors = advance_cursors outcome (rr_starting_cursors record) \<rparr> \<rparr>)))"

subsection \<open>Canonizer\<close>

record block_payload =
  pay_output :: vm_block_output
  pay_record :: replay_record
  pay_command_type :: block_command_type
  pay_failed_transactions :: "(tx_hash \<times> vm_invalid_tx) list"

definition MAX_PRODUCED_QUEUE_SIZE :: usize where
  "MAX_PRODUCED_QUEUE_SIZE = 2"

text \<open>The queue of produced blocks and what was sent to consensus, downstream and back to the
  beginning of the pipeline.\<close>

record canonizer =
  cn_produced_queue :: "block_payload list"
  cn_proposed :: "replay_record list"
  cn_output :: "block_payload list"
  cn_canonized_blocks_for_execution :: "replay_record list"

definition canonizer_new :: canonizer where
  "canonizer_new =
     \<lparr> cn_produced_queue = [], cn_proposed = [], cn_output = [], cn_canonized_blocks_for_execution = [] \<rparr>"

datatype canonizer_event = NextCanonized replay_record | ExecutorBlock block_payload | ExecutorClosed

datatype canonizer_result = CanonizerRuns canonizer | CanonizerStops | CanonizedMismatch u64

text \<open>The executor branch is disabled while the queue is full.\<close>

definition canonizer_step :: "canonizer \<Rightarrow> canonizer_event \<Rightarrow> canonizer_result" where
  "canonizer_step c event =
     (case event of
        NextCanonized record \<Rightarrow>
          (case cn_produced_queue c of
             payload # rest \<Rightarrow>
               if \<not> replay_record_eq (pay_record payload) record
               then CanonizedMismatch (bc_block_number (rr_block_context (pay_record payload)))
               else CanonizerRuns (c\<lparr> cn_produced_queue := rest, cn_output := cn_output c @ [payload] \<rparr>)
           | [] \<Rightarrow> CanonizerRuns (c\<lparr> cn_canonized_blocks_for_execution := cn_canonized_blocks_for_execution c @ [record] \<rparr>))
      | ExecutorBlock payload \<Rightarrow>
          if length (cn_produced_queue c) < MAX_PRODUCED_QUEUE_SIZE then
            (case pay_command_type payload of
               ReplayCommand \<Rightarrow> CanonizerRuns (c\<lparr> cn_output := cn_output c @ [payload] \<rparr>)
             | _ \<Rightarrow> CanonizerRuns (c\<lparr> cn_proposed := cn_proposed c @ [pay_record payload],
                                      cn_produced_queue := cn_produced_queue c @ [payload] \<rparr>))
          else CanonizerRuns c
      | ExecutorClosed \<Rightarrow>
          if length (cn_produced_queue c) < MAX_PRODUCED_QUEUE_SIZE then CanonizerStops else CanonizerRuns c)"

subsection \<open>Executor and applier\<close>

text \<open>\<open>Option\<close> is ordered with \<open>None\<close> first.\<close>

definition applier_caught_up :: "u64 option \<Rightarrow> u64 \<Rightarrow> bool" where
  "applier_caught_up applied_block_number required_block_number =
     (case applied_block_number of Some n \<Rightarrow> n \<ge> required_block_number | None \<Rightarrow> False)"

text \<open>Genesis is never applied, so the executor does not wait for it.\<close>

definition may_execute_next :: "u64 option \<Rightarrow> block_context_provider \<Rightarrow> bool" where
  "may_execute_next applied_block_number p =
     (case last_block_number p of
        Some last_number \<Rightarrow> last_number > 0 \<longrightarrow> applier_caught_up applied_block_number last_number
      | None \<Rightarrow> True)"

definition check_block_production_limit :: "u64 \<Rightarrow> u64 \<Rightarrow> transaction_acceptance_state option" where
  "check_block_production_limit limit already_produced_blocks_count =
     (if already_produced_blocks_count \<ge> limit then Some (NotAccepting [BlockProductionDisabled]) else None)"

datatype storage_call =
    WriteReplay replay_record b256 bool
  | AddBlockResult u64 "(b256 \<times> b256) list" "(b256 \<times> byte list) list" bool
  | Populate vm_block_output "zk_envelope list" "(tx_hash \<times> vm_invalid_tx) list"
  | BlockApplied u64
  | SendApplied vm_block_output replay_record

definition override_allowed :: "bool \<Rightarrow> block_command_type \<Rightarrow> bool" where
  "override_allowed is_external t = (case t of RebuildCommand \<Rightarrow> True | _ \<Rightarrow> is_external)"

text \<open>The calls of the applier for one block, as far as the storages accept them.\<close>

definition apply_block :: "bool \<Rightarrow> bool \<Rightarrow> bool \<Rightarrow> bool \<Rightarrow> block_payload \<Rightarrow> storage_call list" where
  "apply_block is_external replay_ok state_ok repositories_ok payload =
     (let out = pay_output payload; record = pay_record payload; n = bc_block_number (rr_block_context record);
          allowed = override_allowed is_external (pay_command_type payload)
      in WriteReplay record (vo_header_hash out) allowed #
         (if \<not> replay_ok then []
          else AddBlockResult n (vo_storage_writes out) (vo_published_preimages out) allowed #
            (if \<not> state_ok then []
             else Populate out (rr_transactions record) (pay_failed_transactions payload) #
               (if \<not> repositories_ok then [] else [BlockApplied n, SendApplied out record]))))"

subsection \<open>Replication\<close>

lemma replay_command_replays: "replays record (replay_command cfg record)"
  by (simp add: replays_def replay_command_def strict_command_def)

lemma produce_Ready:
  assumes "produce calculate_hash inputs polls timestamp p = Some (Ready (Inr (c, p')))"
  shows "\<exists>lb fees best_txs command. bp_last_block p = Some lb \<and> c = Some command \<and>
    produce_command calculate_hash (bp_config p) lb fees timestamp best_txs = Inr command"
  using assms
  by (auto simp: produce_def Let_def split: option.splits poll.splits sum.splits)

lemma produce_command_fields:
  assumes "produce_command calculate_hash cfg lb fees timestamp best_txs = Inr command"
  shows "bc_block_number (pc_block_context command) = bc_block_number (rr_block_context (lb_record lb)) + 1"
    "pc_previous_block_timestamp command = bc_timestamp (rr_block_context (lb_record lb))"
    "bc_block_hashes (pc_block_context command) = block_hashes_push (bc_block_hashes (rr_block_context (lb_record lb))) (lb_hash lb)"
    "pc_interop_roots_per_block command = cfg_interop_roots_per_block cfg"
    "pc_starting_cursors command = lb_next_cursors lb"
    "\<exists>src tx. pc_tx_source command = PoolTxs src tx"
  using assms by (auto simp: produce_command_def Let_def split: sum.splits)

lemma executed_record_fields:
  assumes "execute_block_in_vm keccak256 node_version vm command events = Executed (out, record, purged, strict)"
  shows "rr_block_context record = pc_block_context command"
    "rr_previous_block_timestamp record = pc_previous_block_timestamp command"
proof -
  obtain s :: "'a block_state" where r: "replay_record_new (pc_block_context command) (bx_executed_txs s)
      (pc_previous_block_timestamp command) node_version (pc_protocol_version command) (hash_block_output keccak256 out)
      (pc_force_preimages command) (pc_starting_cursors command) = Some record"
    using execute_block_Executed [OF assms] by auto
  show "rr_block_context record = pc_block_context command"
    "rr_previous_block_timestamp record = pc_previous_block_timestamp command"
    using replay_record_new_fields(1,3) [OF r] .
qed

lemma produced_follows:
  assumes "produce_command calculate_hash cfg lb fees timestamp best_txs = Inr command"
    and "rr_block_context record = pc_block_context command"
      "rr_previous_block_timestamp record = pc_previous_block_timestamp command"
    and "rr_block_context last_record = rr_block_context (lb_record lb)"
      "length (bc_block_hashes (rr_block_context last_record)) = 256"
  shows "check_follows last_record record = None"
  using produce_command_fields(1-3) [OF assms(1)] assms(2-5) by (simp add: check_follows_def block_hashes_push_def)

text \<open>C2. A block that one node produces and executes is replicated by every node at the same chain
  tip: the replay command passes the continuity checks, its execution succeeds and ends with
  the same record.\<close>

theorem produced_block_is_replicated:
  assumes "produce calculate_hash inputs polls timestamp p = Some (Ready (Inr (Some command, p')))"
    and "bp_last_block p = Some lb"
    and "execute_block_in_vm keccak256 node_version vm command events = Executed (out, record, purged, strict)"
    and "vm_rejections_invisible vm R"
    and "bp_last_block q = Some lbq" "rr_block_context (lb_record lbq) = rr_block_context (lb_record lb)"
    and "length (bc_block_hashes (rr_block_context (lb_record lb))) = 256"
    and "cfg_interop_roots_per_block (bp_config q) = cfg_interop_roots_per_block (bp_config p)"
  shows "\<exists>command' out' record'. replay genesis genesis_hash record q = Some (Ready (Inr (Some command', q))) \<and>
    execute_block_in_vm keccak256 node_version' vm command' (map StreamTx (rr_transactions record) @ [StreamEnded]) =
      Executed (out', record', [], False) \<and>
    replay_record_eq record' record"
proof -
  obtain fees best_txs where c: "produce_command calculate_hash (bp_config p) lb fees timestamp best_txs = Inr command"
    using produce_Ready [OF assms(1)] assms(2) by auto
  note r = executed_record_fields [OF assms(3)]
  have follows: "check_follows (lb_record lbq) record = None"
    by (rule produced_follows [OF c r]) (use assms(6,7) in simp_all)
  have n: "bc_block_number (rr_block_context record) \<noteq> 0" using produce_command_fields(1) [OF c] r(1) by simp
  let ?c = "replay_command (bp_config q) record"
  have "replay genesis genesis_hash record q = Some (Ready (Inr (Some ?c, q)))"
    using follows n assms(5) by (simp add: replay_def init_pool_def)
  moreover have "pc_interop_roots_per_block ?c = pc_interop_roots_per_block command"
    using assms(8) produce_command_fields(4) [OF c] by (simp add: replay_command_def)
  from executed_block_replays [OF assms(3,4) replay_command_replays this]
  obtain out' record' where "execute_block_in_vm keccak256 node_version' vm ?c (map StreamTx (rr_transactions record) @ [StreamEnded]) =
      Executed (out', record', [], pc_strict_subpool_cleanup ?c)" "replay_record_eq record' record" by blast
  moreover have "pc_strict_subpool_cleanup ?c = False" by (simp add: replay_command_def)
  ultimately show ?thesis by (metis (full_types))
qed

subsection \<open>Cursors\<close>

definition ids_from :: "u64 \<Rightarrow> l1_tx list \<Rightarrow> bool" where
  "ids_from c txs \<longleftrightarrow> map priority_id txs = [c..<c + length txs]"

lemma ids_from_append: "ids_from c (xs @ ys) \<longleftrightarrow> ids_from c xs \<and> ids_from (c + length xs) ys"
proof -
  have "[c..<c + length xs + length ys] = [c..<c + length xs] @ [c + length xs..<c + length xs + length ys]"
    by (rule upt_add_eq_append) simp
  then have "ids_from c (xs @ ys) \<longleftrightarrow>
      map priority_id xs @ map priority_id ys = [c..<c + length xs] @ [c + length xs..<c + length xs + length ys]"
    unfolding ids_from_def by (simp only: map_append length_append add.assoc)
  also have "\<dots> \<longleftrightarrow> ids_from c xs \<and> ids_from (c + length xs) ys"
    unfolding ids_from_def by (rule append_eq_append_conv) simp
  finally show ?thesis .
qed

lemma ids_from_last:
  assumes "ids_from c xs" "xs \<noteq> []"
  shows "priority_id (last xs) + 1 = c + length xs"
proof -
  have "priority_id (last xs) = last [c..<c + length xs]" using assms by (metis ids_from_def last_map)
  also have "\<dots> = c + length xs - 1" using assms(2) by (intro last_upt) simp
  finally show ?thesis using assms(2) by (simp add: Suc_le_eq)
qed

text \<open>C19. When the watcher delivers consecutive priority ids from the cursor of a block on, executing
  the block moves the cursor past its priority transactions, and the ids still pending start at
  the new cursor: the cursor stays in step with the queue for every kind of block.\<close>

theorem priority_cursor_tracks_pool:
  assumes "provider_on_canonical_state_change calculate_hash out record strict now sch p = Some (Ready p')"
    and "ids_from (l1_priority_id (rr_starting_cursors record))
      (rev (l1p_pending_txs (pl_l1_subpool (bp_pool p))) @ concat (sch_l1 sch))"
  shows "\<exists>lb. bp_last_block p' = Some lb \<and> lb_record lb = record \<and>
    l1_priority_id (lb_next_cursors lb) =
      l1_priority_id (rr_starting_cursors record) + length (bt_l1 (sort_txs (rr_transactions record))) \<and>
    ids_from (l1_priority_id (lb_next_cursors lb)) (rev (l1p_pending_txs (pl_l1_subpool (bp_pool p'))))"
proof -
  let ?txs = "bt_l1 (sort_txs (rr_transactions record))" and ?c = "l1_priority_id (rr_starting_cursors record)"
  obtain outcome pool where o: "pool_on_canonical_state_change calculate_hash (vo_header_hash out) (vo_account_diffs out) record
        strict (bp_pool p) sch = Some (Ready (outcome, pool))"
      and q: "bp_pool p' = pool" "bp_last_block p' = Some \<lparr> lb_record = record, lb_hash = vo_header_hash out,
        lb_next_cursors = advance_cursors outcome (rr_starting_cursors record) \<rparr>"
    using assms(1) by (auto simp: provider_on_canonical_state_change_def await_then_Ready_iff)
  let ?lb = "\<lparr> lb_record = record, lb_hash = vo_header_hash out,
    lb_next_cursors = advance_cursors outcome (rr_starting_cursors record) \<rparr>"
  obtain schedule' where l: "l1_on_canonical_state_change ?txs (pl_l1_subpool (bp_pool p)) (sch_l1 sch) =
      Some (Ready (sco_last_l1_priority_id outcome, pl_l1_subpool pool, schedule'))"
    using o by (auto simp: pool_on_canonical_state_change_def await_then_Ready_iff Let_def)
  have ids: "ids_from ?c (?txs @ rev (l1p_pending_txs (pl_l1_subpool pool)) @ concat schedule')"
    using assms(2) l1_consumed(1) [OF l] by simp
  have "l1_priority_id (advance_cursors outcome (rr_starting_cursors record)) = ?c + length ?txs"
    using l1_consumed(2) [OF l] ids_from_last [of ?c ?txs] ids by (auto simp: ids_from_append advance_cursors_def)
  then show ?thesis using q ids by (intro exI [of _ ?lb]) (simp add: ids_from_append)
qed

subsection \<open>The canonization fence\<close>

text \<open>The canonizer with the records consensus returned for its own blocks and the blocks the
  executor handed over.\<close>

record canonizer_world =
  cw_canonizer :: canonizer
  cw_matched :: "replay_record list"
  cw_executed :: "block_payload list"

definition proposable :: "block_payload \<Rightarrow> bool" where
  "proposable payload \<longleftrightarrow> pay_command_type payload \<noteq> ReplayCommand"

inductive canonizer_moves :: "canonizer_world \<Rightarrow> canonizer_world \<Rightarrow> bool" where
  canonized: "canonizer_step (cw_canonizer w) (NextCanonized record) = CanonizerRuns c \<Longrightarrow>
     canonizer_moves w (w\<lparr> cw_canonizer := c,
       cw_matched := (if cn_produced_queue (cw_canonizer w) = [] then cw_matched w else cw_matched w @ [record]) \<rparr>)"
| executed: "length (cn_produced_queue (cw_canonizer w)) < MAX_PRODUCED_QUEUE_SIZE \<Longrightarrow>
     canonizer_step (cw_canonizer w) (ExecutorBlock payload) = CanonizerRuns c \<Longrightarrow>
     canonizer_moves w (w\<lparr> cw_canonizer := c, cw_executed := cw_executed w @ [payload] \<rparr>)"

definition canonizer_world_new :: canonizer_world where
  "canonizer_world_new = \<lparr> cw_canonizer = canonizer_new, cw_matched = [], cw_executed = [] \<rparr>"

definition canonizer_invariant :: "canonizer_world \<Rightarrow> bool" where
  "canonizer_invariant w \<longleftrightarrow>
     (let c = cw_canonizer w; passed = filter proposable (cn_output c); proposed = filter proposable (cw_executed w) in
      list_all2 replay_record_eq (map pay_record passed) (cw_matched w) \<and>
      proposed = passed @ cn_produced_queue c \<and> cn_proposed c = map pay_record proposed \<and>
      filter (\<lambda>b. \<not> proposable b) (cn_output c) = filter (\<lambda>b. \<not> proposable b) (cw_executed w) \<and>
      list_all proposable (cn_produced_queue c) \<and> length (cn_produced_queue c) \<le> MAX_PRODUCED_QUEUE_SIZE)"

lemma canonizer_invariant_moves: "canonizer_moves w w' \<Longrightarrow> canonizer_invariant w \<Longrightarrow> canonizer_invariant w'"
proof (induction rule: canonizer_moves.induct)
  case (canonized w r c)
  then show ?case
    by (cases "cn_produced_queue (cw_canonizer w)")
      (auto simp: canonizer_invariant_def canonizer_step_def Let_def list_all2_appendI split: if_splits)
next
  case (executed w payload c)
  then show ?case
    by (auto simp: canonizer_invariant_def canonizer_step_def Let_def proposable_def split: block_command_type.splits)
qed

text \<open>C18. Whatever consensus returns and whenever it does, a produced or rebuilt block leaves the
  canonizer only after consensus returned an equal record for it; such blocks pass in the order
  in which they were executed, replayed ones pass at once and nothing is lost, and at most two
  blocks wait.\<close>

theorem only_canonized_blocks_pass:
  assumes "canonizer_moves\<^sup>*\<^sup>* canonizer_world_new w"
  shows "list_all2 replay_record_eq (map pay_record (filter proposable (cn_output (cw_canonizer w)))) (cw_matched w) \<and>
    filter proposable (cw_executed w) = filter proposable (cn_output (cw_canonizer w)) @ cn_produced_queue (cw_canonizer w) \<and>
    filter (\<lambda>b. \<not> proposable b) (cn_output (cw_canonizer w)) = filter (\<lambda>b. \<not> proposable b) (cw_executed w) \<and>
    length (cn_produced_queue (cw_canonizer w)) \<le> 2"
proof -
  have "canonizer_invariant w"
    using assms
  proof (induction rule: rtranclp_induct)
    case base
    show ?case by (simp add: canonizer_invariant_def canonizer_world_new_def canonizer_new_def)
  qed (rule canonizer_invariant_moves)
  then show ?thesis by (simp add: canonizer_invariant_def MAX_PRODUCED_QUEUE_SIZE_def Let_def)
qed

text \<open>Without consensus a channel returns the proposals.\<close>

type_synonym noop_canonization = "replay_record list"

definition noop_propose :: "replay_record \<Rightarrow> noop_canonization \<Rightarrow> noop_canonization" where
  "noop_propose record channel = channel @ [record]"

definition noop_next_canonized :: "noop_canonization \<Rightarrow> (replay_record \<times> noop_canonization) poll" where
  "noop_next_canonized channel = (case channel of [] \<Rightarrow> Pending | record # rest \<Rightarrow> Ready (record, rest))"

inductive noop_moves :: "canonizer \<times> noop_canonization \<Rightarrow> canonizer \<times> noop_canonization \<Rightarrow> bool" where
  noop_returned: "noop_next_canonized channel = Ready (record, rest) \<Longrightarrow>
     canonizer_step c (NextCanonized record) = CanonizerRuns c' \<Longrightarrow> noop_moves (c, channel) (c', rest)"
| noop_executed: "length (cn_produced_queue c) < MAX_PRODUCED_QUEUE_SIZE \<Longrightarrow>
     canonizer_step c (ExecutorBlock payload) = CanonizerRuns c' \<Longrightarrow>
     noop_moves (c, channel)
       (c', if cn_proposed c' = cn_proposed c then channel else noop_propose (pay_record payload) channel)"

lemma canonizer_step_executed:
  assumes "length (cn_produced_queue c) < MAX_PRODUCED_QUEUE_SIZE"
    and "canonizer_step c (ExecutorBlock payload) = CanonizerRuns c'"
  shows "cn_produced_queue c' = cn_produced_queue c @ (if proposable payload then [payload] else [])"
    "cn_proposed c' = cn_proposed c @ (if proposable payload then [pay_record payload] else [])"
  using assms by (auto simp: canonizer_step_def proposable_def split: block_command_type.splits)

lemma canonizer_step_canonized:
  assumes "canonizer_step c (NextCanonized record) = CanonizerRuns c'" "cn_produced_queue c = payload # queue"
  shows "cn_produced_queue c' = queue"
  using assms by (auto simp: canonizer_step_def split: if_splits)

lemma noop_invariant_moves:
  assumes "noop_moves w w'" "snd w = map pay_record (cn_produced_queue (fst w))"
  shows "snd w' = map pay_record (cn_produced_queue (fst w'))"
  using assms
proof (induction rule: noop_moves.induct)
  case (noop_returned channel r rest c c')
  then obtain payload queue where "cn_produced_queue c = payload # queue" "rest = map pay_record queue"
    by (cases "cn_produced_queue c") (simp_all add: noop_next_canonized_def)
  then show ?case using canonizer_step_canonized [OF noop_returned(2)] by simp
next
  case (noop_executed c payload c' channel)
  then show ?case using canonizer_step_executed [OF noop_executed(1,2)] by (simp add: noop_propose_def)
qed

lemma noop_invariant:
  assumes "noop_moves\<^sup>*\<^sup>* (canonizer_new, []) w"
  shows "snd w = map pay_record (cn_produced_queue (fst w))"
  using assms
proof (induction rule: rtranclp_induct)
  case base
  show ?case by (simp add: canonizer_new_def)
qed (rule noop_invariant_moves)

text \<open>C26. With the degenerate consensus every record that comes back equals the oldest waiting block,
  which then passes: the canonizer neither reports a mismatch nor sends a block back to the
  beginning of the pipeline.\<close>

theorem noop_canonization_passes:
  assumes "noop_moves\<^sup>*\<^sup>* (canonizer_new, []) (c, channel)" "noop_next_canonized channel = Ready (record, rest)"
  shows "\<exists>payload queue. cn_produced_queue c = payload # queue \<and>
    canonizer_step c (NextCanonized record) =
      CanonizerRuns (c\<lparr> cn_produced_queue := queue, cn_output := cn_output c @ [payload] \<rparr>)"
proof -
  obtain payload queue where "cn_produced_queue c = payload # queue" "pay_record payload = record"
    using noop_invariant [OF assms(1)] assms(2) by (cases "cn_produced_queue c") (simp_all add: noop_next_canonized_def)
  then show ?thesis by (simp add: canonizer_step_def replay_record_eq_def)
qed

subsection \<open>Witnesses\<close>

definition example_provider_config :: provider_config where
  "example_provider_config =
     \<lparr> cfg_l2_chain_id = 270, cfg_l1_chain_id = 1, cfg_gas_limit = 1000000, cfg_pubdata_limit = 100000,
       cfg_fee_collector_address = replicate 20 2, cfg_block_time = 250, cfg_service_block_delay = 10,
       cfg_max_transactions_in_block = 100, cfg_interop_roots_per_block = 10 \<rparr>"

definition example_last_block :: last_block where
  "example_last_block =
     \<lparr> lb_record = example_record, lb_hash = replicate 32 9,
       lb_next_cursors = \<lparr> l1_priority_id = 4, interop_root_id = 0, migration_number = 0, interop_fee_number = 0 \<rparr> \<rparr>"

definition example_provider :: block_context_provider where
  "example_provider =
     \<lparr> bp_fee_provider = example_fee_provider, bp_pool = example_pool, bp_config = example_provider_config,
       bp_last_block = Some example_last_block, bp_next_interop_tx_allowed_after = 0, bp_last_constructed_block_ctx = None \<rparr>"

definition example_polls :: stream_polls where
  "example_polls = \<lparr> sp_upgrade = Pending, sp_fee = Pending, sp_roots = Pending,
     sp_l1 = Ready (Some (L1 (example_l1_tx 4))), sp_l2 = Pending \<rparr>"

definition example_outcome :: stream_outcome where
  "example_outcome = \<lparr> so_upgrade_metadata = None, so_stream = L1L2Transactions \<rparr>"

definition example_produced :: prepared_block_command where
  "example_produced =
     (case produce_command no_hash example_provider_config example_last_block example_next_fees 1001 example_outcome of
        Inr command \<Rightarrow> command | Inl _ \<Rightarrow> example_command)"

lemma example_produce_command:
  "produce_command no_hash example_provider_config example_last_block example_next_fees 1001 example_outcome = Inr example_produced"
  by (simp add: example_produced_def produce_command_def upgrade_of_block_def execution_version_try_from_def Let_def
      example_outcome_def example_last_block_def example_record_def MIN_VERSION_WITH_RELIABLE_UPGRADE_LOGS_def)

lemma example_produce:
  "\<exists>p. produce no_hash (Ready (Some example_fee_inputs)) example_polls 1001 example_provider = Some (Ready (Inr (Some example_produced, p)))"
proof -
  have "best_transactions_stream (sp_upgrade example_polls) b (sp_fee example_polls) (sp_roots example_polls)
      (sp_l1 example_polls) (sp_l2 example_polls) = Ready (Some example_outcome)" for b
    by (simp add: best_transactions_stream_def select_transactions_def select_prio_left_def example_polls_def example_outcome_def)
  then show ?thesis
    by (simp add: produce_def example_provider_def example_fee_params example_produce_command Let_def)
qed

lemma example_produced_fields:
  "pc_seal_policy example_produced = Decide 250 100" "pc_tx_source example_produced = PoolTxs L1L2Transactions None"
  "pc_expect_sl_chain_id_tx_after_upgrade example_produced = False" "bc_gas_limit (pc_block_context example_produced) = 1000000"
  "pc_expected_block_output_hash example_produced = None" "l1_priority_id (pc_starting_cursors example_produced) = 4"
  "pc_interop_roots_per_block example_produced = 10"
  by (simp_all add: example_produced_def produce_command_def upgrade_of_block_def execution_version_try_from_def Let_def
      is_post_v31_def example_outcome_def example_last_block_def example_record_def example_provider_config_def
      MIN_VERSION_WITH_RELIABLE_UPGRADE_LOGS_def)

lemma example_produced_executes:
  "\<exists>out record. execute_block_in_vm (\<lambda>b. b) (0, 1, 0) example_vm example_produced
     [StreamTx (L1 (example_l1_tx 4)), DeadlineFired] = Executed (out, record, [], pc_strict_subpool_cleanup example_produced)"
  by (simp add: example_execution_defs example_produced_fields Let_def)

theorem produced_block_is_replicated_witness:
  "\<exists>record command out record'. replay \<lparr> gu_tx = example_l1_tx 0, gu_protocol_version = legacy_genesis_version, gu_force_deploy_preimages = [] \<rparr>
      (replicate 32 0) record example_provider = Some (Ready (Inr (Some command, example_provider))) \<and>
    execute_block_in_vm (\<lambda>b. b) (0, 2, 0) example_vm command (map StreamTx (rr_transactions record) @ [StreamEnded]) =
      Executed (out, record', [], False) \<and>
    replay_record_eq record' record"
proof -
  obtain p' where 1: "produce no_hash (Ready (Some example_fee_inputs)) example_polls 1001 example_provider =
      Some (Ready (Inr (Some example_produced, p')))" using example_produce by blast
  have 2: "bp_last_block example_provider = Some example_last_block" by (simp add: example_provider_def)
  obtain out r where 3: "execute_block_in_vm (\<lambda>b. b) (0, 1, 0) example_vm example_produced
      [StreamTx (L1 (example_l1_tx 4)), DeadlineFired] = Executed (out, r, [], pc_strict_subpool_cleanup example_produced)"
    using example_produced_executes by blast
  have 4: "length (bc_block_hashes (rr_block_context (lb_record example_last_block))) = 256"
    by (simp add: example_last_block_def example_record_def example_block_context_def block_hashes_default_def)
  show ?thesis
    using produced_block_is_replicated [OF 1 2 3 example_vm_rejections 2 refl 4 refl] by blast
qed

lemma example_pool_consumes:
  "\<exists>pool. pool_on_canonical_state_change no_hash header [] example_record True example_pool example_schedules =
     Some (Ready (\<lparr> sco_last_interop_log_id = None, sco_last_l1_priority_id = Some 3, sco_last_interop_fee_number = None \<rparr>, pool))"
proof -
  have v: "rr_protocol_version example_record = MIN_VERSION_WITH_RELIABLE_UPGRADE_LOGS" by (simp add: example_record_def)
  show ?thesis
    by (simp add: pool_on_canonical_state_change_def example_sorted Let_def example_pool_def example_schedules_def pool_new_def
        upgrade_on_canonical_state_change_def upgrade_subpool_default_def interop_on_canonical_state_change_def
        interop_fee_on_canonical_state_change_def l1_on_canonical_state_change_def l1_subpool_new_def v example_l1_tx_def priority_id_def
        l1_pop_wait_def l1_arrive_def l1_insert_def l1_pop_back_def)
qed

definition example_output :: vm_block_output where
  "example_output = \<lparr> vo_header_hash = replicate 32 8, vo_tx_results = [], vo_storage_writes = [], vo_account_diffs = [],
     vo_published_preimages = [] \<rparr>"

theorem priority_cursor_tracks_pool_witness:
  "\<exists>p lb. provider_on_canonical_state_change no_hash example_output example_record True 0 example_schedules example_provider =
      Some (Ready p) \<and> bp_last_block p = Some lb \<and>
    ids_from (l1_priority_id (lb_next_cursors lb)) (rev (l1p_pending_txs (pl_l1_subpool (bp_pool p))))"
proof -
  obtain p where 1: "provider_on_canonical_state_change no_hash example_output example_record True 0 example_schedules
      example_provider = Some (Ready p)"
    using example_pool_consumes [of "replicate 32 8"]
    by (auto simp: provider_on_canonical_state_change_def example_provider_def example_output_def)
  have 2: "ids_from (l1_priority_id (rr_starting_cursors example_record))
      (rev (l1p_pending_txs (pl_l1_subpool (bp_pool example_provider))) @ concat (sch_l1 example_schedules))"
    by (simp add: ids_from_def example_record_def example_provider_def example_pool_def pool_new_def l1_subpool_new_def
        example_schedules_def example_l1_tx_def priority_id_def upt_rec)
  show ?thesis using priority_cursor_tracks_pool [OF 1 2] 1 by blast
qed

definition example_payload :: block_payload where
  "example_payload = \<lparr> pay_output = example_output, pay_record = example_record, pay_command_type = ProduceCommand,
     pay_failed_transactions = [] \<rparr>"

definition example_waiting :: canonizer where
  "example_waiting = canonizer_new\<lparr> cn_proposed := [example_record], cn_produced_queue := [example_payload] \<rparr>"

lemma example_waits: "canonizer_step canonizer_new (ExecutorBlock example_payload) = CanonizerRuns example_waiting"
  by (simp add: canonizer_step_def canonizer_new_def example_payload_def example_waiting_def MAX_PRODUCED_QUEUE_SIZE_def)

lemma canonizer_new_not_full: "length (cn_produced_queue canonizer_new) < MAX_PRODUCED_QUEUE_SIZE"
  by (simp add: canonizer_new_def MAX_PRODUCED_QUEUE_SIZE_def)

theorem only_canonized_blocks_pass_witness:
  "\<exists>w. canonizer_moves canonizer_world_new w \<and> cw_canonizer w = example_waiting \<and>
     filter proposable (cw_executed w) = filter proposable (cn_output (cw_canonizer w)) @ [example_payload]"
proof -
  let ?w = "canonizer_world_new\<lparr> cw_canonizer := example_waiting, cw_executed := cw_executed canonizer_world_new @ [example_payload] \<rparr>"
  have m: "canonizer_moves canonizer_world_new ?w"
    by (rule canonizer_moves.executed) (simp_all add: canonizer_world_new_def canonizer_new_not_full example_waits)
  then have "canonizer_moves\<^sup>*\<^sup>* canonizer_world_new ?w" by (rule r_into_rtranclp)
  from only_canonized_blocks_pass [OF this] show ?thesis
    using m by (intro exI [of _ ?w]) (simp add: example_waiting_def)
qed

theorem noop_canonization_passes_witness:
  "\<exists>c. canonizer_step example_waiting (NextCanonized example_record) = CanonizerRuns c \<and> cn_output c = [example_payload]"
proof -
  have q: "cn_produced_queue example_waiting = [example_payload]" "cn_output example_waiting = []"
    "cn_proposed example_waiting \<noteq> cn_proposed canonizer_new" "pay_record example_payload = example_record"
    by (simp_all add: example_waiting_def canonizer_new_def example_payload_def)
  have "noop_moves (canonizer_new, []) (example_waiting, [example_record])"
    using noop_executed [OF canonizer_new_not_full example_waits, of "[]"] q(3,4) by (simp add: noop_propose_def)
  then have r: "noop_moves\<^sup>*\<^sup>* (canonizer_new, []) (example_waiting, [example_record])" by (rule r_into_rtranclp)
  have "noop_next_canonized [example_record] = Ready (example_record, [])" by (simp add: noop_next_canonized_def)
  from noop_canonization_passes [OF r this] show ?thesis using q(1,2) by auto
qed

end
