(* ===== verification/StateTree.thy ===== *)
theory StateTree
  imports BTreeMap
begin

text \<open>
  The state tree and its batch proofs (\<open>src/lib/merkle_tree_api\<close>): leaves linked in key order, the
  proof of a batch of reads, updates and inserts, and its verification.  Hash values are opaque to
  this code, so their type is a parameter \<open>'h\<close>, and so is the hasher, which the source passes as
  \<open>&dyn HashTree\<close>.  Keys and values are \<open>B256\<close>, whose byte-wise order is the order of 256-bit words.
  The abstract tree is the list of key-value pairs in insertion order; \<open>tree_root\<close> is the root of
  the complete binary tree over its linked leaves.  Hashers answer for subtrees up to
  \<open>MAX_TREE_DEPTH\<close> only; what they would return beyond it does not influence verification.
\<close>

type_synonym key = "256 word"

record leaf =
  leaf_key :: key
  leaf_value :: key
  leaf_next_index :: u64

record tree_entry =
  te_key :: key
  te_value :: key

definition leaf_min_guard :: leaf where
  "leaf_min_guard = \<lparr> leaf_key = 0, leaf_value = 0, leaf_next_index = 1 \<rparr>"

definition leaf_max_guard :: leaf where
  "leaf_max_guard = \<lparr> leaf_key = - 1, leaf_value = 0, leaf_next_index = 1 \<rparr>"

definition leaf_default :: leaf where
  "leaf_default = \<lparr> leaf_key = 0, leaf_value = 0, leaf_next_index = 0 \<rparr>"

record 'h hash_tree =
  hash_leaf :: "leaf \<Rightarrow> 'h"
  hash_branch :: "'h \<Rightarrow> 'h \<Rightarrow> 'h"
  empty_subtree_hash :: "nat \<Rightarrow> 'h"

definition MAX_TREE_DEPTH :: nat where
  "MAX_TREE_DEPTH = 64"

record 'h tree_output =
  to_root_hash :: 'h
  to_leaf_count :: u64

datatype tree_operation = Hit u64 | Miss u64

record 'h merkle_tree_view =
  mtv_root_hash :: 'h
  mtv_read_entries :: "key \<rightharpoonup> key option"

record 'h batch_tree_proof =
  btp_operations :: "tree_operation list"
  btp_read_operations :: "tree_operation list"
  btp_sorted_leaves :: "(u64, leaf) btm"
  btp_hashes :: "'h list"

datatype proof_error =
    UnexpectedOperationsLength
  | UnexpectedReadOperationsLength
  | IndexTooLarge
  | MismatchForPreviousRootHash
  | NonExistingIndex u64
  | IndexNotProven u64
  | UnexpectedKey u64
  | PrevLeafNotProven u64 key
  | PrevKeyNotLess
  | OldNextLeafNotProven u64 key
  | NextKeyNotGreater
  | Reading key proof_error
  | UpdateInsert tree_entry proof_error
  | EmptyTreeProofNotEmpty
  | DuplicateKeys
  | CannotFoldZeroLeaves
  | RanOutOfHashes
  | NotAllHashesConsumed

subsection \<open>Restoring a root hash from leaves and sibling hashes\<close>

text \<open>A sibling hash with its location, the level and the index on it.\<close>

type_synonym 'h located_hash = "(nat \<times> u64) \<times> 'h"

type_synonym 'h level_result = "(u64 \<times> 'h) list \<times> 'h list \<times> 'h located_hash list"

definition push_node :: "u64 \<times> 'h \<Rightarrow> 'h located_hash list \<Rightarrow> 'h level_result \<Rightarrow> (proof_error, 'h level_result) fallible" where
  "push_node n sibs r = (case r of (ns, hs, ss) \<Rightarrow> returns (n # ns, hs, sibs @ ss))"

text \<open>
  The \<open>while\<close> loop of \<open>zip_leaves\<close> over the nodes of one level: the nodes of the next level, the
  hashes that are left, and the sibling hashes that the optional buffer receives.
\<close>

fun zip_level :: "'h hash_tree \<Rightarrow> nat \<Rightarrow> u64 \<Rightarrow> (u64 \<times> 'h) list \<Rightarrow> 'h list \<Rightarrow> (proof_error, 'h level_result) fallible" where
  "zip_level hasher depth last_idx [] hashes = returns ([], hashes, [])"
| "zip_level hasher depth last_idx ((current_idx, current_hash) # nodes) hashes =
     (if current_idx mod 2 = 1 then
        (case hashes of
           [] \<Rightarrow> fails RanOutOfHashes
         | lhs # hashes' \<Rightarrow>
             and_then (zip_level hasher depth last_idx nodes hashes')
               (push_node (current_idx div 2, hash_branch hasher lhs current_hash) [((depth, current_idx - 1), lhs)]))
      else if nodes \<noteq> [] \<and> fst (hd nodes) = current_idx + 1 then
        and_then (zip_level hasher depth last_idx (tl nodes) hashes)
          (push_node (current_idx div 2, hash_branch hasher current_hash (snd (hd nodes)))
            [((depth, current_idx + 1), snd (hd nodes)), ((depth, current_idx), current_hash)])
      else if current_idx = last_idx then
        and_then (zip_level hasher depth last_idx nodes hashes)
          (push_node (current_idx div 2, hash_branch hasher current_hash (empty_subtree_hash hasher depth)) [])
      else
        (case hashes of
           [] \<Rightarrow> fails RanOutOfHashes
         | rhs # hashes' \<Rightarrow>
             and_then (zip_level hasher depth last_idx nodes hashes')
               (push_node (current_idx div 2, hash_branch hasher current_hash rhs) [((depth, current_idx + 1), rhs)])))"

text \<open>The \<open>for\<close> loop over the levels: \<open>levels\<close> of them are left and \<open>depth\<close> is the next.\<close>

fun zip_levels :: "'h hash_tree \<Rightarrow> nat \<Rightarrow> nat \<Rightarrow> u64 \<Rightarrow> (u64 \<times> 'h) list \<Rightarrow> 'h list \<Rightarrow> (proof_error, 'h level_result) fallible" where
  "zip_levels hasher 0 depth last_idx nodes hashes = returns (nodes, hashes, [])"
| "zip_levels hasher (Suc levels) depth last_idx nodes hashes =
     and_then (zip_level hasher depth last_idx nodes hashes)
       (\<lambda>(nodes', hashes', sibs).
         and_then (zip_levels hasher levels (depth + 1) (last_idx div 2) nodes' hashes')
           (\<lambda>(nodes'', hashes'', sibs'). returns (nodes'', hashes'', sibs @ sibs')))"

definition zip_leaves ::
    "'h hash_tree \<Rightarrow> nat \<Rightarrow> u64 \<Rightarrow> (u64 \<times> leaf) list \<Rightarrow> 'h list \<Rightarrow> (proof_error, 'h \<times> 'h located_hash list) fallible" where
  "zip_leaves hasher tree_depth leaf_count sorted_leaves hashes =
     ensure (sorted_leaves \<noteq> []) CannotFoldZeroLeaves
      (if leaf_count = 0 then None
       else and_then (zip_levels hasher tree_depth 0 (leaf_count - 1)
                        (map (\<lambda>(idx, leaf). (idx, hash_leaf hasher leaf)) sorted_leaves) hashes)
         (\<lambda>(nodes, hashes', sibs).
            ensure (hashes' = []) NotAllHashesConsumed
              (case nodes of [] \<Rightarrow> None | (_, root) # _ \<Rightarrow> returns (root, sibs))))"

subsection \<open>Verification\<close>

definition verify_operation :: "(u64, leaf) btm \<Rightarrow> u64 \<Rightarrow> tree_operation \<Rightarrow> key \<Rightarrow> (proof_error, unit) fallible" where
  "verify_operation sorted_leaves leaf_count operation k =
     (case operation of
        Hit index \<Rightarrow>
          ensure (index < leaf_count) (NonExistingIndex index)
           (case btm_get sorted_leaves index of
              None \<Rightarrow> fails (IndexNotProven index)
            | Some existing_leaf \<Rightarrow> ensure (leaf_key existing_leaf = k) (UnexpectedKey index) (returns ()))
      | Miss prev_index \<Rightarrow>
          (case btm_get sorted_leaves prev_index of
             None \<Rightarrow> fails (PrevLeafNotProven prev_index k)
           | Some prev_leaf \<Rightarrow>
               ensure (leaf_key prev_leaf < k) PrevKeyNotLess
                (case btm_get sorted_leaves (leaf_next_index prev_leaf) of
                   None \<Rightarrow> fails (OldNextLeafNotProven (leaf_next_index prev_leaf) k)
                 | Some old_next_leaf \<Rightarrow> ensure (k < leaf_key old_next_leaf) NextKeyNotGreater (returns ()))))"

text \<open>The loop over the read operations; \<open>sorted_leaves[&index]\<close> panics when the index is absent.\<close>

fun verify_read_operations ::
    "(u64, leaf) btm \<Rightarrow> u64 \<Rightarrow> (tree_operation \<times> key) list \<Rightarrow> (key \<rightharpoonup> key option) \<Rightarrow> (proof_error, key \<rightharpoonup> key option) fallible" where
  "verify_read_operations sorted_leaves leaf_count [] read_entries = returns read_entries"
| "verify_read_operations sorted_leaves leaf_count ((operation, read_key) # rest) read_entries =
     and_then (map_err (Reading read_key) (verify_operation sorted_leaves leaf_count operation read_key))
       (\<lambda>_. case operation of
              Hit index \<Rightarrow>
                (case btm_get sorted_leaves index of
                   None \<Rightarrow> None
                 | Some l \<Rightarrow> verify_read_operations sorted_leaves leaf_count rest (read_entries(read_key \<mapsto> Some (leaf_value l))))
            | Miss _ \<Rightarrow> verify_read_operations sorted_leaves leaf_count rest (read_entries(read_key \<mapsto> None)))"

text \<open>The first loop over the entries: every operation is checked, inserted keys get the next indices.
  Incrementing the last \<open>u64\<close> panics.\<close>

fun verify_operations ::
    "(u64, leaf) btm \<Rightarrow> u64 \<Rightarrow> (tree_operation \<times> tree_entry) list \<Rightarrow> (key, u64) btm \<Rightarrow> u64
      \<Rightarrow> (proof_error, (key, u64) btm \<times> u64) fallible" where
  "verify_operations sorted_leaves leaf_count [] index_by_key next_tree_index = returns (index_by_key, next_tree_index)"
| "verify_operations sorted_leaves leaf_count ((operation, entry) # rest) index_by_key next_tree_index =
     and_then (map_err (UpdateInsert entry) (verify_operation sorted_leaves leaf_count operation (te_key entry)))
       (\<lambda>_. case operation of
              Miss _ \<Rightarrow>
                if fits_u64 (next_tree_index + 1)
                then verify_operations sorted_leaves leaf_count rest
                       (btm_insert (te_key entry) next_tree_index index_by_key) (next_tree_index + 1)
                else None
            | Hit _ \<Rightarrow> verify_operations sorted_leaves leaf_count rest index_by_key next_tree_index)"

text \<open>The second loop: leaves are updated, inserted and relinked; a failed \<open>unwrap\<close> is a panic.\<close>

definition insert_leaf :: "(key, u64) btm \<Rightarrow> tree_entry \<Rightarrow> (u64, leaf) btm \<Rightarrow> (u64, leaf) btm option" where
  "insert_leaf index_by_key entry sorted_leaves =
     (case btm_range_from (te_key entry) index_by_key of
        (_, this_index) # (_, next_index) # _ \<Rightarrow>
          (if btm_range_to (te_key entry) index_by_key = [] then None
           else let prev_index = snd (last (btm_range_to (te_key entry) index_by_key));
                    leaves = btm_insert this_index
                      \<lparr> leaf_key = te_key entry, leaf_value = te_value entry, leaf_next_index = next_index \<rparr> sorted_leaves
                in Some (btm_update prev_index (leaf_next_index_update (\<lambda>_. this_index)) leaves))
      | _ \<Rightarrow> None)"

fun update_leaves ::
    "(key, u64) btm \<Rightarrow> (tree_operation \<times> tree_entry) list \<Rightarrow> (u64, leaf) btm \<Rightarrow> (u64, leaf) btm option" where
  "update_leaves index_by_key [] sorted_leaves = Some sorted_leaves"
| "update_leaves index_by_key ((Hit index, entry) # rest) sorted_leaves =
     (if btm_get sorted_leaves index = None then None
      else update_leaves index_by_key rest (btm_update index (leaf_value_update (\<lambda>_. te_value entry)) sorted_leaves))"
| "update_leaves index_by_key ((Miss _, entry) # rest) sorted_leaves =
     Option.bind (insert_leaf index_by_key entry sorted_leaves) (update_leaves index_by_key rest)"

text \<open>\<open>sorted_leaves\<close> is built from \<open>index_by_key\<close> alone; a key is always the first of its own range.\<close>

definition fresh_leaf :: "(key, u64) btm \<Rightarrow> tree_entry \<Rightarrow> leaf" where
  "fresh_leaf index_by_key entry =
     \<lparr> leaf_key = te_key entry, leaf_value = te_value entry,
       leaf_next_index = (case drop 1 (btm_range_from (te_key entry) index_by_key) of [] \<Rightarrow> 1 | (_, idx) # _ \<Rightarrow> idx) \<rparr>"

definition verify_for_empty_tree ::
    "'h hash_tree \<Rightarrow> nat \<Rightarrow> tree_entry list \<Rightarrow> key list \<Rightarrow> 'h batch_tree_proof \<Rightarrow> (proof_error, 'h merkle_tree_view) fallible" where
  "verify_for_empty_tree hasher tree_depth entries read_keys proof =
     ensure (btp_sorted_leaves proof = []) EmptyTreeProofNotEmpty
     (ensure (btp_operations proof = []) EmptyTreeProofNotEmpty
     (ensure (btp_read_operations proof = []) EmptyTreeProofNotEmpty
     (ensure (btp_hashes proof = []) EmptyTreeProofNotEmpty
      (let index_by_key = btm_of_list (zip (map te_key entries) [2..<length entries + 2]) in
       ensure (length index_by_key = length entries) DuplicateKeys
        (let sorted_leaves = map (fresh_leaf index_by_key) entries;
             min_leaf_index = (case index_by_key of [] \<Rightarrow> 1 | (_, idx) # _ \<Rightarrow> idx);
             min_guard = leaf_min_guard\<lparr> leaf_next_index := min_leaf_index \<rparr>;
             leaves_with_guards = [(0, min_guard), (1, leaf_max_guard)] @ zip [2..<length entries + 2] sorted_leaves
         in and_then (zip_leaves hasher tree_depth (2 + length entries) leaves_with_guards [])
              (\<lambda>(new_tree_hash, _). returns
                 \<lparr> mtv_root_hash = new_tree_hash, mtv_read_entries = (\<lambda>k. if k \<in> set read_keys then Some None else None) \<rparr>))))))"

definition verify ::
    "'h hash_tree \<Rightarrow> nat \<Rightarrow> 'h tree_output option \<Rightarrow> tree_entry list \<Rightarrow> key list \<Rightarrow> 'h batch_tree_proof
      \<Rightarrow> (proof_error, 'h merkle_tree_view) fallible" where
  "verify hasher tree_depth prev entries read_keys proof =
     (case prev of
        None \<Rightarrow> verify_for_empty_tree hasher tree_depth entries read_keys proof
      | Some prev_output \<Rightarrow>
          let operations = btp_operations proof; read_operations = btp_read_operations proof;
              sorted_leaves = btp_sorted_leaves proof; leaf_count = to_leaf_count prev_output in
          ensure (length operations = length entries) UnexpectedOperationsLength
         (ensure (length read_operations = length read_keys) UnexpectedReadOperationsLength
         (ensure (sorted_leaves \<noteq> [] \<longrightarrow> fst (last sorted_leaves) < leaf_count) IndexTooLarge
           (if operations = [] \<and> read_operations = []
            then returns \<lparr> mtv_root_hash = to_root_hash prev_output, mtv_read_entries = Map.empty \<rparr>
            else
              and_then (verify_read_operations sorted_leaves leaf_count (zip read_operations read_keys) Map.empty)
              (\<lambda>read_entries.
              and_then (verify_operations sorted_leaves leaf_count (zip operations entries)
                          (btm_of_list (map (\<lambda>(idx, l). (leaf_key l, idx)) sorted_leaves)) leaf_count)
              (\<lambda>(index_by_key, next_tree_index).
              and_then (zip_leaves hasher tree_depth leaf_count sorted_leaves (btp_hashes proof))
              (\<lambda>(restored_prev_hash, _).
              ensure (restored_prev_hash = to_root_hash prev_output) MismatchForPreviousRootHash
               (if operations = []
                then returns \<lparr> mtv_root_hash = restored_prev_hash, mtv_read_entries = read_entries \<rparr>
                else case update_leaves index_by_key (zip operations entries) sorted_leaves of
                  None \<Rightarrow> None
                | Some updated_leaves \<Rightarrow>
                    and_then (zip_leaves hasher tree_depth next_tree_index updated_leaves (btp_hashes proof))
                      (\<lambda>(new_root_hash, _).
                        returns \<lparr> mtv_root_hash = new_root_hash, mtv_read_entries = read_entries \<rparr>)))))))))"

definition verify_reads ::
    "'h hash_tree \<Rightarrow> nat \<Rightarrow> 'h tree_output \<Rightarrow> key list \<Rightarrow> 'h batch_tree_proof \<Rightarrow> (proof_error, 'h merkle_tree_view) fallible" where
  "verify_reads hasher tree_depth prev_output read_keys proof =
     verify hasher tree_depth (Some prev_output) [] read_keys proof"

subsection \<open>Collecting the hashes of a proof\<close>

text \<open>
  \<open>WorkingPatchSet::collect_hashes\<close> of the prover repeats the traversal of \<open>zip_leaves\<close> on the
  indices: the siblings a level lacks, in order, and the indices on the next level.
\<close>

fun missing_siblings :: "u64 \<Rightarrow> u64 list \<Rightarrow> u64 list" where
  "missing_siblings last_idx [] = []"
| "missing_siblings last_idx (i # is) =
     (if i mod 2 = 1 then (i - 1) # missing_siblings last_idx is
      else if is \<noteq> [] \<and> hd is = i + 1 then missing_siblings last_idx (tl is)
      else if i < last_idx then (i + 1) # missing_siblings last_idx is
      else missing_siblings last_idx is)"

fun parent_indices :: "u64 list \<Rightarrow> u64 list" where
  "parent_indices [] = []"
| "parent_indices (i # is) =
     i div 2 # (if i mod 2 = 0 \<and> is \<noteq> [] \<and> hd is = i + 1 then parent_indices (tl is) else parent_indices is)"

fun collect_hashes_from :: "(nat \<Rightarrow> u64 \<Rightarrow> 'h) \<Rightarrow> nat \<Rightarrow> nat \<Rightarrow> u64 \<Rightarrow> u64 list \<Rightarrow> 'h list" where
  "collect_hashes_from node_hash 0 depth last_idx is = []"
| "collect_hashes_from node_hash (Suc levels) depth last_idx is =
     map (node_hash depth) (missing_siblings last_idx is) @
     collect_hashes_from node_hash levels (depth + 1) (last_idx div 2) (parent_indices is)"

definition collect_hashes :: "(nat \<Rightarrow> u64 \<Rightarrow> 'h) \<Rightarrow> nat \<Rightarrow> u64 \<Rightarrow> u64 list \<Rightarrow> 'h list option" where
  "collect_hashes node_hash tree_depth leaf_count leaf_indices =
     (if leaf_indices = [] then Some []
      else if leaf_count = 0 then None
      else Some (collect_hashes_from node_hash tree_depth 0 (leaf_count - 1) leaf_indices))"

subsection \<open>The tree that a proof is about\<close>

text \<open>The complete binary tree over a list of leaves, filled up with empty subtrees.\<close>

fun tree_node :: "'h hash_tree \<Rightarrow> leaf list \<Rightarrow> nat \<Rightarrow> nat \<Rightarrow> 'h" where
  "tree_node H L 0 i = (if i < length L then hash_leaf H (L ! i) else empty_subtree_hash H 0)"
| "tree_node H L (Suc d) i =
     (if i * 2 ^ Suc d < length L then hash_branch H (tree_node H L d (2 * i)) (tree_node H L d (2 * i + 1))
      else empty_subtree_hash H (Suc d))"

declare tree_node.simps(2) [simp del]

definition tree_root :: "'h hash_tree \<Rightarrow> nat \<Rightarrow> leaf list \<Rightarrow> 'h" where
  "tree_root H tree_depth L = tree_node H L tree_depth 0"

text \<open>No two leaves and no two pairs of hashes have the same hash.\<close>

definition collision_free :: "'h hash_tree \<Rightarrow> bool" where
  "collision_free H \<longleftrightarrow> inj (hash_leaf H) \<and> (\<forall>a b c d. hash_branch H a b = hash_branch H c d \<longrightarrow> a = c \<and> b = d)"

definition nodes_at :: "'h hash_tree \<Rightarrow> leaf list \<Rightarrow> nat \<Rightarrow> nat list \<Rightarrow> (nat \<times> 'h) list" where
  "nodes_at H L d is = map (\<lambda>i. (i, tree_node H L d i)) is"

lemma nodes_at_simps [simp]:
  "nodes_at H L d [] = []" "nodes_at H L d (i # is) = (i, tree_node H L d i) # nodes_at H L d is"
  by (simp_all add: nodes_at_def)

lemma nodes_at_eq_Nil [simp]: "nodes_at H L d is = [] \<longleftrightarrow> is = []"
  by (simp add: nodes_at_def)

lemma fst_nodes_at [simp]: "map fst (nodes_at H L d is) = is"
  by (simp add: nodes_at_def comp_def)

lemma level_bound:
  assumes "i \<le> (n - 1) div 2 ^ d" "0 < (n::nat)"
  shows "i div 2 * 2 ^ Suc d < n"
proof -
  have "i div 2 * 2 ^ Suc d = 2 * (i div 2) * 2 ^ d" by simp
  also have "\<dots> \<le> i * 2 ^ d" by (rule mult_le_mono1) simp
  also have "\<dots> \<le> (n - 1) div 2 ^ d * 2 ^ d" using assms(1) by (rule mult_le_mono1)
  also have "\<dots> \<le> n - 1" by (metis div_times_less_eq_dividend)
  finally show ?thesis using assms(2) by simp
qed

lemma tree_node_parent:
  assumes "i \<le> (length L - 1) div 2 ^ d" "L \<noteq> []"
  shows "tree_node H L (Suc d) (i div 2) =
    hash_branch H (tree_node H L d (2 * (i div 2))) (tree_node H L d (2 * (i div 2) + 1))"
  using level_bound [OF assms(1)] assms(2) by (simp add: tree_node.simps(2))

lemma tree_node_beyond:
  assumes "(length L - 1) div 2 ^ d < i"
  shows "tree_node H L d i = empty_subtree_hash H d"
proof -
  have "length L - 1 < i * 2 ^ d" using assms by (simp add: div_less_iff_less_mult)
  then show ?thesis by (cases d) (auto simp: tree_node.simps(2))
qed

text \<open>One level: the nodes of the next level are the parents, and only missing siblings are consumed.\<close>

lemma zip_level_indices:
  "zip_level H d m ns hs = returns (ns', hs', ss) \<Longrightarrow> map fst ns' = parent_indices (map fst ns)"
proof (induction H d m ns hs arbitrary: ns' hs' ss rule: zip_level.induct)
  case (2 H d m i h ns hs)
  show ?case
    using "2.prems" "2.IH"
    by (auto simp: fallible_iffs push_node_def hd_map map_tl split: if_splits list.splits prod.splits)
qed simp

lemma collision_freeD:
  assumes "collision_free H"
  shows "hash_branch H a b = hash_branch H c d \<longleftrightarrow> a = c \<and> b = d" "hash_leaf H l = hash_leaf H l' \<longleftrightarrow> l = l'"
  using assms unfolding collision_free_def by (blast, blast dest: injD)

lemma nodes_at_eq_Cons:
  "(j, h) # ns = nodes_at H L d is \<longleftrightarrow> (\<exists>is'. is = j # is' \<and> h = tree_node H L d j \<and> ns = nodes_at H L d is')"
  by (auto simp: nodes_at_def)

lemma push_node_nodes_at:
  "push_node (j, h) sib r = returns (nodes_at H L d is, hs, ss) \<longleftrightarrow>
    (\<exists>is' ss'. r = (nodes_at H L d is', hs, ss') \<and> is = j # is' \<and> h = tree_node H L d j \<and> ss = sib @ ss')"
  by (cases r) (auto simp: push_node_def nodes_at_eq_Cons)

lemma tree_node_parent_odd:
  assumes "i \<le> (length L - 1) div 2 ^ d" "L \<noteq> []" "i mod 2 = 1"
  shows "tree_node H L (Suc d) (i div 2) = hash_branch H (tree_node H L d (i - 1)) (tree_node H L d i)"
proof -
  from assms(3) have "2 * (i div 2) + 1 = i" "2 * (i div 2) = i - 1" by presburger+
  then show ?thesis using tree_node_parent [OF assms(1,2), of H] by (simp only:)
qed

lemma tree_node_parent_even:
  assumes "i \<le> (length L - 1) div 2 ^ d" "L \<noteq> []" "i mod 2 \<noteq> 1"
  shows "tree_node H L (Suc d) (i div 2) = hash_branch H (tree_node H L d i) (tree_node H L d (i + 1))"
proof -
  from assms(3) have "2 * (i div 2) = i" by presburger
  then show ?thesis using tree_node_parent [OF assms(1,2), of H] by (simp only:)
qed

lemma zip_level_sound:
  assumes "zip_level H d m ns hs = returns (nodes_at H L (Suc d) is', hs', ss)"
    and "collision_free H" "L \<noteq> []" "m = (length L - 1) div 2 ^ d" "\<forall>i \<in> fst ` set ns. i \<le> m"
  shows "ns = nodes_at H L d (map fst ns) \<and>
    hs = map (tree_node H L d) (missing_siblings m (map fst ns)) @ hs'"
  using assms
proof (induction H d m ns hs arbitrary: is' hs' ss rule: zip_level.induct)
  case (2 H d m i h ns hs)
  note cf = collision_freeD(1) [OF "2.prems"(2)]
  have i: "i \<le> m" and rest: "\<forall>i \<in> fst ` set ns. i \<le> m" "\<forall>i \<in> fst ` set (tl ns). i \<le> m"
    using "2.prems"(5) by (cases ns; auto)+
  note odd_par = tree_node_parent_odd [OF i [unfolded "2.prems"(4)] "2.prems"(3), of H]
  note even_par = tree_node_parent_even [OF i [unfolded "2.prems"(4)] "2.prems"(3), of H]
  consider (odd) "i mod 2 = 1" | (pair) "i mod 2 \<noteq> 1" "ns \<noteq> [] \<and> fst (hd ns) = i + 1"
    | (lst) "i mod 2 \<noteq> 1" "\<not> (ns \<noteq> [] \<and> fst (hd ns) = i + 1)" "i = m"
    | (right) "i mod 2 \<noteq> 1" "\<not> (ns \<noteq> [] \<and> fst (hd ns) = i + 1)" "i \<noteq> m" by blast
  then show ?case
  proof cases
    case odd
    with "2.prems"(1) obtain lhs hs1 is2 ss2 where hs: "hs = lhs # hs1"
      and z: "zip_level H d m ns hs1 = returns (nodes_at H L (Suc d) is2, hs', ss2)"
      and b: "hash_branch H lhs h = tree_node H L (Suc d) (i div 2)"
      by (cases hs) (auto simp: and_then_returns_iff push_node_nodes_at)
    from b odd_par [OF odd] have "lhs = tree_node H L d (i - 1)" "h = tree_node H L d i" by (simp_all add: cf)
    with "2.IH"(1) [OF odd hs z "2.prems"(2,3,4) rest(1)] odd hs show ?thesis by simp
  next
    case pair
    with "2.prems"(1) obtain is2 ss2
      where z: "zip_level H d m (tl ns) hs = returns (nodes_at H L (Suc d) is2, hs', ss2)"
        and b: "hash_branch H h (snd (hd ns)) = tree_node H L (Suc d) (i div 2)"
      by (auto simp: and_then_returns_iff push_node_nodes_at)
    from b even_par [OF pair(1)] have "h = tree_node H L d i" "snd (hd ns) = tree_node H L d (i + 1)"
      by (simp_all add: cf)
    with "2.IH"(2) [OF pair z "2.prems"(2,3,4) rest(2)] pair show ?thesis by (cases ns) auto
  next
    case lst
    with "2.prems"(1) obtain is2 ss2
      where z: "zip_level H d m ns hs = returns (nodes_at H L (Suc d) is2, hs', ss2)"
        and b: "hash_branch H h (empty_subtree_hash H d) = tree_node H L (Suc d) (i div 2)"
      by (auto simp: and_then_returns_iff push_node_nodes_at)
    from b even_par [OF lst(1)] have "h = tree_node H L d i" by (simp add: cf)
    with "2.IH"(3) [OF lst z "2.prems"(2,3,4) rest(1)] lst show ?thesis by (cases ns) auto
  next
    case right
    with "2.prems"(1) obtain rhs hs1 is2 ss2 where hs: "hs = rhs # hs1"
      and z: "zip_level H d m ns hs1 = returns (nodes_at H L (Suc d) is2, hs', ss2)"
      and b: "hash_branch H h rhs = tree_node H L (Suc d) (i div 2)"
      by (cases hs) (auto simp: and_then_returns_iff push_node_nodes_at)
    from b even_par [OF right(1)] have "h = tree_node H L d i" "rhs = tree_node H L d (i + 1)" by (simp_all add: cf)
    with "2.IH"(4) [OF right hs z "2.prems"(2,3,4) rest(1)] right i hs show ?thesis by (cases ns) auto
  qed
qed simp

text \<open>The sibling hashes a level puts into the optional buffer.\<close>

fun level_siblings :: "u64 \<Rightarrow> u64 list \<Rightarrow> u64 list" where
  "level_siblings m [] = []"
| "level_siblings m (i # is) =
     (if i mod 2 = 1 then (i - 1) # level_siblings m is
      else if is \<noteq> [] \<and> hd is = i + 1 then (i + 1) # i # level_siblings m (tl is)
      else if i < m then (i + 1) # level_siblings m is
      else level_siblings m is)"

definition located :: "'h hash_tree \<Rightarrow> leaf list \<Rightarrow> nat \<Rightarrow> nat list \<Rightarrow> 'h located_hash list" where
  "located H L d is = map (\<lambda>i. ((d, i), tree_node H L d i)) is"

lemma zip_level_complete:
  assumes "L \<noteq> []" "m = (length L - 1) div 2 ^ d" "\<forall>i \<in> set is. i \<le> m"
  shows "zip_level H d m (nodes_at H L d is) (map (tree_node H L d) (missing_siblings m is) @ hs) =
    returns (nodes_at H L (Suc d) (parent_indices is), hs, located H L d (level_siblings m is))"
  using assms
proof (induction m "is" rule: missing_siblings.induct)
  case (2 m i "is")
  have i: "i \<le> m" and rest: "\<forall>i \<in> set is. i \<le> m" "\<forall>i \<in> set (tl is). i \<le> m"
    using "2.prems"(3) by (cases "is"; simp)+
  note odd_par = tree_node_parent_odd [OF i [unfolded "2.prems"(2)] "2.prems"(1), of H]
  note even_par = tree_node_parent_even [OF i [unfolded "2.prems"(2)] "2.prems"(1), of H]
  consider (odd) "i mod 2 = 1" | (pair) "i mod 2 \<noteq> 1" "is \<noteq> [] \<and> hd is = i + 1"
    | (right) "i mod 2 \<noteq> 1" "\<not> (is \<noteq> [] \<and> hd is = i + 1)" "i < m"
    | (lst) "i mod 2 \<noteq> 1" "\<not> (is \<noteq> [] \<and> hd is = i + 1)" "i = m" using i by linarith
  then show ?case
  proof cases
    case odd
    with odd_par [OF odd] "2.IH"(1) [OF odd "2.prems"(1,2) rest(1)] show ?thesis
      by (simp add: push_node_def located_def)
  next
    case pair
    then obtain is2 where "is": "is = (i + 1) # is2" by (cases "is") auto
    with pair even_par [OF pair(1)] "2.IH"(2) [OF pair "2.prems"(1,2) rest(2)] show ?thesis
      by (simp add: push_node_def located_def)
  next
    case right
    with even_par [OF right(1)] "2.IH"(3) [OF right "2.prems"(1,2) rest(1)] show ?thesis
      by (cases "is") (auto simp: push_node_def located_def)
  next
    case lst
    have "tree_node H L d (i + 1) = empty_subtree_hash H d"
      using lst(3) "2.prems"(2) by (intro tree_node_beyond) simp
    with lst even_par [OF lst(1)] "2.IH"(4) [OF lst(1,2) _ "2.prems"(1,2) rest(1)] show ?thesis
      by (cases "is") (auto simp: push_node_def located_def)
  qed
qed (simp add: located_def)

text \<open>Indices on the levels.\<close>

lemma set_parent_indices: "set (parent_indices is) = (\<lambda>i. i div 2) ` set is"
proof (induction "is" rule: parent_indices.induct)
  case (2 i "is")
  then show ?case by (cases "is") (auto simp: mod2_eq_if)
qed simp

lemma sorted_parent_indices: "sorted_wrt (<) is \<Longrightarrow> sorted_wrt (<) (parent_indices is)"
proof (induction "is" rule: parent_indices.induct)
  case (2 i "is")
  show ?case
  proof (cases "i mod 2 = 0 \<and> is \<noteq> [] \<and> hd is = i + 1")
    case True
    then obtain is2 where "is": "is = (i + 1) # is2" by (cases "is") auto
    have "i div 2 < j div 2" if "j \<in> set is2" for j
    proof -
      have "i + 1 < j" using 2(3) that "is" by simp
      moreover have "i mod 2 = 0" using True by simp
      ultimately show ?thesis by presburger
    qed
    with 2 True "is" show ?thesis by (simp add: set_parent_indices)
  next
    case False
    have "i div 2 < j div 2" if "j \<in> set is" for j
    proof (cases "i mod 2 = 1")
      case True
      have "i < j" using 2(3) that by simp
      with True show ?thesis by presburger
    next
      case even: False
      have "i < j" "hd is \<le> j" "i < hd is"
        using 2(3) that by (cases "is"; auto)+
      with even False that have "i + 1 < j" by (cases "is") auto
      with even show ?thesis by presburger
    qed
    moreover have "sorted_wrt (<) is" using 2(3) by simp
    ultimately show ?thesis
      using 2(2) [OF False] False by (auto simp: set_parent_indices)
  qed
qed simp

lemma parent_indices_eq_Nil [simp]: "parent_indices is = [] \<longleftrightarrow> is = []"
  by (cases "is") simp_all

lemma set_parent_indices_pow: "set ((parent_indices ^^ r) is) = (\<lambda>i. i div 2 ^ r) ` set is"
  by (induction r) (simp_all add: set_parent_indices image_image div_power_Suc del: power_Suc)

lemma sorted_parent_indices_pow: "sorted_wrt (<) is \<Longrightarrow> sorted_wrt (<) ((parent_indices ^^ r) is)"
  by (induction r) (simp_all add: sorted_parent_indices)

lemma top_level_single:
  assumes "sorted_wrt (<) is" "is \<noteq> []" "\<forall>i \<in> set is. i < 2 ^ r"
  shows "(parent_indices ^^ r) is = [0]"
proof -
  have "set ((parent_indices ^^ r) is) = {0}"
    using assms(2,3) by (cases "is") (auto simp: set_parent_indices_pow image_iff)
  moreover have "distinct ((parent_indices ^^ r) is)" "sorted ((parent_indices ^^ r) is)"
    using sorted_parent_indices_pow [OF assms(1), of r] by (simp_all add: strict_sorted_iff)
  ultimately show ?thesis using sorted_list_of_set.idem_if_sorted_distinct by force
qed

text \<open>All levels.\<close>

lemma zip_levels_indices:
  "zip_levels H r d m ns hs = returns (ns', hs', ss) \<Longrightarrow> map fst ns' = (parent_indices ^^ r) (map fst ns)"
  by (induction r arbitrary: d m ns hs ss)
    (auto simp: and_then_returns_iff funpow_swap1 dest!: zip_level_indices simp del: funpow.simps(2) simp add: funpow_Suc_right)

lemma nodes_atI: "(\<And>i h. (i, h) \<in> set ns \<Longrightarrow> h = tree_node H L d i) \<Longrightarrow> ns = nodes_at H L d (map fst ns)"
  by (induction ns) auto

lemma level_bound_next:
  assumes "\<forall>i \<in> set is. i \<le> (n - 1) div 2 ^ d"
  shows "\<forall>i \<in> set (parent_indices is). i \<le> (n - 1) div 2 ^ Suc d"
  using assms by (auto simp: set_parent_indices div_power_Suc div_le_mono simp del: power_Suc)

lemma zip_levels_sound:
  assumes "zip_levels H r d m ns hs = returns (nodes_at H L (d + r) is', hs', ss)"
    and "collision_free H" "L \<noteq> []" "m = (length L - 1) div 2 ^ d" "\<forall>i \<in> fst ` set ns. i \<le> m"
  shows "ns = nodes_at H L d (map fst ns) \<and>
    hs = collect_hashes_from (tree_node H L) r d m (map fst ns) @ hs'"
  using assms
proof (induction r arbitrary: d m ns hs ss)
  case (Suc r)
  from Suc.prems(1) obtain ns1 hs1 ss1 ss2 where one: "zip_level H d m ns hs = returns (ns1, hs1, ss1)"
    and more: "zip_levels H r (d + 1) (m div 2) ns1 hs1 = returns (nodes_at H L (d + 1 + r) is', hs', ss2)"
    by (auto simp: and_then_returns_iff)
  have fst1: "map fst ns1 = parent_indices (map fst ns)" using one by (rule zip_level_indices)
  have m': "m div 2 = (length L - 1) div 2 ^ (d + 1)" using Suc.prems(4) by (simp add: div_power_Suc del: power_Suc)
  have "\<forall>i \<in> set (map fst ns1). i \<le> m div 2"
    unfolding fst1 m' using Suc.prems(4,5) level_bound_next [of "map fst ns" "length L" d] by simp
  then have b1: "\<forall>i \<in> fst ` set ns1. i \<le> m div 2" by simp
  note ih = Suc.IH [OF more Suc.prems(2,3) m' b1]
  from one ih have "zip_level H d m ns hs = returns (nodes_at H L (Suc d) (map fst ns1), hs1, ss1)" by simp
  from zip_level_sound [OF this Suc.prems(2-5)] ih fst1 show ?case by simp
qed auto

text \<open>What the optional buffer receives from all levels.\<close>

fun located_from :: "'h hash_tree \<Rightarrow> leaf list \<Rightarrow> nat \<Rightarrow> nat \<Rightarrow> u64 \<Rightarrow> u64 list \<Rightarrow> 'h located_hash list" where
  "located_from H L 0 d m is = []"
| "located_from H L (Suc r) d m is =
     located H L d (level_siblings m is) @ located_from H L r (d + 1) (m div 2) (parent_indices is)"

lemma zip_levels_complete:
  assumes "L \<noteq> []" "m = (length L - 1) div 2 ^ d" "\<forall>i \<in> set is. i \<le> m"
  shows "zip_levels H r d m (nodes_at H L d is) (collect_hashes_from (tree_node H L) r d m is @ hs) =
    returns (nodes_at H L (d + r) ((parent_indices ^^ r) is), hs, located_from H L r d m is)"
  using assms
proof (induction r arbitrary: d m "is")
  case (Suc r)
  have m': "m div 2 = (length L - 1) div 2 ^ (d + 1)" using Suc.prems(2) by (simp add: div_power_Suc del: power_Suc)
  have "\<forall>i \<in> set (parent_indices is). i \<le> m div 2"
    using Suc.prems(2,3) level_bound_next [of "is" "length L" d] m' by simp
  from Suc.IH [OF Suc.prems(1) m' this] show ?case
    by (simp add: funpow_swap1 zip_level_complete [OF Suc.prems])
qed simp

lemma leaf_nodes_at:
  assumes "\<forall>(i, l) \<in> set ls. i < length L \<and> L ! i = l"
  shows "map (\<lambda>(i, l). (i, hash_leaf H l)) ls = nodes_at H L 0 (map fst ls)"
  using assms by (induction ls) auto

lemma root_of_nodes: "(case ns of [] \<Rightarrow> None | (_, root) # _ \<Rightarrow> returns (root, ss)) = returns (r, ss') \<longleftrightarrow>
    (\<exists>i ns'. ns = (i, r) # ns') \<and> ss = ss'"
  by (cases ns) auto

lemma zip_leaves_returns:
  "zip_leaves H D n ls hs = returns (root, ss) \<longleftrightarrow> ls \<noteq> [] \<and> n \<noteq> 0 \<and>
    (\<exists>i ns. zip_levels H D 0 (n - 1) (map (\<lambda>(idx, l). (idx, hash_leaf H l)) ls) hs = returns ((i, root) # ns, [], ss))"
  by (auto simp: zip_leaves_def fallible_iffs root_of_nodes)

text \<open>
  A root that \<open>zip_leaves\<close> restores is the root of the tree exactly when every leaf is a leaf of the
  tree and the hashes are the ones that \<open>collect_hashes\<close> puts into a proof.
\<close>

lemma zip_leaves_sound:
  assumes "zip_leaves H D (length L) ls hs = returns (tree_root H D L, ss)"
    and "collision_free H" "length L \<le> 2 ^ D" "sorted_wrt (<) (map fst ls)" "\<forall>i \<in> fst ` set ls. i < length L"
  shows "(\<forall>(i, l) \<in> set ls. L ! i = l) \<and>
    hs = collect_hashes_from (tree_node H L) D 0 (length L - 1) (map fst ls)"
proof -
  let ?ns = "map (\<lambda>(i, l). (i, hash_leaf H l)) ls"
  have fst_ns: "map fst ?ns = map fst ls" by (induction ls) auto
  from assms(1) obtain h ns where ne: "ls \<noteq> []" "L \<noteq> []"
    and z: "zip_levels H D 0 (length L - 1) ?ns hs = returns ((h, tree_root H D L) # ns, [], ss)"
    by (auto simp: zip_leaves_returns)
  have "(parent_indices ^^ D) (map fst ls) = [0]"
    using assms(3,4,5) ne(1) by (intro top_level_single) fastforce+
  then have "map fst ((h, tree_root H D L) # ns) = [0]"
    using zip_levels_indices [OF z] by (simp only: fst_ns)
  then have "(h, tree_root H D L) # ns = nodes_at H L (0 + D) [0]" by (simp add: tree_root_def)
  with z have z': "zip_levels H D 0 (length L - 1) ?ns hs = returns (nodes_at H L (0 + D) [0], [], ss)" by simp
  have "\<forall>i \<in> fst ` set ?ns. i \<le> length L - 1" using assms(5) by fastforce
  from zip_levels_sound [OF z' assms(2) ne(2) _ this]
  have *: "?ns = nodes_at H L 0 (map fst ls)"
    and hs: "hs = collect_hashes_from (tree_node H L) D 0 (length L - 1) (map fst ls)"
    by (simp_all only: fst_ns append_Nil2 power_0 div_by_1 simp_thms)
  have "L ! i = l" if "(i, l) \<in> set ls" for i l
  proof -
    have "(i, hash_leaf H l) \<in> set (nodes_at H L 0 (map fst ls))" using that by (auto simp flip: *)
    with that assms(5) show ?thesis by (force simp: nodes_at_def collision_freeD(2) [OF assms(2)])
  qed
  with hs show ?thesis by auto
qed

lemma zip_leaves_complete:
  assumes "length L \<le> 2 ^ D" "sorted_wrt (<) (map fst ls)" "ls \<noteq> []" "\<forall>(i, l) \<in> set ls. i < length L \<and> L ! i = l"
  shows "zip_leaves H D (length L) ls (collect_hashes_from (tree_node H L) D 0 (length L - 1) (map fst ls)) =
    returns (tree_root H D L, located_from H L D 0 (length L - 1) (map fst ls))"
proof -
  have ne: "L \<noteq> []" using assms(3,4) by (cases ls) auto
  have "\<forall>i \<in> set (map fst ls). i \<le> length L - 1" using assms(4) by fastforce
  from zip_levels_complete [OF ne _ this, of 0 H D "[]"]
  have "zip_levels H D 0 (length L - 1) (nodes_at H L 0 (map fst ls))
      (collect_hashes_from (tree_node H L) D 0 (length L - 1) (map fst ls)) =
    returns (nodes_at H L D ((parent_indices ^^ D) (map fst ls)), [], located_from H L D 0 (length L - 1) (map fst ls))"
    by simp
  moreover have "(parent_indices ^^ D) (map fst ls) = [0]"
    using assms by (intro top_level_single) fastforce+
  ultimately show ?thesis
    using assms(3,4) ne by (simp add: zip_leaves_def leaf_nodes_at tree_root_def)
qed

end
