(* ===== verification/TreeIndices.thy ===== *)
theory TreeIndices
  imports StateTree
begin

text \<open>
  The traversal of a batch proof on indices alone.  When leaves are appended and the last old leaf
  is part of the proof, the traversal of the new tree asks for the same siblings as that of the old
  one, and none of them changes.
\<close>

subsection \<open>The same hashes before and after\<close>

definition sibling_of :: "nat \<Rightarrow> nat \<Rightarrow> bool" where
  "sibling_of j s \<longleftrightarrow> j mod 2 = 1 \<and> s = j - 1 \<or> j mod 2 = 0 \<and> s = j + 1"

lemma missing_siblings_fresh:
  assumes "sorted_wrt (<) is" "\<forall>i \<in> set is. i \<le> m" "s \<in> set (missing_siblings m is)"
  shows "s \<notin> set is \<and> s \<le> m \<and> (\<exists>j \<in> set is. sibling_of j s)"
  using assms
proof (induction m "is" rule: missing_siblings.induct)
  case (2 m i "is")
  have srt: "sorted_wrt (<) is" "sorted_wrt (<) (tl is)" "\<forall>j \<in> set is. i < j" "\<forall>j \<in> set (tl is). hd is < j"
    and bnd: "\<forall>j \<in> set is. j \<le> m" "\<forall>j \<in> set (tl is). j \<le> m" "i \<le> m"
    using 2(5,6) by (cases "is"; simp)+
  consider (odd) "i mod 2 = 1" | (pair) "i mod 2 \<noteq> 1" "is \<noteq> [] \<and> hd is = i + 1"
    | (even) "i mod 2 \<noteq> 1" "\<not> (is \<noteq> [] \<and> hd is = i + 1)" by blast
  then show ?case
  proof cases
    case odd
    show ?thesis
    proof (cases "s = i - 1")
      case True
      with odd have "s < i" by presburger
      with srt(3) bnd(3) have "s \<notin> set (i # is)" "s \<le> m" by (auto dest: bspec)
      moreover have "sibling_of i s" using odd True by (simp add: sibling_of_def)
      ultimately show ?thesis by simp
    next
      case False
      with 2(7) odd have "s \<in> set (missing_siblings m is)" by simp
      from 2(1) [OF odd srt(1) bnd(1) this] obtain j where j: "s \<notin> set is" "s \<le> m" "j \<in> set is"
        "sibling_of j s" by blast
      have "i < j" using srt(3) j(3) by blast
      with j(4) odd have "s \<noteq> i" unfolding sibling_of_def by presburger
      with j show ?thesis by auto
    qed
  next
    case pair
    with 2(7) have "s \<in> set (missing_siblings m (tl is))" by simp
    from 2(2) [OF pair srt(2) bnd(2) this] obtain j where j: "s \<notin> set (tl is)" "s \<le> m" "j \<in> set (tl is)"
      "sibling_of j s" by blast
    have "i + 1 < j" using srt(4) j(3) pair(2) by auto
    with j(4) pair(1) have "s \<noteq> i" "s \<noteq> i + 1" unfolding sibling_of_def by presburger+
    with j pair show ?thesis by (cases "is") auto
  next
    case even
    have next_two: "i + 1 < j" if "j \<in> set is" for j
    proof (cases "is")
      case (Cons h t)
      with srt(3) even(2) have "i + 1 < h" by auto
      moreover have "h \<le> j" using that srt(4) Cons by auto
      ultimately show ?thesis by simp
    qed (use that in simp)
    show ?thesis
    proof (cases "s = i + 1 \<and> i < m")
      case True
      with next_two have "s \<notin> set (i # is)" "s \<le> m" by auto
      moreover have "sibling_of i s" using even(1) True by (simp add: sibling_of_def)
      ultimately show ?thesis by simp
    next
      case False
      with 2(7) even have in_rest: "s \<in> set (missing_siblings m is)" by (auto split: if_splits)
      have "s \<notin> set is \<and> s \<le> m \<and> (\<exists>j \<in> set is. sibling_of j s)"
        using 2(3) [OF even _ srt(1) bnd(1) in_rest] 2(4) [OF even _ srt(1) bnd(1) in_rest] by (cases "i < m") auto
      then obtain j where j: "s \<notin> set is" "s \<le> m" "j \<in> set is"
        "sibling_of j s" by blast
      from next_two [OF j(3)] j(4) even(1) have "s \<noteq> i" unfolding sibling_of_def by presburger
      with j show ?thesis by auto
    qed
  qed
qed simp

lemma run_level:
  assumes "a mod 2 = 0"
  shows "missing_siblings m [a..<m + 1] = [] \<and> parent_indices [a..<m + 1] = [a div 2..<m div 2 + 1]"
  using assms
proof (induction "m + 1 - a" arbitrary: a rule: less_induct)
  case less
  consider "m < a" | "m = a" | "a < m" by linarith
  then show ?case
  proof cases
    case 1
    with less(2) have "m div 2 < a div 2" by presburger
    with 1 show ?thesis by simp
  next
    case 2
    with less(2) show ?thesis by simp
  next
    case 3
    then have split: "[a..<m + 1] = a # (a + 1) # [a + 2..<m + 1]" by (simp add: upt_conv_Cons del: upt_Suc)
    have ih: "missing_siblings m [a + 2..<m + 1] = [] \<and> parent_indices [a + 2..<m + 1] = [(a + 2) div 2..<m div 2 + 1]"
      using 3 less(2) by (intro less(1)) presburger+
    have "a div 2 < m div 2 + 1" using 3 by linarith
    then have "[a div 2..<m div 2 + 1] = a div 2 # [(a + 2) div 2..<m div 2 + 1]" by (simp add: upt_conv_Cons del: upt_Suc)
    with less(2) ih split show ?thesis by simp
  qed
qed

lemma extend_level:
  assumes "sorted_wrt (<) is" "is \<noteq> []" "last is = m" "m \<le> m'"
  shows "missing_siblings m' (is @ [m + 1..<m' + 1]) = missing_siblings m is \<and>
    parent_indices (is @ [m + 1..<m' + 1]) = parent_indices is @ [m div 2 + 1..<m' div 2 + 1]"
  using assms
proof (induction m "is" rule: missing_siblings.induct)
  case (2 m i "is")
  have srt: "sorted_wrt (<) is" "sorted_wrt (<) (tl is)" using "2.prems"(1) by (cases "is"; simp)+
  show ?case
  proof (cases "is = []")
    case True
    with "2.prems" have i: "i = m" by simp
    show ?thesis
    proof (cases "m mod 2 = 1")
      case odd: True
      then have "(m + 1) mod 2 = 0" "(m + 1) div 2 = m div 2 + 1" by presburger+
      with run_level [of "m + 1" m'] odd i True show ?thesis by (auto simp del: upt_Suc)
    next
      case False
      have "[m] @ [m + 1..<m' + 1] = [m..<m' + 1]" using "2.prems"(4) by (simp add: upt_conv_Cons del: upt_Suc)
      moreover have "[m div 2..<m' div 2 + 1] = m div 2 # [m div 2 + 1..<m' div 2 + 1]"
        using "2.prems"(4) by (simp add: upt_conv_Cons div_le_mono le_imp_less_Suc del: upt_Suc)
      moreover have "m mod 2 = 0" using False by presburger
      ultimately show ?thesis using run_level [of m m'] i True by (simp del: upt_Suc)
    qed
  next
    case ne: False
    then have im: "i < m" using "2.prems"(1,3) last_in_set [OF ne] by simp
    consider (odd) "i mod 2 = 1" | (pair) "i mod 2 \<noteq> 1" "is \<noteq> [] \<and> hd is = i + 1"
      | (even) "i mod 2 \<noteq> 1" "\<not> (is \<noteq> [] \<and> hd is = i + 1)" by blast
    then show ?thesis
    proof cases
      case odd
      with "2.IH"(1) [OF odd srt(1) ne] "2.prems" ne show ?thesis by (auto simp del: upt_Suc)
    next
      case pair
      show ?thesis
      proof (cases "tl is = []")
        case True
        with pair "2.prems" have m: "is = [i + 1]" "m = i + 1" by (cases "is"; simp)+
        with pair(1) have "(m + 1) mod 2 = 0" "(m + 1) div 2 = m div 2 + 1" by presburger+
        with run_level [of "m + 1" m'] pair m show ?thesis by (auto simp del: upt_Suc)
      next
        case False
        with "2.IH"(2) [OF pair srt(2) False] "2.prems" pair ne show ?thesis
          by (cases "is") (auto simp del: upt_Suc)
      qed
    next
      case even
      with "2.IH"(3) [OF even im srt(1) ne] "2.prems" ne im show ?thesis
        by (auto simp del: upt_Suc simp: hd_append)
    qed
  qed
qed simp

lemma last_parent_indices:
  assumes "sorted_wrt (<) is" "is \<noteq> []"
  shows "last (parent_indices is) = last is div 2"
proof -
  have mx: "Max (set js) = last js" if "sorted_wrt (<) js" "js \<noteq> []" for js :: "nat list"
  proof (rule Max_eqI)
    have "j \<le> last js" if "j \<in> set js" for j
      using that \<open>sorted_wrt (<) js\<close> by (induction js) (auto split: if_splits dest: bspec [OF _ last_in_set])
    then show "\<And>j. j \<in> set js \<Longrightarrow> j \<le> last js" .
  qed (use that in auto)
  have "Max ((\<lambda>i. i div 2) ` set is) = Max (set is) div 2"
    using assms(2) by (intro mono_Max_commute [symmetric]) (auto simp: mono_def div_le_mono)
  then show ?thesis
    using mx [OF assms] mx [OF sorted_parent_indices [OF assms(1)]] assms(2) by (simp add: set_parent_indices)
qed

lemma collect_extend:
  assumes "sorted_wrt (<) is" "is \<noteq> []" "last is = m" "m \<le> m'"
  shows "collect_hashes_from f r d m' (is @ [m + 1..<m' + 1]) = collect_hashes_from f r d m is"
  using assms
proof (induction r arbitrary: d m m' "is")
  case (Suc r)
  have "collect_hashes_from f r (d + 1) (m' div 2) (parent_indices is @ [m div 2 + 1..<m' div 2 + 1]) =
      collect_hashes_from f r (d + 1) (m div 2) (parent_indices is)"
    using Suc.prems by (intro Suc.IH) (simp_all add: sorted_parent_indices last_parent_indices div_le_mono)
  then show ?case using extend_level [OF Suc.prems] by (simp del: upt_Suc)
qed simp

lemma collect_cong:
  assumes "\<And>e s. e < r \<Longrightarrow> s \<in> set (missing_siblings (m div 2 ^ e) ((parent_indices ^^ e) is)) \<Longrightarrow> f (d + e) s = g (d + e) s"
  shows "collect_hashes_from f r d m is = collect_hashes_from g r d m is"
  using assms
proof (induction r arbitrary: d m "is")
  case (Suc r)
  have "collect_hashes_from f r (d + 1) (m div 2) (parent_indices is) = collect_hashes_from g r (d + 1) (m div 2) (parent_indices is)"
  proof (rule Suc.IH)
    fix e s assume "e < r" "s \<in> set (missing_siblings (m div 2 div 2 ^ e) ((parent_indices ^^ e) (parent_indices is)))"
    then show "f (d + 1 + e) s = g (d + 1 + e) s"
      using Suc.prems [of "Suc e" s] by (simp add: funpow_swap1 div_mult2_eq)
  qed
  moreover have "f d s = g d s" if "s \<in> set (missing_siblings m is)" for s using Suc.prems [of 0 s] that by simp
  ultimately show ?case by simp
qed simp

lemma tree_node_cong:
  assumes "\<And>j. j div 2 ^ d = i \<Longrightarrow> (j < length L \<longleftrightarrow> j < length L') \<and> (j < length L \<longrightarrow> L ! j = L' ! j)"
  shows "tree_node H L d i = tree_node H L' d i"
  using assms
proof (induction d arbitrary: i)
  case 0
  then show ?case by simp
next
  case (Suc d)
  have "tree_node H L d (2 * i) = tree_node H L' d (2 * i)" "tree_node H L d (2 * i + 1) = tree_node H L' d (2 * i + 1)"
    by (rule Suc.IH; use Suc.prems in \<open>force simp: div_power_Suc simp del: power_Suc\<close>)+
  moreover have "i * 2 ^ Suc d < length L \<longleftrightarrow> i * 2 ^ Suc d < length L'"
    using Suc.prems [of "i * 2 ^ Suc d"] by simp
  ultimately show ?case by (simp add: tree_node.simps(2))
qed

text \<open>
  The hashes of a proof for the old tree are the hashes of the proof for the new tree, when the trees
  differ only in the leaves of the proof and, if leaves are appended, the last old leaf is one of them.
\<close>

lemma collect_same_hashes:
  assumes "sorted_wrt (<) is" "is \<noteq> []" "\<forall>i \<in> set is. i < length L" "length L \<le> length L'"
    and "length L < length L' \<Longrightarrow> last is = length L - 1"
    and "\<And>j. j < length L \<Longrightarrow> j \<notin> set is \<Longrightarrow> L ! j = L' ! j"
  shows "collect_hashes_from (tree_node H L') D 0 (length L' - 1) (is @ [length L..<length L']) =
    collect_hashes_from (tree_node H L) D 0 (length L - 1) is"
proof -
  have ne: "0 < length L" using assms(2,3) by (cases "is") auto
  have "collect_hashes_from (tree_node H L') D 0 (length L' - 1) (is @ [length L..<length L']) =
      collect_hashes_from (tree_node H L') D 0 (length L - 1) is"
  proof (cases "length L < length L'")
    case True
    then have eqs: "length L - 1 + 1 = length L" "length L' - 1 + 1 = length L'" and le: "length L - 1 \<le> length L' - 1"
      using ne by simp_all
    show ?thesis using collect_extend [OF assms(1,2) assms(5) [OF True] le] unfolding eqs by blast
  qed (use assms(4) in simp)
  also have "\<dots> = collect_hashes_from (tree_node H L) D 0 (length L - 1) is"
  proof (rule collect_cong)
    fix e s assume s: "s \<in> set (missing_siblings ((length L - 1) div 2 ^ e) ((parent_indices ^^ e) is))"
    have "\<forall>i \<in> set ((parent_indices ^^ e) is). i \<le> (length L - 1) div 2 ^ e"
      using assms(3) by (auto simp: set_parent_indices_pow intro!: div_le_mono)
    from missing_siblings_fresh [OF sorted_parent_indices_pow [OF assms(1)] this s]
    have s': "\<And>i. i \<in> set is \<Longrightarrow> i div 2 ^ e \<noteq> s" "s \<le> (length L - 1) div 2 ^ e"
      by (auto simp: set_parent_indices_pow)
    show "tree_node H L' (0 + e) s = tree_node H L (0 + e) s"
    proof (rule tree_node_cong)
      fix j assume j: "j div 2 ^ (0 + e) = s"
      have "j < length L" if "length L < length L'"
      proof -
        have "length L - 1 \<in> set is" using assms(2,5) that last_in_set by metis
        from s'(1) [OF this] s'(2) have "j div 2 ^ e < (length L - 1) div 2 ^ e" using j by simp
        then have "j < length L - 1" using div_le_mono [of "length L - 1" j "2 ^ e"] by linarith
        then show ?thesis by simp
      qed
      moreover have "j \<notin> set is" using s'(1) [of j] j by auto
      ultimately show "(j < length L' \<longleftrightarrow> j < length L) \<and> (j < length L' \<longrightarrow> L' ! j = L ! j)"
        using assms(4) assms(6) [of j] by (cases "length L < length L'") auto
    qed
  qed
  finally show ?thesis .
qed

end
