(* ===== verification/TreeVerify.thy ===== *)
theory TreeVerify
  imports TreeIndices
begin

text \<open>
  What an accepted batch proof shows.  The tree is given by its key-value pairs in insertion order;
  its leaves are linked in key order.  The restored hashes determine every leaf of the proof, so the
  reads of an accepted proof are the values in the tree, and the returned root is the root of the
  tree after the batch.
\<close>

subsection \<open>The linked tree\<close>

definition index_of :: "key list \<Rightarrow> key \<Rightarrow> nat" where
  "index_of ks k = length (takeWhile (\<lambda>k'. k' \<noteq> k) ks)"

definition next_index :: "key list \<Rightarrow> key \<Rightarrow> nat" where
  "next_index ks k = (let greater = filter (\<lambda>k'. k < k') ks in if greater = [] then 1 else index_of ks (Min (set greater)))"

definition linked_leaves :: "(key \<times> key) list \<Rightarrow> leaf list" where
  "linked_leaves kvs =
     map (\<lambda>(k, v). \<lparr> leaf_key = k, leaf_value = v, leaf_next_index = next_index (map fst kvs) k \<rparr>) kvs"

text \<open>The guards come first and keys are distinct.\<close>

definition well_formed_tree :: "(key \<times> key) list \<Rightarrow> bool" where
  "well_formed_tree kvs \<longleftrightarrow> 2 \<le> length kvs \<and> fst (kvs ! 0) = 0 \<and> fst (kvs ! 1) = - 1 \<and> distinct (map fst kvs)"

text \<open>The effect of one entry and of a batch on the tree.\<close>

definition put_entry :: "(key \<times> key) list \<Rightarrow> tree_entry \<Rightarrow> (key \<times> key) list" where
  "put_entry kvs e =
     (if te_key e \<in> fst ` set kvs then map (\<lambda>(k, v). (k, if k = te_key e then te_value e else v)) kvs
      else kvs @ [(te_key e, te_value e)])"

definition extend_tree :: "(key \<times> key) list \<Rightarrow> tree_entry list \<Rightarrow> (key \<times> key) list" where
  "extend_tree kvs entries = foldl put_entry kvs entries"

definition tree_output_of :: "'h hash_tree \<Rightarrow> nat \<Rightarrow> (key \<times> key) list \<Rightarrow> 'h tree_output" where
  "tree_output_of H tree_depth kvs = \<lparr> to_root_hash = tree_root H tree_depth (linked_leaves kvs), to_leaf_count = length kvs \<rparr>"

lemma length_linked_leaves [simp]: "length (linked_leaves kvs) = length kvs"
  by (simp add: linked_leaves_def)

lemma nth_linked_leaves: "i < length kvs \<Longrightarrow> linked_leaves kvs ! i =
    \<lparr> leaf_key = fst (kvs ! i), leaf_value = snd (kvs ! i), leaf_next_index = next_index (map fst kvs) (fst (kvs ! i)) \<rparr>"
  by (simp add: linked_leaves_def case_prod_unfold)

lemma index_of_nth: "distinct ks \<Longrightarrow> i < length ks \<Longrightarrow> index_of ks (ks ! i) = i"
proof (induction ks arbitrary: i)
  case (Cons k ks)
  then show ?case by (cases i) (auto simp: index_of_def)
qed simp

lemma nth_index_of: "k \<in> set ks \<Longrightarrow> index_of ks k < length ks \<and> ks ! index_of ks k = k"
  by (induction ks) (auto simp: index_of_def)

lemma index_of_append: "k \<in> set ks \<Longrightarrow> index_of (ks @ ks') k = index_of ks k"
  by (induction ks) (auto simp: index_of_def)

lemma next_indexI:
  assumes "k' \<in> set ks" "k < k'" "\<And>j. j \<in> set ks \<Longrightarrow> k < j \<Longrightarrow> k' \<le> j"
  shows "next_index ks k = index_of ks k'"
proof -
  have "Min (set (filter (\<lambda>j. k < j) ks)) = k'" using assms by (intro Min_eqI) auto
  moreover have "filter (\<lambda>j. k < j) ks \<noteq> []" using assms(1,2) by (auto simp: filter_empty_conv)
  ultimately show ?thesis by (simp add: next_index_def)
qed

lemma next_indexE:
  assumes "j \<in> set ks" "k < j"
  obtains k' where "k' \<in> set ks" "k < k'" "\<And>j. j \<in> set ks \<Longrightarrow> k < j \<Longrightarrow> k' \<le> j" "next_index ks k = index_of ks k'"
proof -
  let ?k = "Min (set (filter (\<lambda>j. k < j) ks))"
  have ne: "set (filter (\<lambda>j. k < j) ks) \<noteq> {}" using assms by auto
  have "?k \<in> set (filter (\<lambda>j. k < j) ks)" by (rule Min_in) (use ne in simp_all)
  moreover have "?k \<le> i" if "i \<in> set ks" "k < i" for i using that by (intro Min_le) auto
  ultimately show thesis using next_indexI [of ?k ks k] by (intro that [of ?k]) auto
qed

text \<open>A key between a leaf and its next leaf is not in the tree.\<close>

lemma linked_gap:
  assumes "i < length ks" "next_index ks (ks ! i) < length ks" "ks ! i < k" "k < ks ! next_index ks (ks ! i)" "j \<in> set ks"
  shows "j \<le> ks ! i \<or> ks ! next_index ks (ks ! i) \<le> j"
proof (cases "ks ! i < j")
  case True
  from next_indexE [OF assms(5) True] obtain k' where k': "k' \<in> set ks" "ks ! i < k'"
      "\<And>j. j \<in> set ks \<Longrightarrow> ks ! i < j \<Longrightarrow> k' \<le> j" "next_index ks (ks ! i) = index_of ks k'" by blast
  then show ?thesis using nth_index_of [OF k'(1)] k'(3) [OF assms(5) True] by simp
qed (simp add: not_less)

subsection \<open>Reads\<close>

text \<open>The leaves of a proof are leaves of the tree.\<close>

definition leaves_of :: "(key \<times> key) list \<Rightarrow> (u64, leaf) btm \<Rightarrow> bool" where
  "leaves_of kvs ls \<longleftrightarrow> (\<forall>(i, l) \<in> set ls. i < length kvs \<and> l = linked_leaves kvs ! i)"

lemma leaves_of_get:
  assumes "leaves_of kvs ls" "btm_get ls i = Some l"
  shows "i < length kvs" "leaf_key l = fst (kvs ! i)" "leaf_value l = snd (kvs ! i)"
    "leaf_next_index l = next_index (map fst kvs) (fst (kvs ! i))"
  using assms btm_get_Some_in [OF assms(2)] by (auto simp: leaves_of_def nth_linked_leaves)

lemma verify_operation_Hit:
  assumes "verify_operation ls n (Hit i) k = returns ()"
  obtains l where "btm_get ls i = Some l" "leaf_key l = k"
  using assms by (auto simp: verify_operation_def ensure_returns_iff split: option.splits)

lemma verify_operation_Miss:
  assumes "verify_operation ls n (Miss i) k = returns ()"
  obtains p q where "btm_get ls i = Some p" "leaf_key p < k"
    "btm_get ls (leaf_next_index p) = Some q" "k < leaf_key q"
  using assms by (auto simp: verify_operation_def ensure_returns_iff split: option.splits)

lemma map_of_nth: "distinct (map fst kvs) \<Longrightarrow> i < length kvs \<Longrightarrow> map_of kvs (fst (kvs ! i)) = Some (snd (kvs ! i))"
  by simp

lemma verified_miss:
  assumes "leaves_of kvs ls" "verify_operation ls n (Miss i) k = returns ()"
  shows "\<exists>p \<in> leaf_key ` snd ` set ls. \<exists>q \<in> leaf_key ` snd ` set ls. p < k \<and> k < q \<and>
    (\<forall>j \<in> fst ` set kvs. j \<le> p \<or> q \<le> j)"
proof -
  from verify_operation_Miss [OF assms(2)] obtain p q where pq: "btm_get ls i = Some p" "leaf_key p < k"
    "btm_get ls (leaf_next_index p) = Some q" "k < leaf_key q" by blast
  note p = leaves_of_get [OF assms(1) pq(1)] and q = leaves_of_get [OF assms(1) pq(3)]
  have "j \<le> leaf_key p \<or> leaf_key q \<le> j" if "j \<in> fst ` set kvs" for j
    using linked_gap [of i "map fst kvs" k j] p q pq(2,4) that by simp
  moreover have "leaf_key p \<in> leaf_key ` snd ` set ls" "leaf_key q \<in> leaf_key ` snd ` set ls"
    using btm_get_Some_in [OF pq(1)] btm_get_Some_in [OF pq(3)] by force+
  ultimately show ?thesis using pq by blast
qed

lemma verified_miss_absent:
  assumes "leaves_of kvs ls" "verify_operation ls n (Miss i) k = returns ()"
  shows "k \<notin> fst ` set kvs"
  using verified_miss [OF assms] by (metis leD)

lemma verify_read_operations_sound:
  assumes "verify_read_operations ls n (zip ops ks) r = returns r'" "length ops = length ks"
    and "leaves_of kvs ls" "distinct (map fst kvs)"
  shows "r' = (\<lambda>k. if k \<in> set ks then Some (map_of kvs k) else r k)"
  using assms
proof (induction ops ks arbitrary: r rule: list_induct2')
  case (4 op ops k ks)
  from "4.prems"(1) have v: "verify_operation ls n op k = returns ()"
    by (simp add: and_then_returns_iff)
  show ?case
  proof (cases op)
    case (Hit i)
    with v obtain l where l: "btm_get ls i = Some l" "leaf_key l = k" by (auto elim: verify_operation_Hit)
    with leaves_of_get [OF "4.prems"(3) l(1)] map_of_nth [OF "4.prems"(4), of i]
    have "map_of kvs k = Some (leaf_value l)" by simp
    moreover have "r' = (\<lambda>j. if j \<in> set ks then Some (map_of kvs j) else (r(k \<mapsto> Some (leaf_value l))) j)"
      using 4 v Hit l(1) by simp
    ultimately show ?thesis by (auto simp: fun_eq_iff)
  next
    case (Miss i)
    with v verified_miss_absent [OF "4.prems"(3)] have "map_of kvs k = None"
      by (simp add: map_of_eq_None_iff)
    moreover have "r' = (\<lambda>j. if j \<in> set ks then Some (map_of kvs j) else (r(k \<mapsto> None)) j)"
      using 4 v Miss by simp
    ultimately show ?thesis by (auto simp: fun_eq_iff)
  qed
qed simp_all

subsection \<open>Checked operations\<close>

text \<open>The keys that a batch inserts, in order.\<close>

definition inserted_keys :: "(tree_operation \<times> tree_entry) list \<Rightarrow> key list" where
  "inserted_keys ops = [te_key e. (Miss _, e) \<leftarrow> ops]"

lemma inserted_keys_simps [simp]:
  "inserted_keys [] = []" "inserted_keys ((Hit i, e) # ops) = inserted_keys ops"
  "inserted_keys ((Miss i, e) # ops) = te_key e # inserted_keys ops"
  by (simp_all add: inserted_keys_def)

lemma set_inserted_keys: "k \<in> set (inserted_keys ops) \<longleftrightarrow> (\<exists>i e. (Miss i, e) \<in> set ops \<and> te_key e = k)"
proof (induction ops)
  case (Cons oe ops)
  obtain op e where "oe = (op, e)" by fastforce
  with Cons show ?case by (cases op) auto
qed simp

lemma verify_operations_returns:
  "verify_operations ls n ops m x = returns (m', x') \<longleftrightarrow>
    (\<forall>(op, e) \<in> set ops. verify_operation ls n op (te_key e) = returns ()) \<and>
    m' = fold (\<lambda>(k, v). btm_insert k v) (zip (inserted_keys ops) [x..<x + length (inserted_keys ops)]) m \<and>
    x' = x + length (inserted_keys ops) \<and> (inserted_keys ops = [] \<or> x + length (inserted_keys ops) < 2 ^ 64)"
proof (induction ops arbitrary: m x)
  case (Cons oe ops)
  obtain op e where oe: "oe = (op, e)" by fastforce
  show ?case
  proof (cases op)
    case (Hit i)
    with Cons oe show ?thesis by (auto simp: and_then_returns_iff)
  next
    case (Miss i)
    have "[x..<x + length (inserted_keys (oe # ops))] = x # [x + 1..<x + 1 + length (inserted_keys ops)]"
      using oe Miss by (simp add: upt_conv_Cons del: upt_Suc)
    with Cons oe Miss show ?thesis by (cases "x + 1 < 2 ^ 64") (auto simp: and_then_returns_iff fits_u64_def)
  qed
qed auto

lemma verify_operation_not_None: "verify_operation ls n op k \<noteq> None"
  by (auto simp: verify_operation_def ensure_def split: tree_operation.splits option.splits)

text \<open>The only panic of the first loop: the operations up to some insert are accepted and the index of
  the next leaf overflows.\<close>

definition inserts_overflow :: "(u64, leaf) btm \<Rightarrow> u64 \<Rightarrow> (tree_operation \<times> tree_entry) list \<Rightarrow> u64 \<Rightarrow> bool" where
  "inserts_overflow ls n ops x \<longleftrightarrow>
     (\<exists>k. (\<forall>(op, e) \<in> set (take k ops). verify_operation ls n op (te_key e) = returns ()) \<and>
        2 ^ 64 \<le> x + length (inserted_keys (take k ops)))"

lemma inserts_overflow_Nil: "inserts_overflow ls n [] x \<longleftrightarrow> 2 ^ 64 \<le> x"
  by (simp add: inserts_overflow_def)

lemma inserts_overflow_Cons:
  assumes "x < 2 ^ 64"
  shows "inserts_overflow ls n ((op, e) # ops) x \<longleftrightarrow>
    verify_operation ls n op (te_key e) = returns () \<and>
    inserts_overflow ls n ops (case op of Miss _ \<Rightarrow> x + 1 | Hit _ \<Rightarrow> x)" (is "?lhs \<longleftrightarrow> ?rhs")
proof
  assume ?lhs
  then obtain k where k: "\<forall>(op, e) \<in> set (take k ((op, e) # ops)). verify_operation ls n op (te_key e) = returns ()"
    "2 ^ 64 \<le> x + length (inserted_keys (take k ((op, e) # ops)))" unfolding inserts_overflow_def by blast
  show ?rhs
  proof (cases k)
    case 0
    with k(2) assms show ?thesis by simp
  next
    case (Suc j)
    with k show ?thesis unfolding inserts_overflow_def by (cases op) (auto intro!: exI [of _ j])
  qed
next
  assume r: ?rhs
  then obtain k where "\<forall>(op, e) \<in> set (take k ops). verify_operation ls n op (te_key e) = returns ()"
    "2 ^ 64 \<le> (case op of Miss _ \<Rightarrow> x + 1 | Hit _ \<Rightarrow> x) + length (inserted_keys (take k ops))"
    unfolding inserts_overflow_def by blast
  with r show ?lhs unfolding inserts_overflow_def by (cases op) (auto intro!: exI [of _ "Suc k"])
qed

lemma verify_operations_None:
  assumes "x < 2 ^ 64"
  shows "verify_operations ls n ops m x = None \<longleftrightarrow> inserts_overflow ls n ops x"
  using assms
proof (induction ops arbitrary: m x)
  case Nil
  then show ?case by (simp add: inserts_overflow_Nil)
next
  case (Cons oe ops)
  obtain op e where oe: "oe = (op, e)" by fastforce
  show ?case
  proof (cases op)
    case (Hit i)
    then show ?thesis unfolding oe inserts_overflow_Cons [OF Cons.prems]
      by (simp add: and_then_None_iff verify_operation_not_None Cons.IH [OF Cons.prems])
  next
    case (Miss i)
    have "inserts_overflow ls n ops (x + 1)" if "\<not> x + 1 < 2 ^ 64"
      unfolding inserts_overflow_def using that by (intro exI [of _ 0]) simp
    then show ?thesis using Cons.IH [of "x + 1"] Miss unfolding oe inserts_overflow_Cons [OF Cons.prems]
      by (auto simp: and_then_None_iff verify_operation_not_None fits_u64_def)
  qed
qed

lemma inserted_keys_length: "length (inserted_keys ops) \<le> length ops"
  by (induction ops) (auto simp: inserted_keys_def split: tree_operation.splits)

lemma verify_read_operations_not_None: "verify_read_operations ls n ops r \<noteq> None"
proof (induction ls n ops r rule: verify_read_operations.induct)
  case (2 ls n op k ops r)
  show ?case
  proof (cases op)
    case (Hit i)
    show ?thesis
      using 2(1) [OF Hit] Hit
      by (auto simp: and_then_None_iff verify_operation_not_None simp del: not_None_eq fun_upd_apply
        split: option.splits elim!: verify_operation_Hit)
  next
    case (Miss i)
    with 2(2) show ?thesis
      by (auto simp: and_then_None_iff verify_operation_not_None simp del: not_None_eq fun_upd_apply)
  qed
qed simp

text \<open>Every inserted key lies strictly between two keys of the index.\<close>

lemma insert_leaf_Some:
  assumes "btm_wf m" "btm_get m (te_key e) = Some t" "p \<in> fst ` set m" "q \<in> fst ` set m" "p < te_key e" "te_key e < q"
  obtains k2 nxt k0 prv where "btm_get m k2 = Some nxt" "te_key e < k2" "\<And>j. j \<in> fst ` set m \<Longrightarrow> te_key e < j \<Longrightarrow> k2 \<le> j"
    "btm_get m k0 = Some prv" "k0 < te_key e" "\<And>j. j \<in> fst ` set m \<Longrightarrow> j < te_key e \<Longrightarrow> j \<le> k0"
    "insert_leaf m e ls = Some (btm_update prv (leaf_next_index_update (\<lambda>_. t))
       (btm_insert t \<lparr> leaf_key = te_key e, leaf_value = te_value e, leaf_next_index = nxt \<rparr> ls))"
proof -
  let ?k = "te_key e"
  have "filter (\<lambda>(k', _). ?k < k') m \<noteq> []" using assms(4,6) by (auto simp: filter_empty_conv)
  then obtain k2 nxt r where f: "filter (\<lambda>(k', _). ?k < k') m = (k2, nxt) # r" by (metis list.exhaust surj_pair)
  have ne: "btm_range_to ?k m \<noteq> []" using assms(3,5) by (auto simp: btm_range_to_Nil)
  obtain k0 prv where l: "last (btm_range_to ?k m) = (k0, prv)" by fastforce
  show thesis
    using btm_greater_first [OF assms(1) f] btm_less_last [OF assms(1) ne l]
    by (intro that [of k2 nxt k0 prv]) (auto simp: insert_leaf_def btm_range_from_present [OF assms(1,2)] f ne l Let_def)
qed

subsection \<open>No panic\<close>

lemma zip_level_not_None: "zip_level H d m ns hs \<noteq> None"
  by (induction H d m ns hs rule: zip_level.induct)
    (auto simp: and_then_None_iff push_node_def simp del: not_None_eq split: list.splits)

lemma zip_levels_not_None: "zip_levels H r d m ns hs \<noteq> None"
  by (induction r arbitrary: d m ns hs) (auto simp: and_then_None_iff zip_level_not_None simp del: not_None_eq)

lemma root_of_nodes_None: "(case ns of [] \<Rightarrow> None | (_, root) # _ \<Rightarrow> returns (root, ss)) = None \<longleftrightarrow> ns = []"
  by (cases ns) auto

lemma zip_leaves_not_None:
  assumes "n \<noteq> 0"
  shows "zip_leaves H D n ls hs \<noteq> None"
proof
  assume "zip_leaves H D n ls hs = None"
  with assms have ne: "ls \<noteq> []" and "\<exists>x. zip_levels H D 0 (n - 1) (map (\<lambda>(i, l). (i, hash_leaf H l)) ls) hs = returns ([], x)"
    by (auto simp: zip_leaves_def ensure_None_iff and_then_None_iff zip_levels_not_None root_of_nodes_None simp del: not_None_eq)
  then have "(parent_indices ^^ D) (map fst (map (\<lambda>(i, l). (i, hash_leaf H l)) ls)) = []"
    using zip_levels_indices by fastforce
  then have "set ((parent_indices ^^ D) (map fst (map (\<lambda>(i, l). (i, hash_leaf H l)) ls))) = {}" by simp
  with ne show False by (simp add: set_parent_indices_pow)
qed

text \<open>What the first loop has checked of an operation suffices for the second.\<close>

definition updatable :: "(key, u64) btm \<Rightarrow> (u64, leaf) btm \<Rightarrow> tree_operation \<Rightarrow> tree_entry \<Rightarrow> bool" where
  "updatable m ls op e =
     (case op of
        Hit i \<Rightarrow> btm_get ls i \<noteq> None
      | Miss _ \<Rightarrow> btm_get m (te_key e) \<noteq> None \<and>
          (\<exists>p v. (p, v) \<in> set m \<and> p < te_key e) \<and> (\<exists>q v. (q, v) \<in> set m \<and> te_key e < q))"

lemma updatable_mono:
  "updatable m ls op e \<Longrightarrow> (\<And>i. btm_get ls i \<noteq> None \<Longrightarrow> btm_get ls' i \<noteq> None) \<Longrightarrow> updatable m ls' op e"
  by (auto simp: updatable_def simp del: not_None_eq split: tree_operation.splits)

lemma update_leaves_not_None:
  assumes "btm_wf m" "btm_wf ls" "\<forall>(op, e) \<in> set ops. updatable m ls op e"
  shows "update_leaves m ops ls \<noteq> None"
  using assms
proof (induction m ops ls rule: update_leaves.induct)
  case (2 m i e ops ls)
  let ?ls = "btm_update i (leaf_value_update (\<lambda>_. te_value e)) ls"
  have "btm_get ?ls j \<noteq> None" if "btm_get ls j \<noteq> None" for j using that by (auto simp: btm_get_update)
  then have "\<forall>(op, e) \<in> set ops. updatable m ?ls op e"
    using 2(4) updatable_mono [of m ls _ _ ?ls] by fastforce
  with 2 show ?case by (auto simp: updatable_def simp del: not_None_eq)
next
  case (3 m i e ops ls)
  from 3(4) obtain t p q where "btm_get m (te_key e) = Some t" "p \<in> fst ` set m" "q \<in> fst ` set m" "p < te_key e" "te_key e < q"
    by (force simp: updatable_def)
  from insert_leaf_Some [OF 3(2) this] obtain prv nxt where ins: "insert_leaf m e ls =
      Some (btm_update prv (leaf_next_index_update (\<lambda>_. t))
       (btm_insert t \<lparr> leaf_key = te_key e, leaf_value = te_value e, leaf_next_index = nxt \<rparr> ls))" (is "_ = Some ?ls")
    by metis
  have "btm_get ?ls j \<noteq> None" if "btm_get ls j \<noteq> None" for j
    using that by (auto simp: btm_get_update btm_get_insert [OF 3(3)])
  then have "\<forall>(op, e) \<in> set ops. updatable m ?ls op e"
    using 3(4) updatable_mono [of m ls _ _ ?ls] by fastforce
  with 3(1) [OF ins 3(2)] 3(3) ins show ?case by (simp add: btm_insert_wf)
qed simp

lemma verified_updatable:
  assumes "verify_operations ls n ops m x = returns (m', x')" "btm_wf m" "fst ` set m = leaf_key ` snd ` set ls"
  shows "\<forall>(op, e) \<in> set ops. updatable m' ls op e"
proof clarify
  fix op e assume oe: "(op, e) \<in> set ops"
  note v = assms(1) [unfolded verify_operations_returns]
  have keys: "fst ` set m' = set (inserted_keys ops) \<union> leaf_key ` snd ` set ls"
    using v btm_fold_insert(2) [OF assms(2)] assms(3) by (simp flip: set_map)
  have ok: "verify_operation ls n op (te_key e) = returns ()" using v oe by auto
  show "updatable m' ls op e"
  proof (cases op)
    case (Hit i)
    with ok show ?thesis by (auto simp: updatable_def elim: verify_operation_Hit)
  next
    case (Miss i)
    with oe have "te_key e \<in> fst ` set m'" by (auto simp: keys set_inserted_keys)
    then have "btm_get m' (te_key e) \<noteq> None" by (simp add: btm_get_None)
    moreover from ok Miss obtain p q where pq: "btm_get ls i = Some p" "leaf_key p < te_key e"
      "btm_get ls (leaf_next_index p) = Some q" "te_key e < leaf_key q" by (auto elim: verify_operation_Miss)
    then have "leaf_key p \<in> fst ` set m'" "leaf_key q \<in> fst ` set m'"
      using btm_get_Some_in [OF pq(1)] btm_get_Some_in [OF pq(3)] by (force simp: keys)+
    ultimately show ?thesis using pq Miss unfolding updatable_def by force
  qed
qed

text \<open>The index of the leaves by key.\<close>

lemma index_by_key_keys: "fst ` set (btm_of_list (map (\<lambda>(i, l). (leaf_key l, i)) ls)) = leaf_key ` snd ` set ls"
  by (force simp: btm_of_list_keys)

lemma verify_for_empty_tree_not_None: "verify_for_empty_tree H D entries read_keys proof \<noteq> None"
  by (auto simp: verify_for_empty_tree_def Let_def ensure_None_iff and_then_None_iff zip_leaves_not_None simp del: not_None_eq)

lemma verify_None_iff:
  assumes wf: "btm_wf (btp_sorted_leaves prf)" and n: "to_leaf_count out < 2 ^ 64"
  shows "verify H D (Some out) entries read_keys prf = None \<longleftrightarrow>
    length (btp_operations prf) = length entries \<and> length (btp_read_operations prf) = length read_keys \<and>
    (btp_sorted_leaves prf \<noteq> [] \<longrightarrow> fst (last (btp_sorted_leaves prf)) < to_leaf_count out) \<and>
    (\<exists>reads. verify_read_operations (btp_sorted_leaves prf) (to_leaf_count out) (zip (btp_read_operations prf) read_keys) Map.empty =
       returns reads) \<and>
    inserts_overflow (btp_sorted_leaves prf) (to_leaf_count out) (zip (btp_operations prf) entries) (to_leaf_count out)"
proof -
  let ?m = "btm_of_list (map (\<lambda>(i, l). (leaf_key l, i)) (btp_sorted_leaves prf))"
  let ?ops = "zip (btp_operations prf) entries"
  have upd: "update_leaves m ?ops (btp_sorted_leaves prf) \<noteq> None" "x \<ge> to_leaf_count out"
    if "verify_operations (btp_sorted_leaves prf) (to_leaf_count out) ?ops ?m (to_leaf_count out) = returns (m, x)" for m x
  proof -
    have "btm_wf m" "x \<ge> to_leaf_count out"
      using that by (auto simp: verify_operations_returns btm_of_list_wf intro: btm_fold_insert(1))
    then show "update_leaves m ?ops (btp_sorted_leaves prf) \<noteq> None" "x \<ge> to_leaf_count out"
      using update_leaves_not_None [OF _ wf verified_updatable [OF that btm_of_list_wf index_by_key_keys]] by blast+
  qed
  have first: "zip_leaves H D (to_leaf_count out) (btp_sorted_leaves prf) (btp_hashes prf) \<noteq> None"
    if "btp_sorted_leaves prf \<noteq> [] \<longrightarrow> fst (last (btp_sorted_leaves prf)) < to_leaf_count out"
  proof (cases "to_leaf_count out = 0")
    case True
    with that show ?thesis by (auto simp: zip_leaves_def)
  qed (rule zip_leaves_not_None)
  have pos: "to_leaf_count out \<noteq> 0"
    if "zip_leaves H D (to_leaf_count out) (btp_sorted_leaves prf) (btp_hashes prf) = returns y" for y
    using that by (cases y) (simp add: zip_leaves_returns)
  have none: "\<not> inserts_overflow (btp_sorted_leaves prf) (to_leaf_count out) ?ops (to_leaf_count out)"
    if "btp_operations prf = []" using that n by (simp add: inserts_overflow_Nil)
  define final where "final reads m x = and_then (zip_leaves H D (to_leaf_count out) (btp_sorted_leaves prf) (btp_hashes prf))
      (\<lambda>(h, _). ensure (h = to_root_hash out) MismatchForPreviousRootHash
         (if btp_operations prf = [] then returns \<lparr>mtv_root_hash = h, mtv_read_entries = reads\<rparr>
          else case update_leaves m ?ops (btp_sorted_leaves prf) of None \<Rightarrow> None
            | Some ls \<Rightarrow> and_then (zip_leaves H D x ls (btp_hashes prf))
                (\<lambda>(h', _). returns \<lparr>mtv_root_hash = h', mtv_read_entries = reads\<rparr>)))" for reads m x
  have final: "final reads m x \<noteq> None"
    if "verify_operations (btp_sorted_leaves prf) (to_leaf_count out) ?ops ?m (to_leaf_count out) = returns (m, x)"
      "btp_sorted_leaves prf \<noteq> [] \<longrightarrow> fst (last (btp_sorted_leaves prf)) < to_leaf_count out" for m x reads
    unfolding final_def using first [OF that(2)] upd [OF that(1)] pos
    by (auto simp: ensure_None_iff and_then_None_iff zip_leaves_not_None simp del: not_None_eq split: option.splits)
  have loop: "and_then (verify_operations (btp_sorted_leaves prf) (to_leaf_count out) ?ops ?m (to_leaf_count out))
      (\<lambda>(m, x). final reads m x) = None \<longleftrightarrow>
    inserts_overflow (btp_sorted_leaves prf) (to_leaf_count out) ?ops (to_leaf_count out)"
    if "btp_sorted_leaves prf \<noteq> [] \<longrightarrow> fst (last (btp_sorted_leaves prf)) < to_leaf_count out" for reads
  proof -
    have "(case mx of (m, x) \<Rightarrow> final reads m x) \<noteq> None"
      if "verify_operations (btp_sorted_leaves prf) (to_leaf_count out) ?ops ?m (to_leaf_count out) = returns mx" for mx
      using that final [OF _ \<open>btp_sorted_leaves prf \<noteq> [] \<longrightarrow> _\<close>] by (cases mx) (simp del: not_None_eq)
    then show ?thesis unfolding and_then_None_iff verify_operations_None [OF n] by blast
  qed
  have "verify H D (Some out) entries read_keys prf = None \<longleftrightarrow>
    length (btp_operations prf) = length entries \<and> length (btp_read_operations prf) = length read_keys \<and>
    (btp_sorted_leaves prf \<noteq> [] \<longrightarrow> fst (last (btp_sorted_leaves prf)) < to_leaf_count out) \<and>
    \<not> (btp_operations prf = [] \<and> btp_read_operations prf = []) \<and>
    (\<exists>reads. verify_read_operations (btp_sorted_leaves prf) (to_leaf_count out) (zip (btp_read_operations prf) read_keys) Map.empty =
       returns reads \<and> and_then (verify_operations (btp_sorted_leaves prf) (to_leaf_count out) ?ops ?m (to_leaf_count out))
      (\<lambda>(m, x). final reads m x) = None)"
  proof (cases "btp_operations prf = [] \<and> btp_read_operations prf = []")
    case False
    then show ?thesis
      unfolding verify_def option.case Let_def ensure_None_iff final_def if_not_P [OF False]
        and_then_None_iff [of "verify_read_operations ls n ops r" for ls n ops r]
      using verify_read_operations_not_None by blast
  qed (simp add: verify_def Let_def ensure_None_iff)
  then show ?thesis using loop none by blast
qed

text \<open>Verification asks the hasher for empty subtrees below the depth of the tree only.\<close>

definition agree_below :: "nat \<Rightarrow> 'h hash_tree \<Rightarrow> 'h hash_tree \<Rightarrow> bool" where
  "agree_below D H H' \<longleftrightarrow> hash_leaf H' = hash_leaf H \<and> hash_branch H' = hash_branch H \<and>
     (\<forall>d < D. empty_subtree_hash H' d = empty_subtree_hash H d)"

lemma zip_level_agree: "agree_below D H H' \<Longrightarrow> d < D \<Longrightarrow> zip_level H' d m ns hs = zip_level H d m ns hs"
  by (induction H d m ns hs rule: zip_level.induct) (auto simp: agree_below_def split: list.splits)

lemma zip_levels_agree: "agree_below D H H' \<Longrightarrow> d + r \<le> D \<Longrightarrow> zip_levels H' r d m ns hs = zip_levels H r d m ns hs"
  by (induction r arbitrary: d m ns hs) (simp_all add: zip_level_agree)

lemma zip_leaves_agree: "agree_below D H H' \<Longrightarrow> zip_leaves H' D n ls hs = zip_leaves H D n ls hs"
  using zip_levels_agree [of D H H' 0 D] by (simp add: zip_leaves_def agree_below_def)

lemma verify_agree: "agree_below D H H' \<Longrightarrow> verify H' D prev entries read_keys prf = verify H D prev entries read_keys prf"
proof -
  assume "agree_below D H H'"
  then have z: "zip_leaves H' D = zip_leaves H D" by (intro ext) (rule zip_leaves_agree)
  show ?thesis unfolding verify_def verify_for_empty_tree_def z ..
qed

subsection \<open>Relinking\<close>

lemma next_index_append_old:
  assumes "distinct (ks @ new)" "(ks @ new) ! next_index (ks @ new) k \<notin> set new"
  shows "next_index (ks @ new) k = next_index ks k"
proof (cases "\<exists>j \<in> set (ks @ new). k < j")
  case True
  then obtain k' where k': "k' \<in> set (ks @ new)" "k < k'" "\<And>j. j \<in> set (ks @ new) \<Longrightarrow> k < j \<Longrightarrow> k' \<le> j"
    "next_index (ks @ new) k = index_of (ks @ new) k'" by (blast elim: next_indexE)
  with assms(2) nth_index_of [OF k'(1)] have "k' \<in> set ks" by auto
  with k' show ?thesis using next_indexI [of k' ks k] by (simp add: index_of_append)
next
  case False
  then have "filter (\<lambda>j. k < j) (ks @ new) = []" by (simp add: filter_empty_conv)
  then show ?thesis by (simp add: next_index_def)
qed

text \<open>
  \<open>K\<close> is the set of keys of the index: some keys of the tree and all new keys.  A new key lies in a
  gap of the old keys whose ends are in \<open>K\<close>, so its neighbours in \<open>K\<close> are its neighbours in the tree.
\<close>

definition gap_in :: "key set \<Rightarrow> key set \<Rightarrow> key \<Rightarrow> bool" where
  "gap_in K old k \<longleftrightarrow> (\<exists>p \<in> K. \<exists>q \<in> K. p < k \<and> k < q \<and> (\<forall>j \<in> old. j \<le> p \<or> q \<le> j))"

lemma new_next:
  assumes "gap_in K old k" "set ks = old \<union> new" "new \<subseteq> K" "K \<subseteq> set ks"
    and "k2 \<in> K" "k < k2" "\<And>j. j \<in> K \<Longrightarrow> k < j \<Longrightarrow> k2 \<le> j"
  shows "next_index ks k = index_of ks k2"
proof (rule next_indexI)
  fix j assume j: "j \<in> set ks" "k < j"
  from assms(1) obtain q where q: "q \<in> K" "k < q" "\<And>j. j \<in> old \<Longrightarrow> k < j \<Longrightarrow> q \<le> j"
    unfolding gap_in_def by force
  show "k2 \<le> j"
  proof (cases "j \<in> old")
    case True
    from assms(7) [OF q(1,2)] q(3) [OF True j(2)] show ?thesis by (rule order_trans)
  next
    case False
    with j assms(2,3) have "j \<in> K" by auto
    then show ?thesis using j(2) by (rule assms(7))
  qed
qed (use assms in auto)

lemma new_prev:
  assumes "gap_in K old k" "set ks = old \<union> new" "new \<subseteq> K" "k \<in> new"
    and "k0 \<in> K" "k0 < k" "\<And>j. j \<in> K \<Longrightarrow> j < k \<Longrightarrow> j \<le> k0"
  shows "next_index ks k0 = index_of ks k" and "\<And>j. j \<in> set ks \<Longrightarrow> j < k \<Longrightarrow> j \<le> k0"
proof -
  from assms(1) obtain p where p: "p \<in> K" "p < k" "\<And>j. j \<in> old \<Longrightarrow> j < k \<Longrightarrow> j \<le> p"
    unfolding gap_in_def by force
  show below: "j \<le> k0" if j: "j \<in> set ks" "j < k" for j
  proof (cases "j \<in> old")
    case True
    from p(3) [OF True j(2)] assms(7) [OF p(1,2)] show ?thesis by (rule order_trans)
  next
    case False
    with j assms(2,3) have "j \<in> K" by auto
    then show ?thesis using j(2) by (rule assms(7))
  qed
  show "next_index ks k0 = index_of ks k"
  proof (rule next_indexI)
    fix j assume "j \<in> set ks" "k0 < j"
    with below [of j] show "k \<le> j" by (meson leD leI)
  qed (use assms in auto)
qed

lemma other_next:
  assumes "k \<in> set ks" "\<And>j. j \<in> set ks \<Longrightarrow> j < k \<Longrightarrow> j \<le> k0" "k0 < k" "k0 \<in> set ks"
    and "a \<in> set ks" "a \<noteq> k0" "ks ! 1 \<noteq> k"
  shows "ks ! next_index ks a \<noteq> k"
proof
  assume eq: "ks ! next_index ks a = k"
  show False
  proof (cases "\<exists>j \<in> set ks. a < j")
    case True
    then obtain k' where k': "k' \<in> set ks" "a < k'" "\<And>j. j \<in> set ks \<Longrightarrow> a < j \<Longrightarrow> k' \<le> j"
      "next_index ks a = index_of ks k'" by (blast elim: next_indexE)
    with eq nth_index_of [OF k'(1)] have "k' = k" by simp
    with k' assms(2) [OF assms(5)] assms(6) have "a < k0" by (simp add: order_less_le)
    with k'(3) [OF assms(4)] \<open>k' = k\<close> assms(3) show False by (simp add: leD)
  next
    case False
    then have "filter (\<lambda>j. a < j) ks = []" by (auto simp: filter_empty_conv)
    with eq assms(7) show False by (simp add: next_index_def)
  qed
qed

text \<open>
  The leaves while a batch is applied: \<open>kvs\<close> are the pairs so far, with keys \<open>ks @ done\<close>, and
  \<open>ks'\<close> are the keys after the batch.  A leaf that was there before has its old next index until the
  key that comes to follow it is inserted.
\<close>

definition expected_leaf :: "key list \<Rightarrow> key list \<Rightarrow> key list \<Rightarrow> (key \<times> key) list \<Rightarrow> nat \<Rightarrow> leaf" where
  "expected_leaf ks ks' ins kvs i =
     (let k = fst (kvs ! i) in
      \<lparr> leaf_key = k, leaf_value = snd (kvs ! i),
        leaf_next_index = (if i < length ks \<and> ks' ! next_index ks' k \<notin> set ins then next_index ks k else next_index ks' k) \<rparr>)"

definition relinked :: "nat set \<Rightarrow> key list \<Rightarrow> key list \<Rightarrow> key list \<Rightarrow> (key \<times> key) list \<Rightarrow> (u64, leaf) btm \<Rightarrow> bool" where
  "relinked S ks ks' ins kvs ls \<longleftrightarrow> btm_wf ls \<and> map fst kvs = ks @ ins \<and>
     (\<forall>i. btm_get ls i = (if i \<in> S \<or> length ks \<le> i \<and> i < length kvs then Some (expected_leaf ks ks' ins kvs i) else None))"

lemma nth_put_present:
  "te_key e \<in> fst ` set kvs \<Longrightarrow> i < length kvs \<Longrightarrow>
    put_entry kvs e ! i = (fst (kvs ! i), if fst (kvs ! i) = te_key e then te_value e else snd (kvs ! i))"
  by (simp add: put_entry_def case_prod_unfold)

lemma fst_put_present: "te_key e \<in> fst ` set kvs \<Longrightarrow> map fst (put_entry kvs e) = map fst kvs"
  by (simp add: put_entry_def case_prod_unfold comp_def)

lemma put_absent: "te_key e \<notin> fst ` set kvs \<Longrightarrow> put_entry kvs e = kvs @ [(te_key e, te_value e)]"
  by (simp add: put_entry_def)

lemma relinked_update:
  assumes "relinked S ks ks' ins kvs ls" "distinct (ks @ ins)" "S \<subseteq> {..<length ks}" "i \<in> S" "fst (kvs ! i) = te_key e"
  shows "relinked S ks ks' ins (put_entry kvs e) (btm_update i (leaf_value_update (\<lambda>_. te_value e)) ls)"
proof -
  have fst: "map fst kvs = ks @ ins" and wf: "btm_wf ls" using assms(1) by (simp_all add: relinked_def)
  then have len: "length kvs = length ks + length ins" by (metis length_append length_map)
  have "i < length kvs" using assms(3,4) len by auto
  then have in_kvs: "te_key e \<in> fst ` set kvs" using assms(5) by (metis image_eqI nth_mem)
  have uniq: "fst (kvs ! j) = te_key e \<longleftrightarrow> j = i" if "j < length kvs" for j
    using assms(2,5) that \<open>i < length kvs\<close> fst by (metis length_map nth_eq_iff_index_eq nth_map)
  have same: "length (put_entry kvs e) = length kvs" using fst_put_present [OF in_kvs] by (metis length_map)
  have lt: "j < length kvs" if "j \<in> S" for j using that assms(3) len by auto
  have exp: "expected_leaf ks ks' ins (put_entry kvs e) j =
      (if j = i then leaf_value_update (\<lambda>_. te_value e) (expected_leaf ks ks' ins kvs j) else expected_leaf ks ks' ins kvs j)"
    if "j < length kvs" for j
    using uniq [OF that] that by (simp add: expected_leaf_def nth_put_present [OF in_kvs that] Let_def)
  show ?thesis
    using assms(1,4) fst wf lt exp by (auto simp: relinked_def same fst_put_present [OF in_kvs] btm_get_update)
qed

text \<open>What the second loop relies on of the index, for the new keys.\<close>

definition key_index :: "key list \<Rightarrow> key list \<Rightarrow> (key, u64) btm \<Rightarrow> bool" where
  "key_index ks new m \<longleftrightarrow> btm_wf m \<and> set new \<subseteq> fst ` set m \<and> fst ` set m \<subseteq> set (ks @ new) \<and>
     (\<forall>k \<in> fst ` set m. btm_get m k = Some (index_of (ks @ new) k)) \<and>
     (\<forall>k \<in> set new. gap_in (fst ` set m) (set ks) k)"

lemma insert_leaf_neighbours:
  assumes idx: "key_index ks new m" and dist: "distinct (ks @ new)" and k: "te_key e \<in> set new"
    and two: "2 \<le> length ks"
  shows "\<exists>prv.
    insert_leaf m e ls = Some (btm_update prv (leaf_next_index_update (\<lambda>_. index_of (ks @ new) (te_key e)))
       (btm_insert (index_of (ks @ new) (te_key e))
         \<lparr> leaf_key = te_key e, leaf_value = te_value e, leaf_next_index = next_index (ks @ new) (te_key e) \<rparr> ls)) \<and>
    prv < length (ks @ new) \<and> prv \<noteq> index_of (ks @ new) (te_key e) \<and>
    next_index (ks @ new) ((ks @ new) ! prv) = index_of (ks @ new) (te_key e) \<and>
    (\<forall>i < length (ks @ new). i \<noteq> prv \<longrightarrow> (ks @ new) ! next_index (ks @ new) ((ks @ new) ! i) \<noteq> te_key e)"
proof -
  let ?k = "te_key e" and ?K = "fst ` set m" and ?ks = "ks @ new"
  from idx k have m: "btm_wf m" "set new \<subseteq> ?K" "?K \<subseteq> set ?ks" "gap_in ?K (set ks) ?k" by (auto simp: key_index_def)
  have get: "btm_get m j = Some (index_of ?ks j)" if "j \<in> ?K" for j
    using idx that by (auto simp: key_index_def)
  have k_in: "?k \<in> ?K" using m(2) k by auto
  from m(4) obtain p q where "p \<in> ?K" "q \<in> ?K" "p < ?k" "?k < q" by (auto simp: gap_in_def)
  then show ?thesis
  proof (rule insert_leaf_Some [OF m(1) get [OF k_in], of p q ls])
    fix k2 nxt k0 prv
    assume k2: "btm_get m k2 = Some nxt" "?k < k2" "\<And>j. j \<in> ?K \<Longrightarrow> ?k < j \<Longrightarrow> k2 \<le> j"
      and k0: "btm_get m k0 = Some prv" "k0 < ?k" "\<And>j. j \<in> ?K \<Longrightarrow> j < ?k \<Longrightarrow> j \<le> k0"
      and ins: "insert_leaf m e ls = Some (btm_update prv (leaf_next_index_update (\<lambda>_. index_of ?ks ?k))
        (btm_insert (index_of ?ks ?k) \<lparr> leaf_key = ?k, leaf_value = te_value e, leaf_next_index = nxt \<rparr> ls))"
    have in_K: "k2 \<in> ?K" "k0 \<in> ?K"
      using btm_get_Some_in [OF k2(1)] btm_get_Some_in [OF k0(1)] by force+
    then have nxt: "nxt = index_of ?ks k2" and prv: "prv = index_of ?ks k0"
      using get [of k2] get [of k0] k2(1) k0(1) by simp_all
    have in_ks: "?k \<in> set ?ks" "k0 \<in> set ?ks" using m(3) k_in in_K(2) by blast+
    have next_k: "next_index ?ks ?k = nxt"
      using new_next [OF m(4) set_append m(2,3) in_K(1) k2(2,3)] nxt by simp
    note pv = new_prev [OF m(4) set_append m(2) k in_K(2) k0(2,3)]
    have prv_nth: "?ks ! prv = k0" "prv < length ?ks" using nth_index_of [OF in_ks(2)] prv by simp_all
    have neq: "prv \<noteq> index_of ?ks ?k" using prv_nth(1) nth_index_of [OF in_ks(1)] k0(2) by auto
    have "?ks ! 1 \<in> set ks" using two by (simp add: nth_append)
    then have one: "?ks ! 1 \<noteq> ?k" using dist k by auto
    have other: "?ks ! next_index ?ks (?ks ! i) \<noteq> ?k" if i: "i < length ?ks" "i \<noteq> prv" for i
    proof (rule other_next [OF in_ks(1) pv(2) k0(2) in_ks(2) _ _ one])
      show "?ks ! i \<in> set ?ks" using i(1) by (rule nth_mem)
      show "?ks ! i \<noteq> k0" using index_of_nth [OF dist i(1)] i(2) prv by auto
    qed
    show ?thesis
      unfolding next_k using ins prv_nth(2) neq other pv(1) [folded prv_nth(1)] by blast
  qed
qed

lemma relinked_insert:
  assumes rel: "relinked S ks (ks @ new) ins kvs ls" and new: "new = ins @ te_key e # todo" and dist: "distinct (ks @ new)"
    and S: "S \<subseteq> {..<length ks}" and two: "2 \<le> length ks" and idx: "key_index ks new m"
  obtains ls' where "insert_leaf m e ls = Some ls'" "relinked S ks (ks @ new) (ins @ [te_key e]) (put_entry kvs e) ls'"
proof -
  let ?k = "te_key e" and ?ks = "ks @ new" and ?t = "length kvs"
  have fst_kvs: "map fst kvs = ks @ ins" and wf: "btm_wf ls" using rel by (simp_all add: relinked_def)
  have len: "?t = length ks + length ins" by (metis fst_kvs length_append length_map)
  have "?ks ! i = (map fst kvs @ ?k # todo) ! i" for i by (simp add: fst_kvs new)
  then have nth: "i < ?t \<Longrightarrow> fst (kvs ! i) = ?ks ! i" for i by (simp add: nth_append)
  have t: "?ks ! ?t = ?k" "?t < length ?ks" by (simp_all add: new len nth_append)
  then have t_idx: "index_of ?ks ?k = ?t" by (metis dist index_of_nth)
  have "?k \<in> set new" by (simp add: new)
  from insert_leaf_neighbours [OF idx dist this two, of ls, unfolded t_idx] obtain prv where
    ins: "insert_leaf m e ls = Some (btm_update prv (leaf_next_index_update (\<lambda>_. ?t))
       (btm_insert ?t \<lparr> leaf_key = ?k, leaf_value = te_value e, leaf_next_index = next_index ?ks ?k \<rparr> ls))" (is "_ = Some ?ls")
    and prv: "prv \<noteq> ?t" "next_index ?ks (?ks ! prv) = ?t"
    and other: "\<And>i. i < length ?ks \<Longrightarrow> i \<noteq> prv \<Longrightarrow> ?ks ! next_index ?ks (?ks ! i) \<noteq> ?k"
    by blast
  have "?k \<notin> set (map fst kvs)" unfolding fst_kvs using dist by (simp add: new)
  then have absent: "?k \<notin> fst ` set kvs" by simp
  have exp: "expected_leaf ks ?ks (ins @ [?k]) (put_entry kvs e) i =
     (if i = ?t then \<lparr> leaf_key = ?k, leaf_value = te_value e, leaf_next_index = next_index ?ks ?k \<rparr>
      else if i = prv then leaf_next_index_update (\<lambda>_. ?t) (expected_leaf ks ?ks ins kvs i)
      else expected_leaf ks ?ks ins kvs i)" if "i \<le> ?t" for i
  proof (cases "i = ?t")
    case True
    with len show ?thesis by (simp add: expected_leaf_def put_absent [OF absent] nth_append Let_def)
  next
    case False
    with that have i: "i < ?t" by simp
    then have same: "put_entry kvs e ! i = kvs ! i" by (simp add: put_absent [OF absent] nth_append_left)
    show ?thesis
    proof (cases "i = prv")
      case True
      then have "next_index ?ks (fst (kvs ! i)) = ?t" using prv(2) nth [OF i] by simp
      with True False t(1) same show ?thesis by (simp add: expected_leaf_def Let_def)
    next
      case other_i: False
      then have "?ks ! next_index ?ks (fst (kvs ! i)) \<noteq> ?k" using other [of i] i t(2) nth [OF i] by simp
      with other_i False show ?thesis by (simp add: expected_leaf_def same Let_def)
    qed
  qed
  have old: "btm_get ls i = (if i \<in> S \<or> length ks \<le> i \<and> i < ?t then Some (expected_leaf ks ?ks ins kvs i) else None)" for i
    using rel by (simp add: relinked_def)
  have lt: "i < ?t" if "i \<in> S" for i using that S len by auto
  have "btm_get ?ls i = (if i \<in> S \<or> length ks \<le> i \<and> i < ?t + 1 then Some (expected_leaf ks ?ks (ins @ [?k]) (put_entry kvs e) i) else None)" for i
  proof (cases "i < ?t")
    case True
    then show ?thesis by (simp add: old exp btm_get_update btm_get_insert [OF wf])
  next
    case False
    with lt have "i \<notin> S" by blast
    with False prv(1) len show ?thesis by (auto simp: old exp btm_get_update btm_get_insert [OF wf])
  qed
  then have "relinked S ks ?ks (ins @ [?k]) (put_entry kvs e) ?ls"
    using fst_kvs by (simp add: relinked_def put_absent [OF absent] btm_insert_wf [OF wf])
  with ins show thesis by (rule that)
qed

lemma update_leaves_relinked:
  assumes "relinked S ks (ks @ new) ins kvs ls" "new = ins @ inserted_keys ops"
    and "\<forall>(op, e) \<in> set ops. case op of Hit i \<Rightarrow> i \<in> S \<and> ks ! i = te_key e | Miss _ \<Rightarrow> True"
    and "distinct (ks @ new)" "S \<subseteq> {..<length ks}" "2 \<le> length ks" "key_index ks new m"
  shows "\<exists>ls'. update_leaves m ops ls = Some ls' \<and> relinked S ks (ks @ new) new (extend_tree kvs (map snd ops)) ls'"
  using assms(1-3,7)
proof (induction m ops ls arbitrary: ins kvs rule: update_leaves.induct)
  case (1 m ls)
  then show ?case by (simp add: extend_tree_def)
next
  case (2 m i e ops ls)
  have i: "i \<in> S" "ks ! i = te_key e" "i < length ks" using "2.prems"(3) assms(5) by auto
  have fst: "map fst kvs = ks @ ins" and get: "btm_get ls i \<noteq> None" using "2.prems"(1) i by (simp_all add: relinked_def)
  have "i < length kvs" using arg_cong [OF fst, of length] i(3) by simp
  then have "fst (kvs ! i) = te_key e"
    using i arg_cong [OF fst, of "\<lambda>xs. xs ! i"] by (simp add: nth_append)
  moreover have "distinct (ks @ ins)" using assms(4) "2.prems"(2) by auto
  ultimately have "relinked S ks (ks @ new) ins (put_entry kvs e) (btm_update i (leaf_value_update (\<lambda>_. te_value e)) ls)"
    by (intro relinked_update [OF "2.prems"(1) _ assms(5) i(1)])
  from "2.IH" [OF get this] "2.prems"(2-4) get show ?case by (simp add: extend_tree_def)
next
  case (3 m i e ops ls)
  have new: "new = ins @ te_key e # inserted_keys ops" using "3.prems"(2) by simp
  from relinked_insert [OF "3.prems"(1) new assms(4-6) "3.prems"(4)] obtain ls' where
    ls': "insert_leaf m e ls = Some ls'" "relinked S ks (ks @ new) (ins @ [te_key e]) (put_entry kvs e) ls'" by blast
  from "3.IH" [OF ls'(1,2)] "3.prems" ls'(1) show ?case by (simp add: extend_tree_def)
qed

lemma relinked_start:
  assumes "leaves_of kvs ls" "btm_wf ls"
  shows "relinked (fst ` set ls) (map fst kvs) ks' [] kvs ls"
proof -
  have "btm_get ls i = (if i \<in> fst ` set ls then Some (linked_leaves kvs ! i) else None)" for i
  proof (cases "i \<in> fst ` set ls")
    case True
    then obtain l where "(i, l) \<in> set ls" by auto
    with assms show ?thesis using btm_get_iff [OF assms(2)] by (force simp: leaves_of_def)
  qed (simp add: btm_get_None)
  moreover have "i < length kvs" if "i \<in> fst ` set ls" for i using assms(1) that by (auto simp: leaves_of_def)
  ultimately show ?thesis
    using assms(2) by (simp add: relinked_def expected_leaf_def nth_linked_leaves Let_def)
qed

lemma relinked_final:
  assumes "relinked S ks (ks @ new) new kvs ls" "distinct (ks @ new)" "S \<subseteq> {..<length ks}"
  shows "leaves_of kvs ls \<and> map fst ls = sorted_list_of_set (S \<union> {length ks..<length kvs})"
proof -
  have fst: "map fst kvs = ks @ new" and wf: "btm_wf ls"
    and get: "\<And>i. btm_get ls i = (if i \<in> S \<or> length ks \<le> i \<and> i < length kvs then Some (expected_leaf ks (ks @ new) new kvs i) else None)"
    using assms(1) by (simp_all add: relinked_def)
  have len: "length kvs = length ks + length new" using arg_cong [OF fst, of length] by simp
  have exp: "expected_leaf ks (ks @ new) new kvs i = linked_leaves kvs ! i" if "i < length kvs" for i
    using that next_index_append_old [OF assms(2), of "fst (kvs ! i)"]
    by (simp add: expected_leaf_def nth_linked_leaves fst Let_def)
  have lt: "i < length kvs" if "i \<in> S" for i using that assms(3) len by auto
  have "leaves_of kvs ls"
    unfolding leaves_of_def
  proof clarify
    fix i l assume "(i, l) \<in> set ls"
    then have "btm_get ls i = Some l" using btm_get_iff [OF wf] by simp
    then show "i < length kvs \<and> l = linked_leaves kvs ! i" using get [of i] lt exp by (auto split: if_splits)
  qed
  moreover have "set (map fst ls) = S \<union> {length ks..<length kvs}"
  proof (rule set_eqI)
    fix i show "i \<in> set (map fst ls) \<longleftrightarrow> i \<in> S \<union> {length ks..<length kvs}"
      using btm_get_None [of ls i] get [of i] by (auto split: if_splits)
  qed
  then have "map fst ls = sorted_list_of_set (S \<union> {length ks..<length kvs})"
    using wf by (metis btm_wf_def sorted_list_of_set.idem_if_sorted_distinct strict_sorted_iff)
  ultimately show ?thesis by blast
qed

subsection \<open>Soundness\<close>

text \<open>The index that the first loop builds, for leaves of the tree.\<close>

lemma verified_key_index:
  assumes wf: "btm_wf ls" and kvs: "leaves_of kvs ls" and dist: "distinct (map fst kvs @ inserted_keys ops)"
    and v: "verify_operations ls n ops (btm_of_list (map (\<lambda>(i, l). (leaf_key l, i)) ls)) (length kvs) = returns (m, x)"
  shows "key_index (map fst kvs) (inserted_keys ops) m"
proof -
  let ?m0 = "btm_of_list (map (\<lambda>(i, l). (leaf_key l, i)) ls)" and ?new = "inserted_keys ops" and ?n = "length kvs"
  note v' = v [unfolded verify_operations_returns]
  then have m: "m = fold (\<lambda>(k, v). btm_insert k v) (zip ?new [?n..<?n + length ?new]) ?m0" by simp
  have "set (map fst (zip ?new [?n..<?n + length ?new])) = set ?new" by simp
  then have keys: "fst ` set m = set ?new \<union> leaf_key ` snd ` set ls"
    unfolding m btm_fold_insert(2) [OF btm_of_list_wf] index_by_key_keys by (simp only: set_map)
  have wf_m: "btm_wf m" unfolding m by (rule btm_fold_insert(1) [OF btm_of_list_wf])
  have get: "btm_get m k = (case map_of (rev (zip ?new [?n..<?n + length ?new])) k of None \<Rightarrow> btm_get ?m0 k | Some i \<Rightarrow> Some i)" for k
    unfolding m by (rule btm_fold_insert(3) [OF btm_of_list_wf])
  have leaf: "i < ?n" "leaf_key l = map fst kvs ! i" if "(i, l) \<in> set ls" for i l
    using kvs that by (auto simp: leaves_of_def nth_linked_leaves)
  have "map fst (map (\<lambda>(i, l). (leaf_key l, i)) ls) = map (\<lambda>i. map fst kvs ! i) (map fst ls)"
    using leaf by (auto simp del: nth_map)
  moreover have "inj_on (\<lambda>i. map fst kvs ! i) (set (map fst ls))"
    using dist leaf by (intro inj_on_nth) auto
  ultimately have inj: "distinct (map fst (map (\<lambda>(i, l). (leaf_key l, i)) ls))"
    using btm_wf_distinct [OF wf] by (simp only: distinct_map)
  have idx: "btm_get m k = Some (index_of (map fst kvs @ ?new) k)" if k: "k \<in> fst ` set m" for k
  proof (cases "k \<in> set ?new")
    case True
    then obtain j where j: "j < length ?new" "k = ?new ! j" by (auto simp: in_set_conv_nth)
    have "(k, ?n + j) \<in> set (zip ?new [?n..<?n + length ?new])" using j by (force simp: set_zip)
    then have "map_of (rev (zip ?new [?n..<?n + length ?new])) k = Some (?n + j)"
      using dist by (intro map_of_is_SomeI) (simp_all flip: rev_map)
    moreover have "index_of (map fst kvs @ ?new) k = ?n + j"
      using index_of_nth [OF dist, of "?n + j"] j by (simp add: nth_append)
    ultimately show ?thesis by (simp add: get)
  next
    case False
    with k obtain i l where il: "(i, l) \<in> set ls" "k = leaf_key l" by (auto simp: keys)
    have "btm_get ?m0 k = Some i"
      unfolding btm_of_list_get [OF inj] using il by (intro map_of_is_SomeI [OF inj]) force
    moreover have "map_of (rev (zip ?new [?n..<?n + length ?new])) k = None"
      using False by (auto simp: map_of_eq_None_iff dest: set_zip_leftD)
    moreover have "index_of (map fst kvs @ ?new) k = i"
      using index_of_nth [OF dist, of i] leaf [OF il(1)] il(2) by (simp add: nth_append)
    ultimately show ?thesis by (simp add: get)
  qed
  have "gap_in (fst ` set m) (set (map fst kvs)) k" if "k \<in> set ?new" for k
  proof -
    from that obtain i e where "(Miss i, e) \<in> set ops" "te_key e = k" by (auto simp: set_inserted_keys)
    with v' have "verify_operation ls n (Miss i) k = returns ()" by auto
    from verified_miss [OF kvs this] show ?thesis unfolding gap_in_def keys set_map by blast
  qed
  moreover have "leaf_key l \<in> set (map fst kvs)" if "(i, l) \<in> set ls" for i l
    using leaf [OF that] by (metis length_map nth_mem)
  ultimately show ?thesis using wf_m idx keys by (auto simp: key_index_def)
qed

lemma verify_returns:
  assumes "verify H D (Some out) entries read_keys prf = returns view"
    and "btp_operations prf \<noteq> [] \<or> btp_read_operations prf \<noteq> []"
  obtains reads m x ss where
    "length (btp_operations prf) = length entries" "length (btp_read_operations prf) = length read_keys"
    "btp_sorted_leaves prf \<noteq> []" "fst (last (btp_sorted_leaves prf)) < to_leaf_count out"
    "verify_read_operations (btp_sorted_leaves prf) (to_leaf_count out) (zip (btp_read_operations prf) read_keys) Map.empty = returns reads"
    "verify_operations (btp_sorted_leaves prf) (to_leaf_count out) (zip (btp_operations prf) entries)
       (btm_of_list (map (\<lambda>(i, l). (leaf_key l, i)) (btp_sorted_leaves prf))) (to_leaf_count out) = returns (m, x)"
    "zip_leaves H D (to_leaf_count out) (btp_sorted_leaves prf) (btp_hashes prf) = returns (to_root_hash out, ss)"
    "mtv_read_entries view = reads"
    "btp_operations prf = [] \<Longrightarrow> mtv_root_hash view = to_root_hash out"
    "btp_operations prf \<noteq> [] \<Longrightarrow> \<exists>ls ss'. update_leaves m (zip (btp_operations prf) entries) (btp_sorted_leaves prf) = Some ls \<and>
       zip_leaves H D x ls (btp_hashes prf) = returns (mtv_root_hash view, ss')"
proof -
  have nd: "\<not> (btp_operations prf = [] \<and> btp_read_operations prf = [])" using assms(2) by blast
  note v = assms(1) [unfolded verify_def option.case Let_def if_not_P [OF nd] fallible_iffs]
  then obtain reads mx where
    r: "verify_read_operations (btp_sorted_leaves prf) (to_leaf_count out) (zip (btp_read_operations prf) read_keys) Map.empty = returns reads"
    and o: "verify_operations (btp_sorted_leaves prf) (to_leaf_count out) (zip (btp_operations prf) entries)
       (btm_of_list (map (\<lambda>(i, l). (leaf_key l, i)) (btp_sorted_leaves prf))) (to_leaf_count out) = returns mx"
    and rest: "(case mx of (m, x) \<Rightarrow> and_then (zip_leaves H D (to_leaf_count out) (btp_sorted_leaves prf) (btp_hashes prf))
        (\<lambda>(h, _). ensure (h = to_root_hash out) MismatchForPreviousRootHash
           (if btp_operations prf = [] then returns \<lparr>mtv_root_hash = h, mtv_read_entries = reads\<rparr>
            else case update_leaves m (zip (btp_operations prf) entries) (btp_sorted_leaves prf) of None \<Rightarrow> None
              | Some ls \<Rightarrow> and_then (zip_leaves H D x ls (btp_hashes prf))
                  (\<lambda>(h', _). returns \<lparr>mtv_root_hash = h', mtv_read_entries = reads\<rparr>)))) = returns view"
    by blast
  obtain m x where mx: "mx = (m, x)" by fastforce
  from rest obtain ss where z: "zip_leaves H D (to_leaf_count out) (btp_sorted_leaves prf) (btp_hashes prf) = returns (to_root_hash out, ss)"
    and final: "(if btp_operations prf = [] then returns \<lparr>mtv_root_hash = to_root_hash out, mtv_read_entries = reads\<rparr>
            else case update_leaves m (zip (btp_operations prf) entries) (btp_sorted_leaves prf) of None \<Rightarrow> None
              | Some ls \<Rightarrow> and_then (zip_leaves H D x ls (btp_hashes prf))
                  (\<lambda>(h', _). returns \<lparr>mtv_root_hash = h', mtv_read_entries = reads\<rparr>)) = returns view"
    by (auto simp: mx fallible_iffs)
  show thesis
  proof (rule that)
    show "btp_sorted_leaves prf \<noteq> []" using z by (simp add: zip_leaves_returns)
    then show "fst (last (btp_sorted_leaves prf)) < to_leaf_count out" using v by blast
  qed (use v r o [unfolded mx] z final in \<open>auto simp: and_then_returns_iff split: if_splits option.splits\<close>)
qed

lemma btm_le_last:
  assumes "btm_wf m" "k \<in> fst ` set m"
  shows "k \<le> fst (last m)"
proof -
  have "m = butlast m @ [last m]" using assms(2) by (metis append_butlast_last_id empty_iff image_empty list.set(1))
  then have "btm_wf (butlast m @ [last m])" "k \<in> fst ` set (butlast m @ [last m])" using assms by metis+
  then show ?thesis by (auto simp: btm_wf_append)
qed

lemma proof_leaves:
  assumes "zip_leaves H D (length kvs) ls hs = returns (tree_root H D (linked_leaves kvs), ss)"
    and "collision_free H" "length kvs \<le> 2 ^ D" "btm_wf ls" "fst (last ls) < length kvs"
  shows "leaves_of kvs ls" "hs = collect_hashes_from (tree_node H (linked_leaves kvs)) D 0 (length kvs - 1) (map fst ls)"
proof -
  have b: "\<forall>i \<in> fst ` set ls. i < length (linked_leaves kvs)"
    using btm_le_last [OF assms(4)] assms(5) by (metis length_linked_leaves le_less_trans)
  from zip_leaves_sound [of H D "linked_leaves kvs" ls hs ss] assms b
  show "leaves_of kvs ls" "hs = collect_hashes_from (tree_node H (linked_leaves kvs)) D 0 (length kvs - 1) (map fst ls)"
    by (force simp: leaves_of_def btm_wf_def)+
qed

lemma length_inserted_keys: "length (inserted_keys ops) \<le> length ops"
proof (induction ops)
  case (Cons oe ops)
  obtain op e where "oe = (op, e)" by fastforce
  with Cons show ?case by (cases op) auto
qed simp

lemma distinct_inserted_keys:
  assumes "distinct (map (te_key \<circ> snd) ops)"
  shows "distinct (inserted_keys ops)"
  using assms
proof (induction ops)
  case (Cons oe ops)
  obtain op e where oe: "oe = (op, e)" by fastforce
  with Cons show ?case by (cases op) (force simp: set_inserted_keys)+
qed simp

lemma extend_tree_untouched:
  assumes "j < length kvs" "fst (kvs ! j) \<notin> te_key ` set es"
  shows "j < length (extend_tree kvs es) \<and> extend_tree kvs es ! j = kvs ! j"
  using assms
proof (induction es arbitrary: kvs)
  case (Cons e es)
  have "j < length (put_entry kvs e)" "put_entry kvs e ! j = kvs ! j"
    using Cons.prems by (auto simp: put_entry_def case_prod_unfold nth_append)
  with Cons show ?case by (simp add: extend_tree_def)
qed (simp add: extend_tree_def)

text \<open>A leaf that is not in the proof keeps its next leaf: new keys only go between leaves of the proof.\<close>

lemma next_index_untouched:
  assumes d: "distinct (map fst kvs @ inserted_keys ops)" and lv: "leaves_of kvs ls"
    and v: "\<forall>(op, e) \<in> set ops. verify_operation ls n op (te_key e) = returns ()"
    and j: "j < length kvs" "j \<notin> fst ` set ls" and two: "2 \<le> length kvs"
  shows "next_index (map fst kvs @ inserted_keys ops) (fst (kvs ! j)) = next_index (map fst kvs) (fst (kvs ! j))"
proof (rule next_index_append_old [OF d], rule notI)
  let ?ks = "map fst kvs @ inserted_keys ops" and ?k = "fst (kvs ! j)"
  assume new: "?ks ! next_index ?ks ?k \<in> set (inserted_keys ops)" (is "?k' \<in> _")
  then obtain i e where "(Miss i, e) \<in> set ops" "te_key e = ?k'" by (auto simp: set_inserted_keys)
  with v have "verify_operation ls n (Miss i) ?k' = returns ()" by auto
  from verified_miss [OF lv this] obtain p q where pq: "p \<in> leaf_key ` snd ` set ls" "p < ?k'" "?k' < q"
    "\<forall>a \<in> fst ` set kvs. a \<le> p \<or> q \<le> a" by blast
  have p: "a \<le> p" if "a \<in> fst ` set kvs" "a < ?k'" for a using pq(3,4) that by fastforce
  from pq(1) obtain i' l where il: "(i', l) \<in> set ls" "p = leaf_key l" by auto
  then have i': "i' < length kvs" "p = fst (kvs ! i')" using lv by (auto simp: leaves_of_def nth_linked_leaves)
  have k_in: "?k \<in> fst ` set kvs" using j(1) by simp
  have greater: "\<exists>a \<in> set ?ks. ?k < a"
  proof (rule ccontr)
    assume "\<not> ?thesis"
    then have "filter (\<lambda>a. ?k < a) ?ks = []" by (simp add: filter_empty_conv)
    then have "next_index ?ks ?k = 1" by (simp add: next_index_def)
    moreover have "?ks ! 1 \<in> set (map fst kvs)" using two by (simp add: nth_append)
    ultimately show False using new d by auto
  qed
  then obtain k' where k': "k' \<in> set ?ks" "?k < k'" "\<And>a. a \<in> set ?ks \<Longrightarrow> ?k < a \<Longrightarrow> k' \<le> a" "next_index ?ks ?k = index_of ?ks k'"
    by (blast elim: next_indexE)
  then have "?k' = k'" using nth_index_of [OF k'(1)] by simp
  with p [OF k_in] k'(2) have "?k \<le> p" by simp
  moreover have "p \<in> set ?ks" using i' by simp
  then have "\<not> ?k < p" using k'(3) [of p] pq(2) \<open>?k' = k'\<close> by (auto simp: leD)
  ultimately have "?k = p" by simp
  then have "j = i'" using d i' j(1) nth_eq_iff_index_eq [of "map fst kvs" j i'] by simp
  with j(2) il(1) show False by force
qed

text \<open>The update part: the root restored from the updated leaves is that of the extended tree.\<close>

lemma updated_root:
  assumes tree: "well_formed_tree kvs" "length kvs + length ops \<le> 2 ^ D" and wf: "btm_wf ls" "ls \<noteq> []"
    and lv: "leaves_of kvs ls" and dist: "distinct (map (te_key \<circ> snd) ops)"
    and lst: "inserted_keys ops \<noteq> [] \<Longrightarrow> fst (last ls) = length kvs - 1"
    and v: "verify_operations ls (length kvs) ops (btm_of_list (map (\<lambda>(i, l). (leaf_key l, i)) ls)) (length kvs) = returns (m, x)"
    and u: "update_leaves m ops ls = Some ls'"
    and z: "zip_leaves H D x ls' (collect_hashes_from (tree_node H (linked_leaves kvs)) D 0 (length kvs - 1) (map fst ls)) = returns (h, ss)"
  shows "h = tree_root H D (linked_leaves (extend_tree kvs (map snd ops)))"
proof -
  let ?ks = "map fst kvs" and ?new = "inserted_keys ops" and ?S = "fst ` set ls" and ?kvs = "extend_tree kvs (map snd ops)"
  note v' = v [unfolded verify_operations_returns]
  have S: "?S \<subseteq> {..<length ?ks}" using lv by (auto simp: leaves_of_def)
  have "k \<notin> set ?ks" if "k \<in> set ?new" for k
    using that v' verified_miss_absent [OF lv] by (fastforce simp: set_inserted_keys)
  then have d: "distinct (?ks @ ?new)"
    using tree(1) distinct_inserted_keys [OF dist] by (auto simp: well_formed_tree_def)
  have hits: "\<forall>(op, e) \<in> set ops. case op of Hit i \<Rightarrow> i \<in> ?S \<and> ?ks ! i = te_key e | Miss _ \<Rightarrow> True"
  proof clarify
    fix op e assume "(op, e) \<in> set ops"
    then have "verify_operation ls (length kvs) op (te_key e) = returns ()" using v' by auto
    then show "case op of Hit i \<Rightarrow> i \<in> ?S \<and> ?ks ! i = te_key e | Miss _ \<Rightarrow> True"
      using leaves_of_get [OF lv] by (cases op) (force elim!: verify_operation_Hit dest: btm_get_Some_in)+
  qed
  have two: "2 \<le> length ?ks" using tree(1) by (simp add: well_formed_tree_def)
  from update_leaves_relinked [OF relinked_start [OF lv wf(1)] _ hits d S two verified_key_index [OF wf(1) lv d v]] u
  have "relinked ?S ?ks (?ks @ ?new) ?new ?kvs ls'" by simp
  from relinked_final [OF this d S] have lv': "leaves_of ?kvs ls'"
    and ix: "map fst ls' = sorted_list_of_set (?S \<union> {length kvs..<length ?kvs})" and "map fst ?kvs = ?ks @ ?new"
    using \<open>relinked ?S ?ks (?ks @ ?new) ?new ?kvs ls'\<close> by (simp_all add: relinked_def)
  then have len: "length ?kvs = length kvs + length ?new" by (metis length_append length_map)
  have srt: "sorted_wrt (<) (map fst ls)" using wf(1) by (simp add: btm_wf_def)
  have "sorted_wrt (<) (map fst ls @ [length kvs..<length ?kvs])" using S srt by (auto simp: sorted_wrt_append)
  then have app: "map fst ls' = map fst ls @ [length kvs..<length ?kvs]"
    unfolding ix by (metis list.set_map set_append set_upt sorted_list_of_set.idem_if_sorted_distinct strict_sorted_iff)
  have unchanged: "linked_leaves kvs ! j = linked_leaves ?kvs ! j" if j: "j < length kvs" "j \<notin> set (map fst ls)" for j
  proof -
    have "te_key e \<noteq> fst (kvs ! j)" if "(op, e) \<in> set ops" for op e
    proof (cases op)
      case (Hit i)
      with hits that have "i \<in> ?S" "?ks ! i = te_key e" by auto
      then show ?thesis using j S tree(1) nth_eq_iff_index_eq [of ?ks i j] by (auto simp: well_formed_tree_def)
    next
      case (Miss i)
      with that have "te_key e \<in> set ?new" by (auto simp: set_inserted_keys)
      moreover have "fst (kvs ! j) \<in> set ?ks" using j(1) by simp
      ultimately show ?thesis using d by auto
    qed
    then have "fst (kvs ! j) \<notin> te_key ` set (map snd ops)" by force
    from extend_tree_untouched [OF j(1) this] next_index_untouched [OF d lv _ j(1), of "length kvs"] j v' two \<open>map fst ?kvs = ?ks @ ?new\<close>
    show ?thesis by (simp add: nth_linked_leaves)
  qed
  have "collect_hashes_from (tree_node H (linked_leaves ?kvs)) D 0 (length ?kvs - 1) (map fst ls') =
      collect_hashes_from (tree_node H (linked_leaves kvs)) D 0 (length kvs - 1) (map fst ls)"
    unfolding app
    using collect_same_hashes [of "map fst ls" "linked_leaves kvs" "linked_leaves ?kvs" H D] srt wf(2) S len lst unchanged
    by (auto simp: last_map)
  moreover have "zip_leaves H D (length (linked_leaves ?kvs)) ls' (collect_hashes_from (tree_node H (linked_leaves ?kvs)) D 0 (length (linked_leaves ?kvs) - 1) (map fst ls')) =
    returns (tree_root H D (linked_leaves ?kvs), located_from H (linked_leaves ?kvs) D 0 (length (linked_leaves ?kvs) - 1) (map fst ls'))"
    using tree(2) length_inserted_keys [of ops] len app srt lv' wf(2) S
    by (intro zip_leaves_complete) (auto simp: leaves_of_def sorted_wrt_append)
  moreover have "x = length ?kvs" using v' len by simp
  ultimately show ?thesis using z by simp
qed

lemma linked_output [simp]:
  "to_root_hash (tree_output_of H D kvs) = tree_root H D (linked_leaves kvs)" "to_leaf_count (tree_output_of H D kvs) = length kvs"
  by (simp_all add: tree_output_of_def)

lemma accepted_reads:
  assumes "collision_free H" "well_formed_tree kvs" "length kvs \<le> 2 ^ D" "btm_wf (btp_sorted_leaves prf)"
    and "verify H D (Some (tree_output_of H D kvs)) entries read_keys prf = returns view"
  shows "mtv_read_entries view = (\<lambda>k. if k \<in> set read_keys then Some (map_of kvs k) else None)"
proof (cases "btp_operations prf = [] \<and> btp_read_operations prf = []")
  case True
  with assms(5) show ?thesis by (auto simp: verify_def Let_def ensure_returns_iff)
next
  case False
  then have "btp_operations prf \<noteq> [] \<or> btp_read_operations prf \<noteq> []" by blast
  with assms(5) show ?thesis
  proof (rule verify_returns)
    fix reads m x ss
    assume ops: "length (btp_read_operations prf) = length read_keys"
      "verify_read_operations (btp_sorted_leaves prf) (to_leaf_count (tree_output_of H D kvs))
        (zip (btp_read_operations prf) read_keys) Map.empty = returns reads" "mtv_read_entries view = reads"
      and lst: "fst (last (btp_sorted_leaves prf)) < to_leaf_count (tree_output_of H D kvs)"
      and z: "zip_leaves H D (to_leaf_count (tree_output_of H D kvs)) (btp_sorted_leaves prf) (btp_hashes prf) =
        returns (to_root_hash (tree_output_of H D kvs), ss)"
    have "leaves_of kvs (btp_sorted_leaves prf)"
      using z lst by (intro proof_leaves(1) [OF _ assms(1,3,4)]) simp_all
    from verify_read_operations_sound [OF ops(2,1) this] assms(2) ops(3) show ?thesis
      by (simp add: well_formed_tree_def)
  qed
qed

lemma inserted_keys_zip:
  "length ops = length entries \<Longrightarrow> inserted_keys (zip ops entries) \<noteq> [] \<longleftrightarrow> (\<exists>i. Miss i \<in> set ops)"
proof (induction ops entries rule: list_induct2)
  case (Cons op ops e es)
  then show ?case by (cases op) auto
qed simp

lemma accepted_root:
  assumes "collision_free H" "well_formed_tree kvs" "length kvs + length entries \<le> 2 ^ D" "btm_wf (btp_sorted_leaves prf)"
    and "distinct (map te_key entries)"
    and "\<And>i. Miss i \<in> set (btp_operations prf) \<Longrightarrow> btm_get (btp_sorted_leaves prf) (length kvs - 1) \<noteq> None"
    and "verify H D (Some (tree_output_of H D kvs)) entries read_keys prf = returns view"
  shows "mtv_root_hash view = tree_root H D (linked_leaves (extend_tree kvs entries))"
proof (cases "btp_operations prf = []")
  case True
  with assms(7) have "entries = []" by (simp add: verify_def Let_def ensure_returns_iff)
  moreover have "mtv_root_hash view = tree_root H D (linked_leaves kvs)"
    using assms(7) True by (auto simp: verify_def Let_def fallible_iffs split: if_splits prod.splits)
  ultimately show ?thesis by (simp add: extend_tree_def)
next
  case False
  then have "btp_operations prf \<noteq> [] \<or> btp_read_operations prf \<noteq> []" by blast
  with assms(7) show ?thesis
  proof (rule verify_returns)
    let ?ls = "btp_sorted_leaves prf" and ?ops = "zip (btp_operations prf) entries"
    fix m x ss
    assume len: "length (btp_operations prf) = length entries"
      and lst: "?ls \<noteq> []" "fst (last ?ls) < to_leaf_count (tree_output_of H D kvs)"
      and v: "verify_operations ?ls (to_leaf_count (tree_output_of H D kvs)) ?ops (btm_of_list (map (\<lambda>(i, l). (leaf_key l, i)) ?ls))
        (to_leaf_count (tree_output_of H D kvs)) = returns (m, x)"
      and z: "zip_leaves H D (to_leaf_count (tree_output_of H D kvs)) ?ls (btp_hashes prf) = returns (to_root_hash (tree_output_of H D kvs), ss)"
      and u: "btp_operations prf \<noteq> [] \<Longrightarrow> \<exists>ls ss'. update_leaves m ?ops ?ls = Some ls \<and>
        zip_leaves H D x ls (btp_hashes prf) = returns (mtv_root_hash view, ss')"
    have D: "length kvs \<le> 2 ^ D" using assms(3) by simp
    note pl = proof_leaves [OF z [unfolded linked_output] assms(1) D assms(4) lst(2) [unfolded linked_output]]
    have last: "fst (last ?ls) = length kvs - 1" if "inserted_keys ?ops \<noteq> []"
    proof -
      from that obtain i where "Miss i \<in> set (btp_operations prf)" by (auto simp: inserted_keys_zip [OF len])
      from assms(6) [OF this] have "length kvs - 1 \<in> fst ` set ?ls" by (simp add: btm_get_None)
      from btm_le_last [OF assms(4) this] lst(2) show ?thesis by simp
    qed
    from u [OF False] obtain ls ss' where ls: "update_leaves m ?ops ?ls = Some ls"
      "zip_leaves H D x ls (btp_hashes prf) = returns (mtv_root_hash view, ss')" by blast
    have "map snd ?ops = entries" "map (te_key \<circ> snd) ?ops = map te_key entries" "length ?ops = length entries"
      using len by (simp_all flip: map_map)
    with updated_root [OF assms(2) _ assms(4) lst(1) pl(1) _ last v [unfolded linked_output] ls(1) ls(2) [unfolded pl(2)]] assms(3,5)
    show ?thesis by simp
  qed
qed

subsection \<open>A concrete tree\<close>

text \<open>Hash values as terms, with the empty subtrees of \<open>compute_empty_tree_hashes\<close>.\<close>

datatype hash_term = LeafHash leaf | BranchHash hash_term hash_term

primrec empty_hash_term :: "nat \<Rightarrow> hash_term" where
  "empty_hash_term 0 = LeafHash leaf_default"
| "empty_hash_term (Suc d) = BranchHash (empty_hash_term d) (empty_hash_term d)"

definition term_hasher :: "hash_term hash_tree" where
  "term_hasher = \<lparr> hash_leaf = LeafHash, hash_branch = BranchHash, empty_subtree_hash = empty_hash_term \<rparr>"

lemma term_hasher_collision_free: "collision_free term_hasher"
  by (auto simp: collision_free_def term_hasher_def inj_def)

definition example_tree :: "(key \<times> key) list" where
  "example_tree = [(0, 0), (- 1, 0), (5, 50)]"

definition example_proof :: "hash_term batch_tree_proof" where
  "example_proof =
     \<lparr> btp_operations = [Miss 2, Hit 2], btp_read_operations = [Hit 2, Miss 2],
       btp_sorted_leaves = [(1, leaf_max_guard), (2, \<lparr> leaf_key = 5, leaf_value = 50, leaf_next_index = 1 \<rparr>)],
       btp_hashes = [LeafHash \<lparr> leaf_key = 0, leaf_value = 0, leaf_next_index = 2 \<rparr>] \<rparr>"

definition example_entries :: "tree_entry list" where
  "example_entries = [\<lparr> te_key = 7, te_value = 70 \<rparr>, \<lparr> te_key = 5, te_value = 51 \<rparr>]"

lemma example_tree_wf: "well_formed_tree example_tree"
  by (simp add: well_formed_tree_def example_tree_def)

lemma example_accepted:
  "verify term_hasher 3 (Some (tree_output_of term_hasher 3 example_tree)) example_entries [5, 9] example_proof =
    returns \<lparr> mtv_root_hash = tree_root term_hasher 3 (linked_leaves (extend_tree example_tree example_entries)),
      mtv_read_entries = [5 \<mapsto> Some 50, 9 \<mapsto> None] \<rparr>"
  by code_simp

end
