(* ===== verification/TreeSoundness.thy ===== *)
theory TreeSoundness
  imports TreeVerify
begin

text \<open>
  The properties of batch proof verification: what an accepted proof shows about reads and about the
  root after the batch, the first batch of an empty tree, when verification panics, and a proof that is
  accepted although it lacks the last leaf.
\<close>

subsection \<open>The first batch\<close>

definition guards :: "(key \<times> key) list" where
  "guards = [(0, 0), (- 1, 0)]"

lemma collect_all_leaves: "collect_hashes_from f r d m [0..<m + 1] = []"
proof (induction r arbitrary: d m)
  case (Suc r)
  have "missing_siblings m [0..<m + 1] = []" "parent_indices [0..<m + 1] = [0..<m div 2 + 1]"
    using run_level [of 0 m] by simp_all
  with Suc.IH [of "d + 1" "m div 2"] show ?case by (simp del: upt_Suc)
qed simp

lemma btm_of_list_distinct:
  assumes "length (btm_of_list kvs) = length kvs"
  shows "distinct (map fst kvs)"
proof -
  have "length (btm_of_list kvs) = card (fst ` set (btm_of_list kvs))"
    using btm_wf_distinct [OF btm_of_list_wf, of kvs] by (metis distinct_card length_map list.set_map)
  then have "card (set (map fst kvs)) = length (map fst kvs)"
    using assms by (simp add: btm_of_list_keys)
  then show ?thesis by (rule card_distinct)
qed

lemma extend_guards:
  assumes "distinct (map te_key entries)" "\<forall>e \<in> set entries. te_key e \<notin> fst ` set kvs"
  shows "extend_tree kvs entries = kvs @ map (\<lambda>e. (te_key e, te_value e)) entries"
  using assms
proof (induction entries arbitrary: kvs)
  case (Cons e es)
  have "extend_tree (kvs @ [(te_key e, te_value e)]) es = (kvs @ [(te_key e, te_value e)]) @ map (\<lambda>e. (te_key e, te_value e)) es"
    using Cons.prems by (intro Cons.IH) (auto simp: image_iff)
  with Cons.prems show ?case by (simp add: extend_tree_def put_absent)
qed (simp add: extend_tree_def)

lemma zero_less_max_key: "(0::key) < - 1"
  by code_simp

text \<open>The next index that the index of the new keys gives, for a key that may or may not be new.\<close>

lemma first_greater:
  assumes d: "distinct (map te_key entries)" and b: "\<forall>e \<in> set entries. 0 < te_key e \<and> te_key e < - 1" and k: "k < - 1"
    and m: "m = btm_of_list (zip (map te_key entries) [2..<length entries + 2])"
  shows "(case filter (\<lambda>(k', _). k < k') m of [] \<Rightarrow> 1 | (_, i) # _ \<Rightarrow> i) =
    next_index (map fst guards @ map te_key entries) k"
proof -
  let ?ks = "map fst guards @ map te_key entries"
  have dz: "distinct (map fst (zip (map te_key entries) [2..<length entries + 2]))" using d by simp
  have keys: "fst ` set m = te_key ` set entries" unfolding m btm_of_list_keys by (metis length_map list.set_map map_fst_zip length_upt diff_add_inverse2)
  have dist: "distinct ?ks" using d b by (force simp: guards_def)
  show ?thesis
  proof (cases "filter (\<lambda>(k', _). k < k') m")
    case Nil
    then have none: "\<not> k < te_key e" if "e \<in> set entries" for e
      using that keys by (force simp: filter_empty_conv)
    have "next_index ?ks k = index_of ?ks (- 1)"
      using k none by (intro next_indexI) (auto simp: guards_def word_less_alt)
    also have "\<dots> = 1" by (simp add: index_of_def guards_def)
    finally show ?thesis using Nil by simp
  next
    case (Cons kv r)
    obtain k2 i where kv: "kv = (k2, i)" by fastforce
    have g: "btm_get m k2 = Some i" "k < k2" "\<forall>k' \<in> fst ` set m. k < k' \<longrightarrow> k2 \<le> k'"
      using btm_greater_first [of m k k2 i r] Cons kv by (simp_all add: m btm_of_list_wf)
    have "k2 \<in> te_key ` set entries" using btm_get_Some_in [OF g(1)] keys by force
    then have "next_index ?ks k = index_of ?ks k2"
      using g(2,3) b keys by (intro next_indexI) (auto simp: guards_def intro: less_imp_le)
    moreover have "(k2, i) \<in> set (zip (map te_key entries) [2..<length entries + 2])"
      using g(1) unfolding m btm_of_list_get [OF dz] by (rule map_of_SomeD)
    then have "?ks ! i = k2" "i < length ?ks" by (auto simp: set_zip guards_def nth_append simp del: upt_Suc)
    then have "index_of ?ks k2 = i" using index_of_nth [OF dist, of i] by simp
    ultimately show ?thesis using Cons kv by simp
  qed
qed

lemma first_batch_leaves:
  assumes d: "distinct (map te_key entries)" and b: "\<forall>e \<in> set entries. 0 < te_key e \<and> te_key e < - 1"
    and m: "m = btm_of_list (zip (map te_key entries) [2..<length entries + 2])"
  shows "[(0, leaf_min_guard\<lparr> leaf_next_index := case m of [] \<Rightarrow> 1 | (_, i) # _ \<Rightarrow> i \<rparr>), (1, leaf_max_guard)] @
      zip [2..<length entries + 2] (map (fresh_leaf m) entries) =
    zip [0..<length entries + 2] (linked_leaves (extend_tree guards entries))" (is "?lhs = ?rhs")
proof -
  let ?ks = "map fst guards @ map te_key entries"
  let ?leaf = "\<lambda>e. \<lparr> leaf_key = te_key e, leaf_value = te_value e, leaf_next_index = next_index ?ks (te_key e) \<rparr>"
  have kvs: "extend_tree guards entries = guards @ map (\<lambda>e. (te_key e, te_value e)) entries"
    using b by (intro extend_guards [OF d]) (auto simp: guards_def)
  have keys: "fst ` set m = te_key ` set entries"
    unfolding m btm_of_list_keys by (metis length_map list.set_map map_fst_zip length_upt diff_add_inverse2)
  have wf: "btm_wf m" unfolding m by (rule btm_of_list_wf)
  have fresh: "fresh_leaf m e = ?leaf e" if "e \<in> set entries" for e
  proof -
    have "te_key e \<in> fst ` set m" using that keys by simp
    then obtain v where "btm_get m (te_key e) = Some v" using btm_get_None [of m "te_key e"] by auto
    then have "drop 1 (btm_range_from (te_key e) m) = filter (\<lambda>(k', _). te_key e < k') m"
      using btm_range_from_present [OF wf] by simp
    then show ?thesis using first_greater [OF d b _ m, of "te_key e"] b that by (simp add: fresh_leaf_def)
  qed
  have "filter (\<lambda>(k', _). 0 < k') m = m"
    using b keys by (intro filter_True) force
  then have min: "(case m of [] \<Rightarrow> 1 | (_, i) # _ \<Rightarrow> i) = next_index ?ks 0"
    using first_greater [OF d b zero_less_max_key m] by simp
  have "filter (\<lambda>k'. - 1 < k') ?ks = []" by (simp add: filter_empty_conv not_less)
  then have max: "next_index ?ks (- 1) = 1" by (simp add: next_index_def)
  have "linked_leaves (extend_tree guards entries) =
      leaf_min_guard\<lparr> leaf_next_index := next_index ?ks 0 \<rparr> # leaf_max_guard # map ?leaf entries"
    using max unfolding kvs
    by (simp add: linked_leaves_def guards_def leaf_min_guard_def leaf_max_guard_def comp_def)
  moreover have "map (fresh_leaf m) entries = map ?leaf entries" using fresh by simp
  moreover have "[0..<length entries + 2] = 0 # 1 # [2..<length entries + 2]" by (simp add: upt_conv_Cons numeral_2_eq_2 del: upt_Suc)
  ultimately show ?thesis unfolding min by (simp only: append_Cons append_Nil zip_Cons_Cons)
qed

lemma first_batch_root:
  assumes "verify_for_empty_tree H D entries read_keys prf = returns view" "2 + length entries \<le> 2 ^ D"
    and "\<forall>e \<in> set entries. 0 < te_key e \<and> te_key e < - 1"
  shows "mtv_root_hash view = tree_root H D (linked_leaves (extend_tree guards entries))"
proof -
  let ?m = "btm_of_list (zip (map te_key entries) [2..<length entries + 2])"
  let ?L = "linked_leaves (extend_tree guards entries)"
  have len: "length ?m = length entries" using assms(1) by (auto simp: verify_for_empty_tree_def Let_def ensure_returns_iff)
  then have "length ?m = length (zip (map te_key entries) [2..<length entries + 2])" by (simp del: upt_Suc)
  from btm_of_list_distinct [OF this] have d: "distinct (map te_key entries)" by (simp del: upt_Suc)
  have n: "length ?L = length entries + 2"
    using assms(3) by (subst extend_guards [OF d]) (auto simp: guards_def linked_leaves_def)
  have "zip_leaves H D (length ?L) (zip [0..<length ?L] ?L)
      (collect_hashes_from (tree_node H ?L) D 0 (length ?L - 1) (map fst (zip [0..<length ?L] ?L))) =
    returns (tree_root H D ?L, located_from H ?L D 0 (length ?L - 1) (map fst (zip [0..<length ?L] ?L)))"
  proof (rule zip_leaves_complete)
    have "?L \<noteq> []" using n by force
    then show "zip [0..<length ?L] ?L \<noteq> []" by (simp del: length_linked_leaves)
  qed (use assms(2) n in \<open>auto simp: set_zip simp del: upt_Suc length_linked_leaves\<close>)
  moreover have "map fst (zip [0..<length ?L] ?L) = [0..<length ?L - 1 + 1]" using n by simp
  ultimately have z: "zip_leaves H D (length entries + 2) (zip [0..<length entries + 2] ?L) [] =
      returns (tree_root H D ?L, located_from H ?L D 0 (length ?L - 1) [0..<length ?L - 1 + 1])"
    using n by (simp only: collect_all_leaves)
  show ?thesis
    using assms(1)
    unfolding verify_for_empty_tree_def Let_def first_batch_leaves [OF d assms(3) refl] add.commute [of 2 "length entries"] z
    by (auto simp: ensure_returns_iff)
qed

subsection \<open>Properties\<close>

text \<open>C5.  Soundness of batch proofs.  Let the tree hold the pairs \<open>kvs\<close>, with room for the entries, and let
  the hasher be free of collisions.  If \<open>verify\<close> accepts a proof against the root and leaf count of that
  tree, if the keys of the entries are distinct and, when there are inserts, the last leaf of the tree
  is among the leaves of the proof (two conditions \<open>verify\<close> does not check), then the root it returns is the root of the tree with the entries written, and the entry for every read key is the
  value of that key before the batch, or absence.\<close>

theorem accepted_update_is_correct:
  assumes "collision_free H" "well_formed_tree kvs" "length kvs + length entries \<le> 2 ^ D" "btm_wf (btp_sorted_leaves prf)"
    and "distinct (map te_key entries)"
    and "list_ex (\<lambda>op. \<exists>i. op = Miss i) (btp_operations prf) \<Longrightarrow> btm_get (btp_sorted_leaves prf) (length kvs - 1) \<noteq> None"
    and "verify H D (Some (tree_output_of H D kvs)) entries read_keys prf = returns view"
  shows "mtv_root_hash view = tree_root H D (linked_leaves (extend_tree kvs entries)) \<and>
    mtv_read_entries view = (\<lambda>k. if k \<in> set read_keys then Some (map_of kvs k) else None)"
proof
  show "mtv_root_hash view = tree_root H D (linked_leaves (extend_tree kvs entries))"
    using assms by (intro accepted_root) (auto simp: list_ex_iff)
  show "mtv_read_entries view = (\<lambda>k. if k \<in> set read_keys then Some (map_of kvs k) else None)"
    using assms by (intro accepted_reads) auto
qed

theorem accepted_update_is_correct_witness:
  "\<exists>view. verify term_hasher 3 (Some (tree_output_of term_hasher 3 example_tree)) example_entries [5, 9] example_proof = returns view \<and>
    mtv_root_hash view = tree_root term_hasher 3 (linked_leaves (extend_tree example_tree example_entries)) \<and>
    mtv_read_entries view = (\<lambda>k. if k \<in> set [5, 9] then Some (map_of example_tree k) else None)"
proof -
  have "btm_wf (btp_sorted_leaves example_proof)" "distinct (map te_key example_entries)"
    "length example_tree + length example_entries \<le> 2 ^ 3"
    "btm_get (btp_sorted_leaves example_proof) (length example_tree - 1) \<noteq> None"
    by (simp_all add: example_proof_def example_entries_def example_tree_def btm_wf_def btm_get_def)
  from accepted_update_is_correct [OF term_hasher_collision_free example_tree_wf this(3,1,2) this(4) example_accepted] example_accepted
  show ?thesis by blast
qed

text \<open>C27.  Reads need no condition on the entries: against the root of a well-formed tree, an accepted
  read-only proof returns that root and for every key its value in the tree, or absence.\<close>

theorem accepted_reads_are_correct:
  assumes "collision_free H" "well_formed_tree kvs" "length kvs \<le> 2 ^ D" "btm_wf (btp_sorted_leaves prf)"
    and "verify_reads H D (tree_output_of H D kvs) read_keys prf = returns view"
  shows "mtv_root_hash view = tree_root H D (linked_leaves kvs) \<and>
    mtv_read_entries view = (\<lambda>k. if k \<in> set read_keys then Some (map_of kvs k) else None)"
proof
  have v: "verify H D (Some (tree_output_of H D kvs)) [] read_keys prf = returns view"
    using assms(5) by (simp add: verify_reads_def)
  then have "btp_operations prf = []" by (simp add: verify_def Let_def ensure_returns_iff)
  with accepted_root [OF assms(1,2) _ assms(4) _ _ v] assms(3)
  show "mtv_root_hash view = tree_root H D (linked_leaves kvs)" by (simp add: extend_tree_def)
  show "mtv_read_entries view = (\<lambda>k. if k \<in> set read_keys then Some (map_of kvs k) else None)"
    using v assms by (intro accepted_reads) auto
qed

definition example_read_proof :: "hash_term batch_tree_proof" where
  "example_read_proof = example_proof\<lparr> btp_operations := [] \<rparr>"

theorem accepted_reads_are_correct_witness:
  "\<exists>view. verify_reads term_hasher 3 (tree_output_of term_hasher 3 example_tree) [5, 9] example_read_proof = returns view \<and>
    mtv_root_hash view = tree_root term_hasher 3 (linked_leaves example_tree) \<and> mtv_read_entries view 5 = Some (Some 50) \<and>
    mtv_read_entries view 9 = Some None \<and> mtv_read_entries view 5 = Some (map_of example_tree 5)"
proof -
  let ?v = "\<lparr> mtv_root_hash = tree_root term_hasher 3 (linked_leaves example_tree), mtv_read_entries = [5 \<mapsto> Some 50, 9 \<mapsto> None] \<rparr>"
  have acc: "verify_reads term_hasher 3 (tree_output_of term_hasher 3 example_tree) [5, 9] example_read_proof = returns ?v"
    by code_simp
  have "btm_wf (btp_sorted_leaves example_read_proof)" "length example_tree \<le> 2 ^ 3"
    by (simp_all add: example_read_proof_def example_proof_def example_tree_def btm_wf_def)
  from accepted_reads_are_correct [OF term_hasher_collision_free example_tree_wf this(2,1) acc]
  have "mtv_read_entries ?v 5 = Some (map_of example_tree 5)" by (meson list.set_intros(1))
  with acc show ?thesis by (intro exI [of _ ?v]) simp
qed

text \<open>The first batch of an empty tree, which has no previous output: an accepted proof returns
  the root of the tree with the two guards and the entries, and all reads are absent.\<close>

theorem first_batch_is_correct:
  assumes "verify H D None entries read_keys prf = returns view" "2 + length entries \<le> 2 ^ D"
    and "\<forall>e \<in> set entries. 0 < te_key e \<and> te_key e < - 1"
  shows "mtv_root_hash view = tree_root H D (linked_leaves (extend_tree guards entries)) \<and>
    mtv_read_entries view = (\<lambda>k. if k \<in> set read_keys then Some None else None)"
proof
  have v: "verify_for_empty_tree H D entries read_keys prf = returns view" using assms(1) by (simp add: verify_def)
  from first_batch_root [OF this assms(2,3)]
  show "mtv_root_hash view = tree_root H D (linked_leaves (extend_tree guards entries))" .
  show "mtv_read_entries view = (\<lambda>k. if k \<in> set read_keys then Some None else None)"
    using v by (auto simp: verify_for_empty_tree_def Let_def fallible_iffs)
qed

definition empty_batch_proof :: "'h batch_tree_proof" where
  "empty_batch_proof = \<lparr> btp_operations = [], btp_read_operations = [], btp_sorted_leaves = [], btp_hashes = [] \<rparr>"

theorem first_batch_is_correct_witness:
  "\<exists>view. verify term_hasher 3 None example_entries [9] empty_batch_proof = returns view \<and>
    mtv_root_hash view = tree_root term_hasher 3 (linked_leaves (extend_tree guards example_entries))"
proof -
  let ?v = "\<lparr> mtv_root_hash = tree_root term_hasher 3 (linked_leaves [(0, 0), (- 1, 0), (7, 70), (5, 51)]),
    mtv_read_entries = (\<lambda>k. if k \<in> set [9] then Some None else None) \<rparr>"
  have acc: "verify term_hasher 3 None example_entries [9] empty_batch_proof = returns ?v" by code_simp
  have "\<forall>e \<in> set example_entries. 0 < te_key e \<and> te_key e < - 1" "2 + length example_entries \<le> 2 ^ 3" by code_simp+
  from first_batch_is_correct [OF acc this(2,1)] acc show ?thesis by blast
qed

text \<open>C28.  When verification panics.  Without a previous output it never does.  Against a claimed leaf count,
  which is a \<open>u64\<close>, it panics exactly if the checks before the loop over the entries pass, all reads are
  proven, and the operations are accepted up to an insert that makes the index of the next leaf exceed
  \<open>u64\<close>; so it does not panic if the leaf count and the number of entries together fit.  Every
  \<open>unwrap\<close> and index is guarded by an earlier check.  For a depth of at most \<open>MAX_TREE_DEPTH\<close> the result
  does not depend on what the hasher answers for deeper empty subtrees, where its table ends.\<close>

theorem verify_panics_iff:
  assumes "btm_wf (btp_sorted_leaves prf)" "to_leaf_count out < 2 ^ 64" "D \<le> MAX_TREE_DEPTH"
  shows "verify H D None entries read_keys prf \<noteq> None \<and>
    (verify H D (Some out) entries read_keys prf = None \<longleftrightarrow>
      length (btp_operations prf) = length entries \<and> length (btp_read_operations prf) = length read_keys \<and>
      (btp_sorted_leaves prf \<noteq> [] \<longrightarrow> fst (last (btp_sorted_leaves prf)) < to_leaf_count out) \<and>
      (\<exists>reads. verify_read_operations (btp_sorted_leaves prf) (to_leaf_count out)
         (zip (btp_read_operations prf) read_keys) Map.empty = returns reads) \<and>
      (\<exists>k. (\<forall>(op, e) \<in> set (take k (zip (btp_operations prf) entries)).
           verify_operation (btp_sorted_leaves prf) (to_leaf_count out) op (te_key e) = returns ()) \<and>
         2 ^ 64 \<le> to_leaf_count out + length (inserted_keys (take k (zip (btp_operations prf) entries))))) \<and>
    (to_leaf_count out + length entries < 2 ^ 64 \<longrightarrow> verify H D (Some out) entries read_keys prf \<noteq> None) \<and>
    (\<forall>H'. agree_below (MAX_TREE_DEPTH + 1) H H' \<longrightarrow>
       verify H' D (Some out) entries read_keys prf = verify H D (Some out) entries read_keys prf)"
proof -
  let ?ops = "zip (btp_operations prf) entries"
  note iff = verify_None_iff [OF assms(1,2), of H D entries read_keys, unfolded inserts_overflow_def]
  have "length (inserted_keys (take k ?ops)) \<le> length entries" for k
    using inserted_keys_length [of "take k ?ops"] by simp
  then have fits: "verify H D (Some out) entries read_keys prf \<noteq> None" if "to_leaf_count out + length entries < 2 ^ 64"
    using that unfolding iff by (meson add_left_mono leD le_less_trans)
  have "agree_below D H H'" if "agree_below (MAX_TREE_DEPTH + 1) H H'" for H'
    using that assms(3) by (simp add: agree_below_def)
  then have agree: "verify H' D (Some out) entries read_keys prf = verify H D (Some out) entries read_keys prf"
    if "agree_below (MAX_TREE_DEPTH + 1) H H'" for H' using verify_agree that by blast
  have "verify H D None entries read_keys prf \<noteq> None"
    by (simp add: verify_def verify_for_empty_tree_not_None del: not_None_eq)
  then show ?thesis using iff fits agree by blast
qed

text \<open>An insert into a tree of the largest claimed leaf count.\<close>

definition full_tree_proof :: "hash_term batch_tree_proof" where
  "full_tree_proof =
     \<lparr> btp_operations = [Miss 0], btp_read_operations = [], btp_sorted_leaves = [(0, leaf_min_guard), (1, leaf_max_guard)],
       btp_hashes = [] \<rparr>"

theorem verify_panics_iff_witness:
  "verify term_hasher 3 (Some (tree_output_of term_hasher 3 example_tree)) example_entries [5, 9] example_proof \<noteq> None \<and>
   verify term_hasher 3 (Some \<lparr> to_root_hash = empty_hash_term 0, to_leaf_count = 2 ^ 64 - 1 \<rparr>)
     [\<lparr> te_key = 7, te_value = 70 \<rparr>] [] full_tree_proof = None"
proof -
  have 1: "btm_wf (btp_sorted_leaves example_proof)" "to_leaf_count (tree_output_of term_hasher 3 example_tree) < 2 ^ 64"
      "to_leaf_count (tree_output_of term_hasher 3 example_tree) + length example_entries < 2 ^ 64"
    by (simp_all add: example_proof_def btm_wf_def tree_output_of_def example_tree_def example_entries_def)
  have D: "3 \<le> MAX_TREE_DEPTH" by (simp add: MAX_TREE_DEPTH_def)
  let ?out = "\<lparr> to_root_hash = empty_hash_term 0, to_leaf_count = 2 ^ 64 - 1 \<rparr>"
  have 2: "btm_wf (btp_sorted_leaves full_tree_proof)" "to_leaf_count ?out < 2 ^ 64"
    by (simp_all add: full_tree_proof_def btm_wf_def)
  have "(0 :: key) < 7" "(7 :: key) < - 1" by code_simp+
  then have "verify_operation (btp_sorted_leaves full_tree_proof) n (Miss 0) 7 = returns ()" for n
    by (simp add: verify_operation_def full_tree_proof_def btm_get_def leaf_min_guard_def leaf_max_guard_def)
  then have "\<exists>k. (\<forall>(op, e) \<in> set (take k (zip (btp_operations full_tree_proof) [\<lparr> te_key = 7, te_value = 70 \<rparr>])).
        verify_operation (btp_sorted_leaves full_tree_proof) (to_leaf_count ?out) op (te_key e) = returns ()) \<and>
      2 ^ 64 \<le> to_leaf_count ?out + length (inserted_keys (take k (zip (btp_operations full_tree_proof) [\<lparr> te_key = 7, te_value = 70 \<rparr>])))"
    by (intro exI [of _ 1]) (simp add: full_tree_proof_def)
  then have "verify term_hasher 3 (Some ?out) [\<lparr> te_key = 7, te_value = 70 \<rparr>] [] full_tree_proof = None"
    using verify_panics_iff [OF 2 D, of term_hasher "[\<lparr> te_key = 7, te_value = 70 \<rparr>]" "[]"] by (simp add: full_tree_proof_def)
  then show ?thesis using verify_panics_iff [OF 1(1,2) D, of term_hasher example_entries "[5, 9]"] 1(3) by blast
qed

definition five_leaves :: "(key \<times> key) list" where
  "five_leaves = [(0, 0), (- 1, 0), (5, 50), (9, 90), (20, 200)]"

definition proof_without_last_leaf :: "hash_term batch_tree_proof" where
  "proof_without_last_leaf =
     (let node = tree_node term_hasher (linked_leaves five_leaves) in
      \<lparr> btp_operations = [Miss 2], btp_read_operations = [],
        btp_sorted_leaves = [(2, linked_leaves five_leaves ! 2), (3, linked_leaves five_leaves ! 3)],
        btp_hashes = [node 1 0, node 2 1] \<rparr>)"

text \<open>The soundness of updates needs the last leaf of the tree in a proof of inserts, which is not
  checked: \<open>verify\<close> accepts a proof of an insert that lacks
  it, against the true root of a well-formed tree, and returns a root that is not the root of the
  extended tree, since a hash of the old traversal is taken for another node by the new one.\<close>

lemma insert_without_last_leaf_accepted:
  "well_formed_tree five_leaves \<and>
   (case verify term_hasher 4 (Some (tree_output_of term_hasher 4 five_leaves)) [\<lparr> te_key = 7, te_value = 70 \<rparr>] [] proof_without_last_leaf of
      Some (Inr view) \<Rightarrow>
        mtv_root_hash view \<noteq> tree_root term_hasher 4 (linked_leaves (extend_tree five_leaves [\<lparr> te_key = 7, te_value = 70 \<rparr>]))
    | _ \<Rightarrow> False)"
  by code_simp

end
