(* ===== verification/FlatProofs.thy ===== *)
theory FlatProofs
  imports TreeSoundness
begin

text \<open>
  Storage proofs for single slots (\<open>src/lib/merkle_tree_api/src/flat.rs\<close>): the Merkle path of a
  leaf, the proof that a slot is present or absent, and the flattening of a batch proof of reads into
  such proofs.  The code uses \<open>Blake2Hasher\<close>; the hasher is a parameter here.
\<close>

record 'h slot_proof_entry =
  spe_index :: u64
  spe_value :: key
  spe_next_index :: u64
  spe_siblings :: "'h list"

record 'h slot_proof_entry_with_key =
  spk_inner :: "'h slot_proof_entry"
  spk_leaf_key :: key

datatype 'h inner_slot_proof =
    ExistingSlot "'h slot_proof_entry"
  | NonExistingSlot "'h slot_proof_entry_with_key" "'h slot_proof_entry_with_key"

record 'h storage_slot_proof =
  ssp_key :: key
  ssp_proof :: "'h inner_slot_proof"

datatype flat_error =
    TooManySiblings
  | LeftKeyNotLess
  | RightKeyNotGreater
  | NeighborsNotLinked
  | RootHashesDiffer

text \<open>The loop of \<open>StorageSlotProofEntry::hash\<close> over the levels.\<close>

fun hash_path :: "'h hash_tree \<Rightarrow> 'h list \<Rightarrow> nat \<Rightarrow> nat \<Rightarrow> u64 \<Rightarrow> 'h \<Rightarrow> 'h" where
  "hash_path hasher siblings 0 depth index h = h"
| "hash_path hasher siblings (Suc levels) depth index h =
     (let sibling_hash = (case get siblings depth of Some s \<Rightarrow> s | None \<Rightarrow> empty_subtree_hash hasher depth);
          h' = (if index mod 2 = 0 then hash_branch hasher h sibling_hash else hash_branch hasher sibling_hash h)
      in hash_path hasher siblings levels (depth + 1) (index div 2) h')"

definition entry_hash :: "'h hash_tree \<Rightarrow> nat \<Rightarrow> key \<Rightarrow> 'h slot_proof_entry \<Rightarrow> (flat_error, 'h) fallible" where
  "entry_hash hasher tree_depth k e =
     ensure (length (spe_siblings e) < tree_depth) TooManySiblings
      (returns (hash_path hasher (spe_siblings e) tree_depth 0 (spe_index e)
        (hash_leaf hasher \<lparr> leaf_key = k, leaf_value = spe_value e, leaf_next_index = spe_next_index e \<rparr>)))"

definition entry_with_key_hash :: "'h hash_tree \<Rightarrow> nat \<Rightarrow> 'h slot_proof_entry_with_key \<Rightarrow> (flat_error, 'h) fallible" where
  "entry_with_key_hash hasher tree_depth e = entry_hash hasher tree_depth (spk_leaf_key e) (spk_inner e)"

definition inner_slot_proof_verify :: "'h hash_tree \<Rightarrow> nat \<Rightarrow> key \<Rightarrow> 'h inner_slot_proof \<Rightarrow> (flat_error, 'h) fallible" where
  "inner_slot_proof_verify hasher tree_depth k prf =
     (case prf of
        ExistingSlot e \<Rightarrow> entry_hash hasher tree_depth k e
      | NonExistingSlot left_neighbor right_neighbor \<Rightarrow>
          ensure (spk_leaf_key left_neighbor < k) LeftKeyNotLess
         (ensure (k < spk_leaf_key right_neighbor) RightKeyNotGreater
         (ensure (spe_next_index (spk_inner left_neighbor) = spe_index (spk_inner right_neighbor)) NeighborsNotLinked
           (and_then (entry_with_key_hash hasher tree_depth left_neighbor) (\<lambda>root_hash_left.
            and_then (entry_with_key_hash hasher tree_depth right_neighbor) (\<lambda>root_hash_right.
            ensure (root_hash_left = root_hash_right) RootHashesDiffer (returns root_hash_left)))))))"

definition storage_slot_proof_verify :: "'h hash_tree \<Rightarrow> nat \<Rightarrow> 'h storage_slot_proof \<Rightarrow> (flat_error, 'h) fallible" where
  "storage_slot_proof_verify hasher tree_depth p = inner_slot_proof_verify hasher tree_depth (ssp_key p) (ssp_proof p)"

definition inner_slot_proof_value :: "'h inner_slot_proof \<Rightarrow> key option" where
  "inner_slot_proof_value p = (case p of ExistingSlot e \<Rightarrow> Some (spe_value e) | NonExistingSlot _ _ \<Rightarrow> None)"

definition storage_slot_proof_value :: "'h storage_slot_proof \<Rightarrow> key option" where
  "storage_slot_proof_value p = inner_slot_proof_value (ssp_proof p)"

subsection \<open>Flattening a batch proof\<close>

text \<open>\<open>sibling_hashes\<close>: the buffer filled by \<open>zip_leaves\<close>; an invalid batch proof is a panic.\<close>

definition sibling_hashes :: "'h hash_tree \<Rightarrow> nat \<Rightarrow> u64 \<Rightarrow> 'h batch_tree_proof \<Rightarrow> 'h located_hash list option" where
  "sibling_hashes hasher tree_depth leaf_count prf =
     (if btp_sorted_leaves prf = [] then Some []
      else case zip_leaves hasher tree_depth leaf_count (btp_sorted_leaves prf) (btp_hashes prf) of
          Some (Inr (_, sibs)) \<Rightarrow> Some sibs
        | _ \<Rightarrow> None)"

text \<open>The closure \<open>get_sibling_hash\<close> with its captured \<open>sibling_idx\<close>: the hash and the new index.\<close>

definition get_sibling_hash :: "'h located_hash list \<Rightarrow> nat \<Rightarrow> nat \<Rightarrow> u64 \<Rightarrow> ('h \<times> nat) option" where
  "get_sibling_hash sibs sibling_idx depth idx =
     do { current \<leftarrow> get sibs sibling_idx;
          if fst current = (depth, idx) then Some (snd current, sibling_idx)
          else do { next_one \<leftarrow> get sibs (sibling_idx + 1);
                    assert_that (fst next_one = (depth, idx));
                    Some (snd next_one, sibling_idx + 1) } }"

text \<open>One level: every path is extended by its sibling and every index is halved.\<close>

fun flat_level ::
    "'h hash_tree \<Rightarrow> 'h located_hash list \<Rightarrow> nat \<Rightarrow> u64 \<Rightarrow> nat \<Rightarrow> (u64 \<times> 'h slot_proof_entry) list
      \<Rightarrow> ((u64 \<times> 'h slot_proof_entry) list \<times> nat) option" where
  "flat_level hasher sibs depth last_idx sibling_idx [] = Some ([], sibling_idx)"
| "flat_level hasher sibs depth last_idx sibling_idx ((idx, e) # es) =
     do { (h, sibling_idx') \<leftarrow>
            (if idx mod 2 = 1 then get_sibling_hash sibs sibling_idx depth (idx - 1)
             else if idx = last_idx then Some (empty_subtree_hash hasher depth, sibling_idx)
             else get_sibling_hash sibs sibling_idx depth (idx + 1));
          (es', sibling_idx'') \<leftarrow> flat_level hasher sibs depth last_idx sibling_idx' es;
          Some ((idx div 2, e\<lparr> spe_siblings := spe_siblings e @ [h] \<rparr>) # es', sibling_idx'') }"

text \<open>The loop over the levels, which stops above the last inner node that is not on the left edge.\<close>

fun flat_levels ::
    "'h hash_tree \<Rightarrow> 'h located_hash list \<Rightarrow> nat \<Rightarrow> nat \<Rightarrow> u64 \<Rightarrow> nat \<Rightarrow> (u64 \<times> 'h slot_proof_entry) list
      \<Rightarrow> (u64 \<times> 'h slot_proof_entry) list option" where
  "flat_levels hasher sibs 0 depth last_idx sibling_idx es = Some es"
| "flat_levels hasher sibs (Suc levels) depth last_idx sibling_idx es =
     do { (es', sibling_idx') \<leftarrow> flat_level hasher sibs depth last_idx sibling_idx es;
          if last_idx div 2 = 0 then Some es'
          else flat_levels hasher sibs levels (depth + 1) (last_idx div 2) sibling_idx' es' }"

definition flat_read :: "(u64, leaf) btm \<Rightarrow> (u64, 'h slot_proof_entry) btm \<Rightarrow> tree_operation \<Rightarrow> 'h inner_slot_proof option" where
  "flat_read sorted_leaves proof_entries op =
     (case op of
        Hit index \<Rightarrow> map_option ExistingSlot (btm_get proof_entries index)
      | Miss prev_index \<Rightarrow>
          do { prev_entry \<leftarrow> btm_get proof_entries prev_index;
               prev_leaf \<leftarrow> btm_get sorted_leaves prev_index;
               next_entry \<leftarrow> btm_get proof_entries (spe_next_index prev_entry);
               next_leaf \<leftarrow> btm_get sorted_leaves (spe_next_index prev_entry);
               Some (NonExistingSlot
                 \<lparr> spk_inner = prev_entry, spk_leaf_key = leaf_key prev_leaf \<rparr>
                 \<lparr> spk_inner = next_entry, spk_leaf_key = leaf_key next_leaf \<rparr>) })"

definition to_flat :: "'h hash_tree \<Rightarrow> nat \<Rightarrow> u64 \<Rightarrow> 'h batch_tree_proof \<Rightarrow> 'h inner_slot_proof list option" where
  "to_flat hasher tree_depth leaf_count prf =
     do { assert_that (btp_operations prf = []);
          sibs \<leftarrow> sibling_hashes hasher tree_depth leaf_count prf;
          assert_that (0 < leaf_count);
          let entries = map (\<lambda>(index, l).
                (index, \<lparr> spe_index = index, spe_value = leaf_value l, spe_next_index = leaf_next_index l, spe_siblings = [] \<rparr>))
                (btp_sorted_leaves prf);
          es \<leftarrow> flat_levels hasher sibs tree_depth 0 (leaf_count - 1) 0 entries;
          unwrap_all (map (flat_read (btp_sorted_leaves prf) (map (\<lambda>(_, e). (spe_index e, e)) es)) (btp_read_operations prf)) }"

subsection \<open>A path determines its leaf\<close>

text \<open>The hashes of empty subtrees as \<open>compute_empty_tree_hashes\<close> computes them.\<close>

definition empty_hashes_ok :: "'h hash_tree \<Rightarrow> bool" where
  "empty_hashes_ok H \<longleftrightarrow> empty_subtree_hash H 0 = hash_leaf H leaf_default \<and>
     (\<forall>d. empty_subtree_hash H (Suc d) = hash_branch H (empty_subtree_hash H d) (empty_subtree_hash H d))"

lemma term_hasher_empty_ok: "empty_hashes_ok term_hasher"
  by (simp add: empty_hashes_ok_def term_hasher_def)

lemma tree_node_Suc:
  assumes "empty_hashes_ok H"
  shows "tree_node H L (Suc d) i = hash_branch H (tree_node H L d (2 * i)) (tree_node H L d (2 * i + 1))"
proof (cases "i * 2 ^ Suc d < length L")
  case False
  then have "tree_node H L d (2 * i) = empty_subtree_hash H d" "tree_node H L d (2 * i + 1) = empty_subtree_hash H d"
    using assms by (cases d; simp add: tree_node.simps(2) algebra_simps)+
  with False assms show ?thesis by (simp add: tree_node.simps(2) empty_hashes_ok_def)
qed (simp add: tree_node.simps(2))

lemma hash_path_sound:
  assumes "collision_free H" "empty_hashes_ok H" "hash_path H sibs r d i h = tree_node H L (d + r) j"
  shows "h = tree_node H L d (j * 2 ^ r + i mod 2 ^ r)"
  using assms(3)
proof (induction r arbitrary: d i h)
  case (Suc r)
  let ?s = "case get sibs d of Some s \<Rightarrow> s | None \<Rightarrow> empty_subtree_hash H d"
  let ?i = "j * 2 ^ r + (i div 2) mod 2 ^ r"
  have "hash_path H sibs r (d + 1) (i div 2) (if i mod 2 = 0 then hash_branch H h ?s else hash_branch H ?s h) = tree_node H L (d + 1 + r) j"
    using Suc.prems by (simp add: Let_def)
  from Suc.IH [OF this] have up: "(if i mod 2 = 0 then hash_branch H h ?s else hash_branch H ?s h) =
      hash_branch H (tree_node H L d (2 * ?i)) (tree_node H L d (2 * ?i + 1))"
    by (simp add: tree_node_Suc [OF assms(2)])
  have "i mod 2 ^ Suc r = 2 * (i div 2 mod 2 ^ r) + i mod 2"
    by (simp add: mod_mult2_eq add.commute)
  then have *: "j * 2 ^ Suc r + i mod 2 ^ Suc r = 2 * ?i + i mod 2" by (simp add: algebra_simps)
  have "i mod 2 = 0 \<or> i mod 2 = 1" by presburger
  with up show ?case unfolding * by (auto simp: collision_freeD(1) [OF assms(1)])
qed simp

lemma entry_hash_sound:
  assumes "collision_free H" "empty_hashes_ok H" "length kvs \<le> 2 ^ D"
    and "entry_hash H D k e = returns (tree_root H D (linked_leaves kvs))"
  shows "(let i = spe_index e mod 2 ^ D; l = \<lparr> leaf_key = k, leaf_value = spe_value e, leaf_next_index = spe_next_index e \<rparr> in
    if i < length kvs then linked_leaves kvs ! i = l else l = leaf_default)"
proof -
  let ?l = "\<lparr> leaf_key = k, leaf_value = spe_value e, leaf_next_index = spe_next_index e \<rparr>"
  have "hash_path H (spe_siblings e) D 0 (spe_index e) (hash_leaf H ?l) = tree_node H (linked_leaves kvs) (0 + D) 0"
    using assms(4) by (simp add: entry_hash_def ensure_returns_iff tree_root_def)
  from hash_path_sound [OF assms(1,2) this] show ?thesis
    using assms(2) by (auto simp: Let_def collision_freeD(2) [OF assms(1)] empty_hashes_ok_def split: if_splits)
qed

text \<open>A present slot: the leaf of the tree with that key.  The empty leaf has key zero.\<close>

lemma entry_leaf:
  assumes "collision_free H" "empty_hashes_ok H" "length kvs \<le> 2 ^ D" "k \<noteq> 0"
    and "entry_hash H D k e = returns (tree_root H D (linked_leaves kvs))"
  shows "spe_index e mod 2 ^ D < length kvs \<and> kvs ! (spe_index e mod 2 ^ D) = (k, spe_value e) \<and>
    spe_next_index e = next_index (map fst kvs) k"
proof -
  let ?i = "spe_index e mod 2 ^ D"
  have i: "?i < length kvs" using entry_hash_sound [OF assms(1-3,5)] assms(4)
    by (auto simp: Let_def leaf_default_def split: if_splits)
  with entry_hash_sound [OF assms(1-3,5)] nth_linked_leaves [OF i] show ?thesis
    by (cases "kvs ! ?i") (auto simp: Let_def)
qed

lemma slot_proof_value_correct:
  assumes "collision_free H" "empty_hashes_ok H" "well_formed_tree kvs" "length kvs \<le> 2 ^ D" "k \<noteq> 0"
    and "inner_slot_proof_verify H D k p = returns (tree_root H D (linked_leaves kvs))"
  shows "inner_slot_proof_value p = map_of kvs k"
proof (cases p)
  case (ExistingSlot e)
  with assms(6) have "entry_hash H D k e = returns (tree_root H D (linked_leaves kvs))"
    by (simp add: inner_slot_proof_verify_def)
  from entry_leaf [OF assms(1,2,4,5) this] have "(k, spe_value e) \<in> set kvs" by (metis nth_mem)
  with assms(3) ExistingSlot show ?thesis by (simp add: inner_slot_proof_value_def well_formed_tree_def)
next
  case (NonExistingSlot l r)
  let ?ks = "map fst kvs" and ?le = "spk_inner l" and ?re = "spk_inner r"
  from assms(6) NonExistingSlot have lk: "spk_leaf_key l < k" and rk: "k < spk_leaf_key r"
    and link: "spe_next_index ?le = spe_index ?re"
    and lh: "entry_hash H D (spk_leaf_key l) ?le = returns (tree_root H D (linked_leaves kvs))"
    and rh: "entry_hash H D (spk_leaf_key r) ?re = returns (tree_root H D (linked_leaves kvs))"
    by (auto simp: inner_slot_proof_verify_def fallible_iffs entry_with_key_hash_def)
  have "spk_leaf_key r \<noteq> 0" using rk by auto
  note right = entry_leaf [OF assms(1,2,4) this rh]
  have n: "0 < length kvs" "fst (kvs ! 0) = 0" using assms(3) by (auto simp: well_formed_tree_def)
  let ?i = "spe_index ?le mod 2 ^ D"
  have i: "?i < length kvs"
  proof (rule ccontr)
    assume "\<not> ?thesis"
    with entry_hash_sound [OF assms(1,2,4) lh] link have "spe_index ?re = 0" by (simp add: Let_def leaf_default_def)
    with right n rk show False by simp
  qed
  have left: "?ks ! ?i = spk_leaf_key l" "spe_next_index ?le = next_index ?ks (?ks ! ?i)"
    using entry_hash_sound [OF assms(1,2,4) lh] nth_linked_leaves [OF i] i by (auto simp: Let_def)
  have "\<exists>j \<in> set ?ks. ?ks ! ?i < j"
    using right lk rk left(1) by (metis fst_conv length_map nth_map nth_mem order_less_trans)
  then obtain k' where k': "k' \<in> set ?ks" "next_index ?ks (?ks ! ?i) = index_of ?ks k'" by (blast elim: next_indexE)
  then have nx: "next_index ?ks (?ks ! ?i) < length ?ks" using nth_index_of [of k' ?ks] by simp
  then have "spe_index ?re mod 2 ^ D = next_index ?ks (?ks ! ?i)" using link left(2) assms(4) by simp
  then have "?ks ! next_index ?ks (?ks ! ?i) = spk_leaf_key r" using right nx by simp
  then have "k \<notin> set ?ks"
    using linked_gap [of ?i ?ks k k] i nx left(1) lk rk by (metis leD length_map)
  then have "map_of kvs k = None" by (simp add: map_of_eq_None_iff)
  then show ?thesis using NonExistingSlot by (simp add: inner_slot_proof_value_def)
qed

subsection \<open>Flattened proofs verify\<close>

text \<open>The sibling of an index, and the siblings that a level of the buffer holds.\<close>

definition sibling :: "nat \<Rightarrow> nat" where
  "sibling i = (if i mod 2 = 1 then i - 1 else i + 1)"

lemma sibling_inject: "sibling i = sibling j \<longleftrightarrow> i = j"
  unfolding sibling_def by presburger

definition has_sibling :: "nat \<Rightarrow> nat \<Rightarrow> bool" where
  "has_sibling m i \<longleftrightarrow> i mod 2 = 1 \<or> i \<noteq> m"

lemma level_siblings_map:
  assumes "sorted_wrt (<) is" "\<forall>i \<in> set is. i \<le> m"
  shows "level_siblings m is = map sibling (filter (has_sibling m) is)"
  using assms
proof (induction m "is" rule: level_siblings.induct)
  case (2 m i "is")
  have srt: "sorted_wrt (<) is" "sorted_wrt (<) (tl is)" "i \<le> m" "\<forall>i \<in> set is. i \<le> m" "\<forall>i \<in> set (tl is). i \<le> m"
    using "2.prems" by (cases "is"; simp)+
  consider (odd) "i mod 2 = 1" | (pair) "i mod 2 \<noteq> 1" "is \<noteq> [] \<and> hd is = i + 1"
    | (right) "i mod 2 \<noteq> 1" "\<not> (is \<noteq> [] \<and> hd is = i + 1)" "i < m"
    | (lst) "i mod 2 \<noteq> 1" "\<not> (is \<noteq> [] \<and> hd is = i + 1)" "i = m" using srt(3) by linarith
  then show ?case
  proof cases
    case odd
    with "2.IH"(1) [OF odd srt(1,4)] show ?thesis by (simp add: sibling_def has_sibling_def)
  next
    case pair
    then obtain is2 where "is": "is = (i + 1) # is2" by (cases "is") auto
    with srt(4) have "i \<noteq> m" by auto
    moreover have "(i + 1) mod 2 = 1" using pair(1) by presburger
    ultimately show ?thesis
      using "2.IH"(2) [OF pair srt(2,5)] pair "is" by (simp add: sibling_def has_sibling_def)
  next
    case right
    with "2.IH"(3) [OF right srt(1,4)] show ?thesis by (auto simp: sibling_def has_sibling_def)
  next
    case lst
    with "2.IH"(4) [OF lst(1,2) _ srt(1,4)] show ?thesis by (auto simp: sibling_def has_sibling_def)
  qed
qed simp

text \<open>The locations the closure is asked for on one level, in order.\<close>

definition level_queries :: "nat \<Rightarrow> nat \<Rightarrow> nat list \<Rightarrow> (nat \<times> nat) list" where
  "level_queries d m idxs = map (\<lambda>i. (d, sibling i)) (filter (has_sibling m) idxs)"

lemma strict_sorted_eq: "sorted_wrt (<) (xs::nat list) \<Longrightarrow> xs = sorted_list_of_set (set xs)"
  by (simp add: strict_sorted_iff sorted_list_of_set.idem_if_sorted_distinct)

lemma strict_sorted_remdups_adj: "sorted xs \<Longrightarrow> sorted_wrt (<) (remdups_adj (xs::nat list))"
  by (induction xs rule: remdups_adj.induct) (auto simp: order.strict_iff_order dest: order_trans)

lemma remdups_adj_filter_sorted:
  assumes "sorted (xs::nat list)"
  shows "remdups_adj (filter P xs) = filter P (remdups_adj xs)"
proof -
  have "sorted_wrt (<) (remdups_adj (filter P xs))" "sorted_wrt (<) (filter P (remdups_adj xs))"
    using assms by (simp_all add: strict_sorted_remdups_adj sorted_wrt_filter)
  from strict_sorted_eq [OF this(1)] strict_sorted_eq [OF this(2)] show ?thesis by simp
qed

lemma remdups_adj_append_disjoint:
  assumes "set xs \<inter> set ys = {}"
  shows "remdups_adj (xs @ ys) = remdups_adj xs @ remdups_adj ys"
  using assms
proof (induction xs rule: remdups_adj.induct)
  case (2 x)
  then show ?case by (cases ys) auto
qed auto

text \<open>On every level the queries, without repetition, are the locations in the buffer.\<close>

lemma remdups_level_queries:
  assumes "sorted idxs" "\<forall>i \<in> set idxs. i \<le> m"
  shows "remdups_adj (level_queries d m idxs) = map (\<lambda>i. (d, i)) (level_siblings m (remdups_adj idxs))"
proof -
  have "inj (\<lambda>i. (d, sibling i))" by (auto simp: inj_def sibling_inject)
  then have "remdups_adj (level_queries d m idxs) = map (\<lambda>i. (d, sibling i)) (filter (has_sibling m) (remdups_adj idxs))"
    using assms(1) by (simp add: level_queries_def remdups_adj_map_injective remdups_adj_filter_sorted)
  with assms show ?thesis by (simp add: level_siblings_map strict_sorted_remdups_adj comp_def)
qed

text \<open>All queries of \<open>flat_levels\<close>.\<close>

fun queries_from :: "nat \<Rightarrow> nat \<Rightarrow> nat \<Rightarrow> nat list \<Rightarrow> (nat \<times> nat) list" where
  "queries_from 0 d m idxs = []"
| "queries_from (Suc r) d m idxs = level_queries d m idxs @
     (if m div 2 = 0 then [] else queries_from r (d + 1) (m div 2) (map (\<lambda>i. i div 2) idxs))"

lemma queries_from_depth: "q \<in> set (queries_from r d m idxs) \<Longrightarrow> d \<le> fst q"
  by (induction r arbitrary: d m idxs) (auto simp: level_queries_def split: if_splits dest: Suc_leD)

lemma remdups_adj_parents:
  assumes "sorted idxs"
  shows "remdups_adj (map (\<lambda>i. i div 2) idxs) = parent_indices (remdups_adj idxs)"
proof -
  have "sorted (map (\<lambda>i. i div 2) idxs)" using assms by (induction idxs) (auto simp: div_le_mono)
  from strict_sorted_eq [OF strict_sorted_remdups_adj [OF this]]
    strict_sorted_eq [OF sorted_parent_indices [OF strict_sorted_remdups_adj [OF assms]]]
  show ?thesis by (simp add: set_parent_indices)
qed

lemma queries_prefix:
  assumes "sorted idxs" "\<forall>i \<in> set idxs. i \<le> m"
  shows "\<exists>suf. map fst (located_from H L r d m (remdups_adj idxs)) = remdups_adj (queries_from r d m idxs) @ suf"
  using assms
proof (induction r arbitrary: d m idxs)
  case (Suc r)
  let ?half = "map (\<lambda>i. i div 2) idxs"
  have "sorted ?half" "\<forall>i \<in> set ?half. i \<le> m div 2"
    using Suc.prems by (induction idxs) (auto simp: div_le_mono)
  from Suc.IH [OF this, of "d + 1"] obtain suf where
    suf: "map fst (located_from H L r (d + 1) (m div 2) (parent_indices (remdups_adj idxs))) =
      remdups_adj (queries_from r (d + 1) (m div 2) ?half) @ suf"
    by (auto simp: remdups_adj_parents [OF Suc.prems(1)])
  have "set (level_queries d m idxs) \<inter> set (queries_from r (d + 1) (m div 2) ?half) = {}"
    using queries_from_depth [of _ r "d + 1" "m div 2" ?half] by (fastforce simp: level_queries_def)
  from remdups_adj_append_disjoint [OF this] suf remdups_level_queries [OF Suc.prems, of d]
  show ?case by (auto simp: located_def comp_def)
qed simp

text \<open>The buffer and its index answer the remaining queries.\<close>

definition answers :: "'h located_hash list \<Rightarrow> nat \<Rightarrow> (nat \<times> nat) list \<Rightarrow> bool" where
  "answers B p Q \<longleftrightarrow> Q = [] \<or>
     p < length B \<and> (\<exists>suf. map fst (drop p B) = remdups_adj (fst (B ! p) # Q) @ suf)"

lemma get_sibling_hash_answers:
  assumes "answers B p ((d, i) # Q)" "\<forall>((d, i), h) \<in> set B. h = tree_node H L d i"
  shows "\<exists>p'. get_sibling_hash B p d i = Some (tree_node H L d i, p') \<and> answers B p' Q"
proof -
  from assms(1) obtain suf where p: "p < length B" and d: "map fst (drop p B) = remdups_adj (fst (B ! p) # (d, i) # Q) @ suf"
    by (auto simp: answers_def)
  show ?thesis
  proof (cases "fst (B ! p) = (d, i)")
    case True
    have "B ! p \<in> set B" using p by simp
    with assms(2) True have "snd (B ! p) = tree_node H L d i" by (cases "B ! p") auto
    moreover have "answers B p Q" using p d True by (auto simp: answers_def)
    ultimately show ?thesis using p True by (auto simp: get_sibling_hash_def)
  next
    case False
    have split: "map fst (drop p B) = fst (B ! p) # map fst (drop (p + 1) B)"
      using p by (metis Cons_nth_drop_Suc Suc_eq_plus1 list.simps(9))
    with d False have nx: "map fst (drop (p + 1) B) = remdups_adj ((d, i) # Q) @ suf" by simp
    then have "drop (p + 1) B \<noteq> []" by (cases "drop (p + 1) B") auto
    then have p1: "p + 1 < length B" by simp
    have "fst (B ! (p + 1)) = hd (map fst (drop (p + 1) B))" using p1 by (simp add: hd_map hd_drop_conv_nth)
    also have "\<dots> = (d, i)" unfolding nx by (simp add: hd_append)
    finally have loc: "fst (B ! (p + 1)) = (d, i)" .
    have "B ! (p + 1) \<in> set B" using p1 by simp
    with assms(2) loc have "snd (B ! (p + 1)) = tree_node H L d i" by (cases "B ! (p + 1)") auto
    moreover have "answers B (p + 1) Q" using p1 nx loc by (auto simp: answers_def)
    ultimately show ?thesis using p p1 False loc by (auto simp: get_sibling_hash_def)
  qed
qed

definition with_sibling :: "'h hash_tree \<Rightarrow> leaf list \<Rightarrow> nat \<Rightarrow> u64 \<times> 'h slot_proof_entry \<Rightarrow> u64 \<times> 'h slot_proof_entry" where
  "with_sibling H L d ie = (case ie of (i, e) \<Rightarrow> (i div 2, e\<lparr> spe_siblings := spe_siblings e @ [tree_node H L d (sibling i)] \<rparr>))"

lemma flat_level_answers:
  assumes "answers B p (level_queries d m (map fst es) @ Q)" "\<forall>((d, i), h) \<in> set B. h = tree_node H L d i"
    and "m = (length L - 1) div 2 ^ d"
  shows "\<exists>p'. flat_level H B d m p es = Some (map (with_sibling H L d) es, p') \<and> answers B p' Q"
  using assms(1)
proof (induction es arbitrary: p)
  case Nil
  then show ?case by (simp add: level_queries_def)
next
  case (Cons ie es)
  obtain i e where ie: "ie = (i, e)" by fastforce
  show ?case
  proof (cases "has_sibling m i")
    case True
    with Cons.prems ie have "answers B p ((d, sibling i) # level_queries d m (map fst es) @ Q)" by (simp add: level_queries_def)
    from get_sibling_hash_answers [OF this assms(2)] obtain p1 where
      p1: "get_sibling_hash B p d (sibling i) = Some (tree_node H L d (sibling i), p1)" "answers B p1 (level_queries d m (map fst es) @ Q)"
      by blast
    from Cons.IH [OF p1(2)] p1(1) True ie show ?thesis
      by (auto simp: with_sibling_def has_sibling_def sibling_def split: if_splits)
  next
    case False
    then have i: "i mod 2 \<noteq> 1" "i = m" by (auto simp: has_sibling_def)
    then have "tree_node H L d (sibling i) = empty_subtree_hash H d"
      using assms(3) by (auto simp: sibling_def intro!: tree_node_beyond)
    moreover have "answers B p (level_queries d m (map fst es) @ Q)" using Cons.prems ie False by (simp add: level_queries_def)
    ultimately show ?thesis using Cons.IH [of p] ie i by (auto simp: with_sibling_def)
  qed
qed

text \<open>How many levels the loop runs.\<close>

fun flat_depth :: "nat \<Rightarrow> nat \<Rightarrow> nat" where
  "flat_depth 0 m = 0"
| "flat_depth (Suc r) m = (if m div 2 = 0 then 1 else Suc (flat_depth r (m div 2)))"

definition with_path :: "'h hash_tree \<Rightarrow> leaf list \<Rightarrow> nat \<Rightarrow> nat \<Rightarrow> u64 \<times> 'h slot_proof_entry \<Rightarrow> u64 \<times> 'h slot_proof_entry" where
  "with_path H L d k ie = (case ie of (i, e) \<Rightarrow>
     (i div 2 ^ k, e\<lparr> spe_siblings := spe_siblings e @ map (\<lambda>j. tree_node H L (d + j) (sibling (i div 2 ^ j))) [0..<k] \<rparr>))"

lemma with_path_Suc: "with_path H L (d + 1) k (with_sibling H L d ie) = with_path H L d (Suc k) ie"
  by (cases ie) (simp add: with_path_def with_sibling_def upt_rec [of 0 "Suc k"] map_Suc_upt [symmetric] div_mult2_eq comp_def del: upt_Suc)

lemma flat_levels_answers:
  assumes "answers B p (queries_from r d m (map fst es))" "\<forall>((d, i), h) \<in> set B. h = tree_node H L d i"
    and "m = (length L - 1) div 2 ^ d"
  shows "flat_levels H B r d m p es = Some (map (with_path H L d (flat_depth r m)) es)"
  using assms(1,3)
proof (induction r arbitrary: d m p es)
  case 0
  then show ?case by (simp add: with_path_def case_prod_unfold)
next
  case (Suc r)
  let ?Q = "if m div 2 = 0 then [] else queries_from r (d + 1) (m div 2) (map (\<lambda>i. i div 2) (map fst es))"
  from Suc.prems(1) have "answers B p (level_queries d m (map fst es) @ ?Q)" by simp
  from flat_level_answers [OF this assms(2) Suc.prems(2)] obtain p' where
    p': "flat_level H B d m p es = Some (map (with_sibling H L d) es, p')" "answers B p' ?Q" by blast
  have fst: "map fst (map (with_sibling H L d) es) = map (\<lambda>i. i div 2) (map fst es)"
    by (simp add: with_sibling_def case_prod_unfold comp_def)
  have m': "m div 2 = (length L - 1) div 2 ^ (d + 1)" using Suc.prems(2) by (simp add: div_power_Suc del: power_Suc)
  show ?case
  proof (cases "m div 2 = 0")
    case True
    then have "with_sibling H L d = with_path H L d (flat_depth (Suc r) m)"
      by (auto simp: with_sibling_def with_path_def fun_eq_iff)
    with p'(1) True show ?thesis by simp
  next
    case False
    with p'(2) have "answers B p' (queries_from r (d + 1) (m div 2) (map fst (map (with_sibling H L d) es)))"
      unfolding fst by (simp only: if_False)
    from Suc.IH [OF this m'] p'(1) False show ?thesis
      by (simp add: with_path_Suc [simplified] comp_def)
  qed
qed

lemma hash_path_complete:
  assumes "empty_hashes_ok H" and sib: "\<And>j. j < r \<Longrightarrow>
      (case get sibs (d + j) of Some s \<Rightarrow> s | None \<Rightarrow> empty_subtree_hash H (d + j)) = tree_node H L (d + j) (sibling (i div 2 ^ j))"
  shows "hash_path H sibs r d i (tree_node H L d i) = tree_node H L (d + r) (i div 2 ^ r)"
  using sib
proof (induction r arbitrary: d i)
  case (Suc r)
  let ?s = "case get sibs d of Some s \<Rightarrow> s | None \<Rightarrow> empty_subtree_hash H d"
  have s: "?s = tree_node H L d (sibling i)" using Suc.prems [of 0] by (simp only: add_0_right zero_less_Suc power_0 div_by_1)
  have "(if i mod 2 = 0 then hash_branch H (tree_node H L d i) ?s else hash_branch H ?s (tree_node H L d i)) = tree_node H L (Suc d) (i div 2)"
  proof (cases "i mod 2 = 0")
    case True
    then have "2 * (i div 2) = i" "sibling i = i + 1" unfolding sibling_def by presburger+
    with True s show ?thesis by (simp add: tree_node_Suc [OF assms(1)])
  next
    case False
    then have "2 * (i div 2) + 1 = i" "sibling i = 2 * (i div 2)" unfolding sibling_def by presburger+
    with False s show ?thesis by (simp only: tree_node_Suc [OF assms(1)] if_False)
  qed
  moreover have "hash_path H sibs r (Suc d) (i div 2) (tree_node H L (Suc d) (i div 2)) = tree_node H L (Suc d + r) (i div 2 div 2 ^ r)"
    using Suc.prems [of "Suc j" for j] by (intro Suc.IH) (simp add: div_mult2_eq cong: option.case_cong)
  ultimately show ?case by (simp add: Let_def div_mult2_eq)
qed simp

lemma flat_depth_zero: "flat_depth r m \<le> j \<Longrightarrow> j < r \<Longrightarrow> m div 2 ^ j = 0"
proof (induction r m arbitrary: j rule: flat_depth.induct)
  case (2 r m)
  then obtain j' where j: "j = Suc j'" by (cases j) (auto split: if_splits)
  show ?case
  proof (cases "m div 2 = 0")
    case True
    then show ?thesis by (simp add: j div_mult2_eq)
  next
    case False
    with 2 j show ?thesis by (simp add: div_mult2_eq)
  qed
qed simp

lemma flat_depth_less: "m < 2 ^ r \<Longrightarrow> flat_depth (Suc r) m \<le> max 1 r"
proof (induction r arbitrary: m)
  case (Suc r)
  then have "m div 2 < 2 ^ r" by (simp add: less_mult_imp_div_less mult.commute)
  from Suc.IH [OF this] this show ?case
    by (cases "m div 2 = 0"; cases r) auto
qed simp

text \<open>The path of a leaf of the tree verifies.\<close>

definition path_entry :: "'h hash_tree \<Rightarrow> leaf list \<Rightarrow> nat \<Rightarrow> u64 \<Rightarrow> leaf \<Rightarrow> 'h slot_proof_entry" where
  "path_entry H L k i l =
     \<lparr> spe_index = i, spe_value = leaf_value l, spe_next_index = leaf_next_index l,
       spe_siblings = map (\<lambda>j. tree_node H L j (sibling (i div 2 ^ j))) [0..<k] \<rparr>"

lemma path_entry_verifies:
  assumes "empty_hashes_ok H" "i < length L" "length L \<le> 2 ^ D" "k < D"
    and k: "\<And>j. k \<le> j \<Longrightarrow> j < D \<Longrightarrow> (length L - 1) div 2 ^ j = 0"
  shows "entry_hash H D (leaf_key (L ! i)) (path_entry H L k i (L ! i)) = returns (tree_root H D L)"
proof -
  let ?sibs = "map (\<lambda>j. tree_node H L j (sibling (i div 2 ^ j))) [0..<k]"
  have "(case get ?sibs (0 + j) of Some s \<Rightarrow> s | None \<Rightarrow> empty_subtree_hash H (0 + j)) = tree_node H L (0 + j) (sibling (i div 2 ^ j))"
    if "j < D" for j
  proof (cases "j < k")
    case False
    have top: "(length L - 1) div 2 ^ j = 0" using k False that by simp
    moreover have "i div 2 ^ j \<le> (length L - 1) div 2 ^ j" using assms(2) by (intro div_le_mono) simp
    ultimately have "sibling (i div 2 ^ j) = 1" by (simp add: sibling_def)
    with False top show ?thesis by (simp add: tree_node_beyond)
  qed simp
  from hash_path_complete [OF assms(1) this] have "hash_path H ?sibs D 0 i (tree_node H L 0 i) = tree_node H L D (i div 2 ^ D)" by simp
  moreover have "i div 2 ^ D = 0" using assms(2,3) by simp
  moreover have eta: "\<lparr> leaf_key = leaf_key (L ! i), leaf_value = leaf_value (L ! i), leaf_next_index = leaf_next_index (L ! i) \<rparr> = L ! i"
    by simp
  ultimately show ?thesis
    using assms(2,4) unfolding entry_hash_def path_entry_def slot_proof_entry.simps eta by (simp add: tree_root_def)
qed

text \<open>The buffer that \<open>zip_leaves\<close> fills answers all queries.\<close>

lemma located_from_values: "\<forall>((e, i), h) \<in> set (located_from H L r d m is). h = tree_node H L e i"
proof (induction r arbitrary: d m "is")
  case (Suc r)
  then show ?case unfolding located_from.simps set_append ball_Un by (simp add: located_def)
qed simp

lemma located_answers:
  assumes "sorted_wrt (<) is" "\<forall>i \<in> set is. i \<le> m"
  shows "answers (located_from H L r d m is) 0 (queries_from r d m is)"
proof (cases "queries_from r d m is")
  case (Cons q Q)
  have srt: "sorted is" "remdups_adj is = is" using assms(1) by (simp_all add: strict_sorted_iff remdups_adj_distinct)
  from queries_prefix [OF srt(1) assms(2), of H L r d] obtain suf where
    suf: "map fst (located_from H L r d m is) = remdups_adj (q # Q) @ suf" by (auto simp: srt(2) Cons)
  then have ne: "located_from H L r d m is \<noteq> []" by (cases "located_from H L r d m is") auto
  have "fst (located_from H L r d m is ! 0) = hd (map fst (located_from H L r d m is))" using ne by (simp add: hd_map hd_conv_nth)
  also have "\<dots> = q" unfolding suf by (simp add: hd_append)
  finally show ?thesis using suf ne Cons by (auto simp: answers_def)
qed (simp add: answers_def)

lemma to_flat_paths:
  assumes lv: "leaves_of kvs (btp_sorted_leaves prf)" and wf: "btm_wf (btp_sorted_leaves prf)" and ne: "btp_sorted_leaves prf \<noteq> []"
    and n: "length kvs \<le> 2 ^ D" and ops: "btp_operations prf = []"
    and hs: "btp_hashes prf = collect_hashes_from (tree_node H (linked_leaves kvs)) D 0 (length kvs - 1) (map fst (btp_sorted_leaves prf))"
  shows "to_flat H D (length kvs) prf =
    unwrap_all (map (flat_read (btp_sorted_leaves prf)
      (map (\<lambda>(i, l). (i, path_entry H (linked_leaves kvs) (flat_depth D (length kvs - 1)) i l)) (btp_sorted_leaves prf)))
      (btp_read_operations prf))"
proof -
  let ?ls = "btp_sorted_leaves prf" and ?L = "linked_leaves kvs" and ?m = "length kvs - 1"
  let ?B = "located_from H ?L D 0 ?m (map fst ?ls)"
  let ?es = "map (\<lambda>(i, l). (i, \<lparr> spe_index = i, spe_value = leaf_value l, spe_next_index = leaf_next_index l, spe_siblings = [] \<rparr>)) ?ls"
  have srt: "sorted_wrt (<) (map fst ?ls)" using wf by (simp add: btm_wf_def)
  have bnd: "\<forall>i \<in> set (map fst ?ls). i \<le> ?m" and pos: "0 < length kvs"
    using lv ne by (auto simp: leaves_of_def) (cases ?ls, auto)
  have z: "zip_leaves H D (length kvs) ?ls (btp_hashes prf) = returns (tree_root H D ?L, ?B)"
    unfolding hs using zip_leaves_complete [of ?L D ?ls H] n srt ne lv by (force simp: leaves_of_def)
  have es: "map fst ?es = map fst ?ls" by (simp add: case_prod_unfold comp_def)
  have "flat_levels H ?B D 0 ?m 0 ?es = Some (map (with_path H ?L 0 (flat_depth D ?m)) ?es)"
  proof (rule flat_levels_answers [OF _ located_from_values])
    show "answers ?B 0 (queries_from D 0 ?m (map fst ?es))" unfolding es by (rule located_answers [OF srt bnd])
  qed simp
  moreover have "map (\<lambda>(_, e). (spe_index e, e)) (map (with_path H ?L 0 (flat_depth D ?m)) ?es) =
      map (\<lambda>(i, l). (i, path_entry H ?L (flat_depth D ?m) i l)) ?ls"
    by (simp add: with_path_def path_entry_def case_prod_unfold)
  ultimately show ?thesis
    using ne pos by (simp add: to_flat_def ops sibling_hashes_def z Let_def del: map_map)
qed

lemma unwrap_all_nth:
  "(\<And>x. x \<in> set xs \<Longrightarrow> f x \<noteq> None) \<Longrightarrow> unwrap_all (map f xs) = Some (map (the \<circ> f) xs)"
proof (induction xs)
  case (Cons x xs)
  then obtain y where "f x = Some y" by fastforce
  with Cons show ?case by simp
qed simp

lemma path_btm_get:
  "btm_get (map (\<lambda>(i, l). (i, f i l)) ls) i = map_option (f i) (btm_get ls i)"
  by (induction ls) (auto simp: btm_get_def)

lemma verified_reads:
  assumes "verify_read_operations ls n ops r = returns r'" "(op, k) \<in> set ops"
  shows "verify_operation ls n op k = returns ()"
  using assms
  by (induction ls n ops r rule: verify_read_operations.induct)
    (auto simp: and_then_returns_iff split: tree_operation.splits option.splits)

lemma flat_read_verifies:
  assumes lv: "leaves_of kvs ls" and tree: "well_formed_tree kvs" "empty_hashes_ok H" "length kvs \<le> 2 ^ (D - 1)" "2 \<le> D"
    and v: "verify_operation ls (length kvs) op k = returns ()"
  defines "es \<equiv> map (\<lambda>(i, l). (i, path_entry H (linked_leaves kvs) (flat_depth D (length kvs - 1)) i l)) ls"
  shows "\<exists>p. flat_read ls es op = Some p \<and> inner_slot_proof_verify H D k p = returns (tree_root H D (linked_leaves kvs)) \<and>
    inner_slot_proof_value p = map_of kvs k"
proof -
  let ?K = "flat_depth D (length kvs - 1)" and ?L = "linked_leaves kvs"
  have "(2::nat) ^ (D - 1) \<le> 2 ^ D" by (rule power_increasing) simp_all
  then have le: "length ?L \<le> 2 ^ D" using tree(3) by (simp del: power_increasing_iff)
  obtain r where r: "D = Suc r" "1 \<le> r" using tree(4) by (cases D) auto
  obtain n where "length kvs = Suc n" using tree(1) by (cases "length kvs") (auto simp: well_formed_tree_def)
  then have "length kvs - 1 < 2 ^ r" using tree(3) r by (simp add: Suc_le_eq)
  then have K: "?K < D" using flat_depth_less [of "length kvs - 1" r] r by simp
  have path: "entry_hash H D (leaf_key l) (path_entry H ?L ?K i l) = returns (tree_root H D ?L)" if "btm_get ls i = Some l" for i l
  proof -
    have i: "i < length kvs" "l = ?L ! i" using lv btm_get_Some_in [OF that] by (auto simp: leaves_of_def)
    then show ?thesis using path_entry_verifies [OF tree(2) _ le K, of i] flat_depth_zero [of D "length kvs - 1"] by simp
  qed
  have get: "btm_get es i = map_option (path_entry H ?L ?K i) (btm_get ls i)" for i unfolding es_def by (rule path_btm_get)
  show ?thesis
  proof (cases op)
    case (Hit i)
    with v obtain l where l: "btm_get ls i = Some l" "leaf_key l = k" by (auto elim: verify_operation_Hit)
    with leaves_of_get [OF lv l(1)] map_of_nth [of kvs i] tree(1) have "map_of kvs k = Some (leaf_value l)"
      by (simp add: well_formed_tree_def)
    with Hit l path [OF l(1)] show ?thesis
      by (simp add: flat_read_def get inner_slot_proof_verify_def inner_slot_proof_value_def path_entry_def)
  next
    case (Miss i)
    with v obtain p q where pq: "btm_get ls i = Some p" "leaf_key p < k"
      "btm_get ls (leaf_next_index p) = Some q" "k < leaf_key q" by (auto elim: verify_operation_Miss)
    have "map_of kvs k = None" using verified_miss_absent [OF lv] v Miss by (simp add: map_of_eq_None_iff)
    moreover have "spe_next_index (path_entry H ?L ?K i p) = leaf_next_index p"
      "spe_index (path_entry H ?L ?K (leaf_next_index p) q) = leaf_next_index p" by (simp_all add: path_entry_def)
    ultimately show ?thesis using Miss pq path [OF pq(1)] path [OF pq(3)]
      by (simp add: flat_read_def get inner_slot_proof_verify_def inner_slot_proof_value_def entry_with_key_hash_def)
  qed
qed

subsection \<open>Properties\<close>

text \<open>C17.  A proof for a single slot is sound: if it verifies to the root of a well-formed tree, for a
  key other than the minimum guard, then the value it carries is the value of the key in the tree, and
  a proof of absence verifies only for a key that is absent.  Empty subtrees are hashed as the code
  does, so that the empty leaf cannot pass for a leaf of the tree.\<close>

theorem slot_proof_is_sound:
  assumes "collision_free H" "empty_hashes_ok H" "well_formed_tree kvs" "length kvs \<le> 2 ^ D" "ssp_key p \<noteq> 0"
    and "storage_slot_proof_verify H D p = returns (tree_root H D (linked_leaves kvs))"
  shows "storage_slot_proof_value p = map_of kvs (ssp_key p)"
  using assms by (simp add: slot_proof_value_correct storage_slot_proof_verify_def storage_slot_proof_value_def)

definition example_slot_proof :: "hash_term storage_slot_proof" where
  "example_slot_proof =
     \<lparr> ssp_key = 9, ssp_proof = the (map_option hd (to_flat term_hasher 3 3 (example_read_proof\<lparr> btp_read_operations := [Miss 2] \<rparr>))) \<rparr>"

theorem slot_proof_is_sound_witness:
  "storage_slot_proof_verify term_hasher 3 example_slot_proof = returns (tree_root term_hasher 3 (linked_leaves example_tree)) \<and>
   storage_slot_proof_value example_slot_proof = map_of example_tree (ssp_key example_slot_proof)"
proof -
  have v: "storage_slot_proof_verify term_hasher 3 example_slot_proof = returns (tree_root term_hasher 3 (linked_leaves example_tree))"
    and k: "ssp_key example_slot_proof \<noteq> 0" and n: "length example_tree \<le> 2 ^ 3" by code_simp+
  from slot_proof_is_sound [OF term_hasher_collision_free term_hasher_empty_ok example_tree_wf n k v] v show ?thesis by blast
qed

text \<open>C16.  Flattening never panics on an accepted read proof, and it returns one proof per key, in
  order.  Each of them verifies to the same root and carries the value of its key, or absence.  The
  bound on the number of leaves is the one the flat format needs: its paths are shorter than the tree
  is deep.\<close>

theorem flattened_reads_verify:
  assumes "collision_free H" "empty_hashes_ok H" "well_formed_tree kvs" "length kvs \<le> 2 ^ (D - 1)" "2 \<le> D"
    and "btm_wf (btp_sorted_leaves prf)" "read_keys \<noteq> []"
    and "verify_reads H D (tree_output_of H D kvs) read_keys prf = returns view"
  shows "\<exists>ps. to_flat H D (length kvs) prf = Some ps \<and> length ps = length read_keys \<and>
    (\<forall>j < length read_keys. inner_slot_proof_verify H D (read_keys ! j) (ps ! j) = returns (tree_root H D (linked_leaves kvs)) \<and>
      inner_slot_proof_value (ps ! j) = map_of kvs (read_keys ! j))"
proof -
  let ?ls = "btp_sorted_leaves prf" and ?ops = "btp_read_operations prf"
  have v: "verify H D (Some (tree_output_of H D kvs)) [] read_keys prf = returns view" using assms(8) by (simp add: verify_reads_def)
  then have lens: "btp_operations prf = []" "length ?ops = length read_keys" by (simp_all add: verify_def Let_def ensure_returns_iff)
  have "(2::nat) ^ (D - 1) \<le> 2 ^ D" by (rule power_increasing) simp_all
  then have n: "length kvs \<le> 2 ^ D" using assms(4) by linarith
  have "btp_operations prf \<noteq> [] \<or> ?ops \<noteq> []" using lens assms(7) by auto
  then obtain reads ss where ne: "?ls \<noteq> []" "fst (last ?ls) < length kvs"
    and r: "verify_read_operations ?ls (length kvs) (zip ?ops read_keys) Map.empty = returns reads"
    and z: "zip_leaves H D (length kvs) ?ls (btp_hashes prf) = returns (tree_root H D (linked_leaves kvs), ss)"
    by (rule verify_returns [OF v, unfolded linked_output]) (rule that; assumption)
  note pl = proof_leaves [OF z assms(1) n assms(6) ne(2)]
  let ?es = "map (\<lambda>(i, l). (i, path_entry H (linked_leaves kvs) (flat_depth D (length kvs - 1)) i l)) ?ls"
  have ok: "\<exists>p. flat_read ?ls ?es (?ops ! j) = Some p \<and> inner_slot_proof_verify H D (read_keys ! j) p = returns (tree_root H D (linked_leaves kvs)) \<and>
      inner_slot_proof_value p = map_of kvs (read_keys ! j)" if "j < length read_keys" for j
  proof -
    have "(?ops ! j, read_keys ! j) \<in> set (zip ?ops read_keys)" using that lens by (force simp: set_zip)
    then have "verify_operation ?ls (length kvs) (?ops ! j) (read_keys ! j) = returns ()"
      by (rule verified_reads [OF r])
    from flat_read_verifies [OF pl(1) assms(3,2,4,5) this] show ?thesis .
  qed
  have "to_flat H D (length kvs) prf = unwrap_all (map (flat_read ?ls ?es) ?ops)"
    by (rule to_flat_paths [OF pl(1) assms(6) ne(1) n lens(1) pl(2)])
  also have "\<dots> = Some (map (the \<circ> flat_read ?ls ?es) ?ops)"
  proof (rule unwrap_all_nth)
    fix op assume "op \<in> set ?ops"
    then obtain j where "j < length read_keys" "?ops ! j = op" using lens(2) by (auto simp: in_set_conv_nth)
    with ok [of j] show "flat_read ?ls ?es op \<noteq> None" by blast
  qed
  finally have flat: "to_flat H D (length kvs) prf = Some (map (the \<circ> flat_read ?ls ?es) ?ops)" .
  show ?thesis
  proof (intro exI conjI allI impI)
    show "to_flat H D (length kvs) prf = Some (map (the \<circ> flat_read ?ls ?es) ?ops)" by (rule flat)
    show "length (map (the \<circ> flat_read ?ls ?es) ?ops) = length read_keys" by (simp add: lens(2))
    fix j assume j: "j < length read_keys"
    from ok [OF j] obtain p where p: "flat_read ?ls ?es (?ops ! j) = Some p"
      "inner_slot_proof_verify H D (read_keys ! j) p = returns (tree_root H D (linked_leaves kvs))"
      "inner_slot_proof_value p = map_of kvs (read_keys ! j)" by blast
    then have "map (the \<circ> flat_read ?ls ?es) ?ops ! j = p" using j lens(2) by simp
    with p show "inner_slot_proof_verify H D (read_keys ! j) (map (the \<circ> flat_read ?ls ?es) ?ops ! j) = returns (tree_root H D (linked_leaves kvs))"
      "inner_slot_proof_value (map (the \<circ> flat_read ?ls ?es) ?ops ! j) = map_of kvs (read_keys ! j)" by (simp_all only:)
  qed
qed

theorem flattened_reads_verify_witness:
  "\<exists>ps. to_flat term_hasher 3 (length example_tree) example_read_proof = Some ps \<and> length ps = length [5, 9::key] \<and>
    (\<forall>j < length [5, 9::key]. inner_slot_proof_verify term_hasher 3 ([5, 9] ! j) (ps ! j) = returns (tree_root term_hasher 3 (linked_leaves example_tree)) \<and>
      inner_slot_proof_value (ps ! j) = map_of example_tree ([5, 9] ! j))"
proof (rule flattened_reads_verify [OF term_hasher_collision_free term_hasher_empty_ok example_tree_wf])
  show "verify_reads term_hasher 3 (tree_output_of term_hasher 3 example_tree) [5, 9] example_read_proof =
    returns \<lparr> mtv_root_hash = tree_root term_hasher 3 (linked_leaves example_tree), mtv_read_entries = [5 \<mapsto> Some 50, 9 \<mapsto> None] \<rparr>"
    by code_simp
  show "btm_wf (btp_sorted_leaves example_read_proof)" by (simp add: example_read_proof_def example_proof_def btm_wf_def)
qed (simp_all add: example_tree_def)

end
