(* ===== verification/Spec2Isabelle.thy ===== *)
theory Spec2Isabelle
  imports PriorityTree BatchVerification Batcher GasAdjuster Sequencer FlatProofs
begin

text \<open>
  Verification of the ZKsync OS server.

  The server turns L2 blocks into batches and settles them on L1.  Blocks are executed and cut into
  batches by the batcher; a batch is signed by validators, proved (FRI, then SNARK), and committed,
  proved and executed on L1.  Each stage hands envelopes to the next through channels.  The theories
  below model the way of a transaction from the pool into a block, the stages between the block stream
  and L1, and the data they exchange.

  \<^bold>\<open>Conventions.\<close>  A panic is \<^term>\<open>None\<close> of the option monad, a \<open>Result\<close> is a sum with the error on the
  left.  Error messages are kept by the constant part of their format string, except where a message is
  sent to a peer.  \<open>u64\<close> and \<open>usize\<close> are natural numbers: the release profile of \<open>Cargo.toml\<close> sets
  \<open>overflow-checks\<close>, so an overflow is a panic and not a wrong value; that panic is written out only
  where a property depends on it.  Arithmetic that wraps or saturates in the source does so in the model
  (\<open>fetch_add\<close>, \<open>overflowing_add\<close>, \<open>saturating_sub\<close>), and packed versions are \<^typ>\<open>256 word\<close>.
  Code outside the repository is an argument of the definitions that use it: hash functions and blobs
  (\<open>externals\<close>), the ABI codec (\<open>abi\<close>), the signature scheme (\<open>signatures\<close>), proof verification, the
  batch program, the virtual machine, the L1 provider.  What is relied on of it is a named hypothesis with a concrete
  instance in the witness.  Channels are lists of events in the order a component sees them; timers are
  events.  Metrics, logging and latency tracking are left out throughout.

  \<^bold>\<open>Shared data.\<close>
  \<^item> \<open>Prelude\<close>: the option monad, lists.  \<open>BTreeMap\<close>: the standard library's ordered map, with the locale
    \<open>ordered_map\<close> its clients rely on and its interpretation.
  \<^item> \<open>Types\<close> (\<open>lib/types\<close>, \<open>lib/storage_api/src/model.rs\<close>): versions, transactions, replay records.
    Packing a version is invertible; a version is live exactly if it can be proved and executed.
  \<^item> \<open>MiniMerkle\<close> (\<open>lib/mini_merkle_tree\<close>): the compact Merkle tree.  It represents the complete tree over
    all leaves ever pushed, whatever was trimmed; its paths verify; it can be restored from its cache.
    The locale \<open>accumulator\<close> is what the priority tree relies on.
  \<^item> \<open>BatchInfo\<close>, \<open>BatchTypes\<close> (\<open>lib/batch_types\<close>, \<open>lib/contract_interface\<close>, \<open>commands/commit.rs\<close> of
    \<open>lib/l1_sender\<close>): commit data of a batch, envelopes, signature sets, commit commands.  Every
    field of the commit data is determined from the blocks of the batch; when building it panics.
  \<^item> \<open>BatchWire\<close>: round trips of the encodings, and which fields of the commit data the batch commitment binds.

  \<^bold>\<open>Blocks.\<close>
  \<^item> \<open>Mempool\<close> (\<open>lib/mempool/src/subpools\<close>): the queues of L1, interop root, interop fee and upgrade
    transactions, each with the stream that serves a block under construction and the consumption of an
    executed block.  Whatever the interleaving with the watchers, L1 transactions execute in order
    without gaps.  The locale \<open>waiting_queue\<close> is the contract of a waiting pop.
  \<^item> \<open>Fees\<close> (\<open>fee_provider.rs\<close> of \<open>lib/sequencer\<close>): the fee parameters of the next block.  Prices change
    gradually and the native price converges.
  \<^item> \<open>TxPool\<close> (\<open>pool.rs\<close>, \<open>interop_fee_updater.rs\<close> of \<open>lib/mempool\<close>): selection among the streams and the
    distribution of an executed block.  A block served by the pool is consumed without a panic; a fee in
    flight is not replaced.
  \<^item> \<open>BlockExecution\<close> (\<open>execute_block_in_vm.rs\<close>): the loop around the virtual machine.  Only L2 transactions
    are left out of a block, the limits hold, nothing panics, and a replay reproduces the record.
  \<^item> \<open>Sequencer\<close> (\<open>block_context_provider.rs\<close>, \<open>block_canonizer.rs\<close>, conditions of \<open>block_executor.rs\<close> and
    \<open>block_applier.rs\<close>): the commands.  A produced block is replicated by every node at the same tip,
    cursors follow the queues, and only canonized blocks pass.

  \<^bold>\<open>Stages.\<close>
  \<^item> \<open>Batcher\<close> (\<open>node/bin/src/batcher\<close>): seal criteria, deadline and the run loop, which skips executed
    blocks, recreates committed batches and creates new ones.  Batches of more than one block keep every
    limit; the batches partition the blocks that are not skipped; the accumulator equals the sums; a
    batch recreated after a restart is built from the blocks of the one committed on L1.
  \<^item> \<open>NativeBatch\<close> (\<open>lib/native_pig/src/lib.rs\<close>): commit data computed by the batch program is
    cross-checked before use.
  \<^item> \<open>BatchVerification\<close> (\<open>lib/batch_verification\<close>): the sequencer collects a quorum of distinct accepted
    signatures, enough for the committer; a validator signs only what it recomputed from its own
    blocks; what an honest validator approves is counted; its block cache keeps uncommitted blocks.
  \<^item> \<open>ProverJobs\<close>, \<open>ProverManagers\<close> (\<open>node/bin/src/prover_api\<close>): assignment of proving jobs, submission of
    proofs, and the reordering of batches and proofs into gapless sequences.
  \<^item> \<open>PriorityTree\<close> (\<open>lib/priority_tree\<close>): execute commands with Merkle proofs for L1 transactions, and
    their reconstruction after a restart.

  \<^bold>\<open>State tree.\<close>
  \<^item> \<open>StateTree\<close>, \<open>TreeIndices\<close>, \<open>TreeVerify\<close>, \<open>TreeSoundness\<close> (\<open>lib/merkle_tree_api/src/proofs.rs\<close>): batch proofs
    against the linked Merkle tree.  The abstract tree is the list of key-value pairs in insertion order.
    An accepted proof determines the read values and the root after the batch; verification panics
    only if the index of an inserted leaf exceeds \<open>u64\<close>; a proof without the last leaf is wrongly accepted.
  \<^item> \<open>FlatProofs\<close> (\<open>flat.rs\<close>): proofs for single slots are sound, and flattening gives such proofs.

  \<^bold>\<open>Control.\<close>
  \<^item> \<open>Backpressure\<close> (\<open>lib/backpressure\<close>): the node accepts transactions exactly while no stage lags.
  \<^item> \<open>GasAdjuster\<close> (\<open>lib/gas_adjuster\<close>): medians of L1 fees; how far the fee history is from one value per
    block.

  \<^bold>\<open>Bounds.\<close>  Loops that end are total functions.  Two loops of the source need not end and are cut off by a
  number: the retries of \<open>sign_with_retries\<close> and the batches of \<open>batcher_run\<close>, of which \<open>run_batches\<close> is
  the part that creates new batches.  Their properties hold for
  every such number, so they hold at every point of an unbounded run.  Waiting is explicit: a waiting pop
  runs over a schedule of what arrives before each attempt and the block loop over its events, and
  running out of them is \<^term>\<open>Pending\<close> or \<open>LoopWaits\<close>; liveness properties show that this does not happen.

  \<^bold>\<open>Not modelled.\<close>  In modelled parts: sealing (\<open>batch_builder.rs\<close>) in the
  batcher, requests that arrive while fake proofs are drained (the loop reads the clock once), the blob fill ratio of the gas adjuster, the driver of the batch program
  (\<open>v32.rs\<close>, \<open>tree.rs\<close> of \<open>lib/native_pig\<close>), the pool and validator of L2 transactions, of which the calls
  are recorded, and the loop of the block executor with its overlay of unpersisted blocks.  Whole parts
  that could be modelled and are not yet: the nodes of the state tree, the L1 sender and watcher, storage
  and the replay archive.  The gas rate limiter of the mempool computes with floating point numbers,
  which exact numbers would misstate.  The RPC server, network, consensus, price clients, configuration
  and observability mostly adapt external libraries.
\<close>

end
